(* ===== verification/Hex_Prelude.thy ===== *)
theory Hex_Prelude
  imports Main "HOL-Library.Word" "HOL-Library.Multiset"
begin

text \<open>
  Shared vocabulary of the development: the machine types of the Rust sources, the
  result type and its \<open>?\<close> operator, the parts of the Rust standard library the
  components use (\<open>Duration\<close>, \<open>SystemTime\<close>, integer parsing and printing,
  big-endian byte encodings), and the generic lemmas on maps, lists and words that the
  component theories share.

  Conventions. A Rust \<open>str\<close> or \<open>String\<close> is a HOL \<open>string\<close> read as its UTF-8 bytes, so
  \<open>length\<close> is \<open>str::len\<close>. A \<open>Duration\<close> is its number of nanoseconds; a \<open>SystemTime\<close> is
  its signed offset from the Unix epoch in nanoseconds. A \<open>Result\<open> T E \<close>\<close> is a sum, with
  \<open>Inl\<close> for the error.
\<close>

named_theorems result_simps \<open>rewrite rules for the result type\<close>
named_theorems time_simps \<open>bounds of durations and instants\<close>

type_synonym byte = "8 word"
type_synonym u32 = "32 word"
type_synonym u64 = "64 word"
type_synonym usize = "64 word"
type_synonym uuid = "128 word"
type_synonym duration = nat
type_synonym systime = int

section \<open>Results\<close>

type_synonym ('e, 'a) result = "'e + 'a"

text \<open>The \<open>?\<close> operator: stop at the first error.\<close>

fun rbind :: "('e, 'a) result \<Rightarrow> ('a \<Rightarrow> ('e, 'b) result) \<Rightarrow> ('e, 'b) result" where
  "rbind (Inl e) f = Inl e"
| "rbind (Inr x) f = f x"

fun map_err :: "('e \<Rightarrow> 'f) \<Rightarrow> ('e, 'a) result \<Rightarrow> ('f, 'a) result" where
  "map_err g (Inl e) = Inl (g e)"
| "map_err g (Inr x) = Inr x"

fun ok_or :: "'a option \<Rightarrow> 'e \<Rightarrow> ('e, 'a) result" where
  "ok_or None e = Inl e"
| "ok_or (Some x) e = Inr x"

fun is_ok :: "('e, 'a) result \<Rightarrow> bool" where
  "is_ok (Inl e) = False"
| "is_ok (Inr x) = True"

section \<open>Durations and instants\<close>

definition nanos_per_sec :: nat where
  "nanos_per_sec = 1000000000"

definition nanos_per_milli :: nat where
  "nanos_per_milli = 1000000"

text \<open>\<open>Duration::MAX\<close>: \<open>u64::MAX\<close> seconds and 999999999 nanoseconds.\<close>

definition duration_max :: duration where
  "duration_max = 2 ^ 64 * nanos_per_sec - 1"

definition from_secs :: "nat \<Rightarrow> duration" where
  "from_secs s = s * nanos_per_sec"

definition from_millis :: "nat \<Rightarrow> duration" where
  "from_millis m = m * nanos_per_milli"

definition as_millis :: "duration \<Rightarrow> nat" where
  "as_millis d = d div nanos_per_milli"

definition as_secs :: "duration \<Rightarrow> nat" where
  "as_secs d = d div nanos_per_sec"

definition duration_checked_mul :: "duration \<Rightarrow> u32 \<Rightarrow> duration option" where
  "duration_checked_mul d k =
     (if d * unat k \<le> duration_max then Some (d * unat k) else None)"

definition duration_saturating_mul :: "duration \<Rightarrow> u32 \<Rightarrow> duration" where
  "duration_saturating_mul d k =
     (case duration_checked_mul d k of Some r \<Rightarrow> r | None \<Rightarrow> duration_max)"

text \<open>
  A \<open>SystemTime\<close> on Unix holds signed 64-bit seconds and a nanosecond part; both
  \<open>checked_add\<close> and \<open>checked_sub\<close> refuse a result outside that range.
\<close>

definition systime_min :: systime where
  "systime_min = - (2 ^ 63) * int nanos_per_sec"

definition systime_max :: systime where
  "systime_max = 2 ^ 63 * int nanos_per_sec - 1"

definition unix_epoch :: systime where
  "unix_epoch = 0"

definition systime_checked_add :: "systime \<Rightarrow> duration \<Rightarrow> systime option" where
  "systime_checked_add t d =
     (if t + int d \<le> systime_max then Some (t + int d) else None)"

definition systime_checked_sub :: "systime \<Rightarrow> duration \<Rightarrow> systime option" where
  "systime_checked_sub t d =
     (if systime_min \<le> t - int d then Some (t - int d) else None)"

text \<open>\<open>later.duration_since(earlier)\<close>; the error carries the distance the other way.\<close>

definition duration_since :: "systime \<Rightarrow> systime \<Rightarrow> (duration, duration) result" where
  "duration_since later earlier =
     (if earlier \<le> later then Inr (nat (later - earlier)) else Inl (nat (earlier - later)))"

section \<open>Machine integers\<close>

text \<open>\<open>1u32.checked_shl(n)\<close>.\<close>

definition u32_one_checked_shl :: "u32 \<Rightarrow> u32 option" where
  "u32_one_checked_shl n = (if unat n < 32 then Some (push_bit (unat n) 1) else None)"

definition u32_saturating_inc :: "u32 \<Rightarrow> u32" where
  "u32_saturating_inc n = (if n = - 1 then - 1 else n + 1)"

text \<open>\<open>u32::try_from(n).unwrap_or(u32::MAX)\<close> for a \<open>usize\<close>.\<close>

definition usize_to_u32_saturating :: "usize \<Rightarrow> u32" where
  "usize_to_u32_saturating n = (if unat n < 2 ^ 32 then word_of_nat (unat n) else - 1)"

section \<open>Bytes\<close>

text \<open>\<open>to_be_bytes\<close> on \<open>n\<close> bytes.\<close>

fun be_bytes :: "nat \<Rightarrow> nat \<Rightarrow> byte list" where
  "be_bytes 0 x = []"
| "be_bytes (Suc n) x = be_bytes n (x div 256) @ [word_of_nat (x mod 256)]"

definition be_value :: "byte list \<Rightarrow> nat" where
  "be_value bs = foldl (\<lambda>acc b. acc * 256 + unat b) 0 bs"

definition str_bytes :: "string \<Rightarrow> byte list" where
  "str_bytes s = map (\<lambda>c. word_of_nat (of_char c)) s"

definition uuid_bytes :: "uuid \<Rightarrow> byte list" where
  "uuid_bytes u = be_bytes 16 (unat u)"

section \<open>Decimal integers\<close>

definition digit_value :: "char \<Rightarrow> nat option" where
  "digit_value c =
     (if 48 \<le> (of_char c :: nat) \<and> (of_char c :: nat) \<le> 57
      then Some (of_char c - 48) else None)"

fun digits_value :: "nat \<Rightarrow> string \<Rightarrow> nat option" where
  "digits_value acc [] = Some acc"
| "digits_value acc (c # cs) =
     (case digit_value c of None \<Rightarrow> None | Some d \<Rightarrow> digits_value (acc * 10 + d) cs)"

text \<open>The digits of \<open>from_str_radix(10)\<close>: at least one, and nothing but digits.\<close>

definition parse_digits :: "string \<Rightarrow> nat option" where
  "parse_digits s = (if s = [] then None else digits_value 0 s)"

text \<open>\<open>str::parse::<u32>\<close>: an optional plus sign, digits, no overflow.\<close>

definition parse_u32 :: "string \<Rightarrow> u32 option" where
  "parse_u32 s =
     (let ds = (case s of c # cs \<Rightarrow> if c = CHR ''+'' then cs else s | [] \<Rightarrow> s)
      in case parse_digits ds of
           None \<Rightarrow> None
         | Some n \<Rightarrow> if n < 2 ^ 32 then Some (word_of_nat n) else None)"

text \<open>\<open>str::parse::<i64>\<close>: an optional sign, digits, no overflow.\<close>

definition parse_i64 :: "string \<Rightarrow> int option" where
  "parse_i64 s =
     (case s of
        [] \<Rightarrow> None
      | c # cs \<Rightarrow>
          if c = CHR ''-'' then
            (case parse_digits cs of
               None \<Rightarrow> None
             | Some n \<Rightarrow> if n \<le> 2 ^ 63 then Some (- int n) else None)
          else
            (case parse_digits (if c = CHR ''+'' then cs else s) of
               None \<Rightarrow> None
             | Some n \<Rightarrow> if n < 2 ^ 63 then Some (int n) else None))"

definition digit_char :: "nat \<Rightarrow> char" where
  "digit_char d = char_of (48 + d)"

fun show_nat :: "nat \<Rightarrow> string" where
  "show_nat n = (if n < 10 then [digit_char n] else show_nat (n div 10) @ [digit_char (n mod 10)])"

declare show_nat.simps [simp del]

definition show_int :: "int \<Rightarrow> string" where
  "show_int i = (if i < 0 then CHR ''-'' # show_nat (nat (- i)) else show_nat (nat i))"

section \<open>Maps with an iteration order\<close>

text \<open>
  A Rust \<open>HashMap\<close> is a finite map; its iteration order is unspecified. An operation that
  iterates takes the order as an argument: any enumeration of the keys.
\<close>

definition key_order :: "'k list \<Rightarrow> ('k \<rightharpoonup> 'v) \<Rightarrow> bool" where
  "key_order ks m \<longleftrightarrow> distinct ks \<and> set ks = dom m"

section \<open>Stable sorting by a comparison\<close>

text \<open>\<open>slice::sort_by\<close> for a comparison given as its "not greater" relation.\<close>

fun insert_by :: "('a \<Rightarrow> 'a \<Rightarrow> bool) \<Rightarrow> 'a \<Rightarrow> 'a list \<Rightarrow> 'a list" where
  "insert_by le x [] = [x]"
| "insert_by le x (y # ys) = (if le x y then x # y # ys else y # insert_by le x ys)"

definition sort_by :: "('a \<Rightarrow> 'a \<Rightarrow> bool) \<Rightarrow> 'a list \<Rightarrow> 'a list" where
  "sort_by le xs = foldr (insert_by le) xs []"

text \<open>The derived order of \<open>Option\<close>: \<open>None\<close> first.\<close>

fun option_le :: "'a::linorder option \<Rightarrow> 'a option \<Rightarrow> bool" where
  "option_le None y = True"
| "option_le (Some x) None = False"
| "option_le (Some x) (Some y) = (x \<le> y)"

section \<open>Lemmas: results\<close>

lemma rbind_eq_Inr [result_simps]:
  "rbind r f = Inr y \<longleftrightarrow> (\<exists>x. r = Inr x \<and> f x = Inr y)"
  by (cases r) auto

lemma rbind_eq_Inl [result_simps]:
  "rbind r f = Inl e \<longleftrightarrow> r = Inl e \<or> (\<exists>x. r = Inr x \<and> f x = Inl e)"
  by (cases r) auto

lemma map_err_eq_Inr [result_simps]: "map_err g r = Inr x \<longleftrightarrow> r = Inr x"
  by (cases r) auto

lemma map_err_eq_Inl [result_simps]: "map_err g r = Inl f \<longleftrightarrow> (\<exists>e. r = Inl e \<and> f = g e)"
  by (cases r) auto

lemma ok_or_eq_Inr [result_simps]: "ok_or v e = Inr x \<longleftrightarrow> v = Some x"
  by (cases v) auto

lemma ok_or_eq_Inl [result_simps]: "ok_or v e = Inl f \<longleftrightarrow> v = None \<and> f = e"
  by (cases v) auto

section \<open>Lemmas: time\<close>

lemma nanos_pos [simp]: "0 < nanos_per_sec" "0 < nanos_per_milli"
  by (simp_all add: nanos_per_sec_def nanos_per_milli_def)

lemma duration_saturating_mul_eq:
  "duration_saturating_mul d k = min (d * unat k) duration_max"
  by (simp add: duration_saturating_mul_def duration_checked_mul_def min_def)

lemma duration_saturating_mul_mono:
  "unat j \<le> unat k \<Longrightarrow> duration_saturating_mul d j \<le> duration_saturating_mul d k"
  unfolding duration_saturating_mul_eq by (intro min.mono mult_le_mono2 order.refl)

lemma duration_checked_mul_Some [time_simps]:
  "duration_checked_mul d k = Some r \<longleftrightarrow> r = d * unat k \<and> d * unat k \<le> duration_max"
  by (auto simp: duration_checked_mul_def)

lemma systime_checked_add_Some [time_simps]:
  "systime_checked_add t d = Some u \<longleftrightarrow> u = t + int d \<and> t + int d \<le> systime_max"
  by (auto simp: systime_checked_add_def)

lemma systime_checked_add_None [time_simps]:
  "systime_checked_add t d = None \<longleftrightarrow> systime_max < t + int d"
  by (auto simp: systime_checked_add_def)

lemma systime_checked_sub_Some [time_simps]:
  "systime_checked_sub t d = Some u \<longleftrightarrow> u = t - int d \<and> systime_min \<le> t - int d"
  by (auto simp: systime_checked_sub_def)

lemma duration_since_Inr [time_simps]:
  "duration_since a b = Inr d \<longleftrightarrow> b \<le> a \<and> d = nat (a - b)"
  by (auto simp: duration_since_def)

lemma duration_since_Inl [time_simps]:
  "duration_since a b = Inl d \<longleftrightarrow> a < b \<and> d = nat (b - a)"
  by (auto simp: duration_since_def)

section \<open>Lemmas: machine integers\<close>

lemma u32_one_checked_shl_Some:
  "u32_one_checked_shl n = Some f \<longleftrightarrow> unat n < 32 \<and> f = push_bit (unat n) 1"
  by (auto simp: u32_one_checked_shl_def)

lemma unat_u32_bound [simp]: "unat (n :: u32) < 2 ^ 32"
  using unsigned_less [of n, where 'a = nat] by simp

lemma unat_u32_max [simp]: "unat (- 1 :: u32) = 2 ^ 32 - 1"
  by (simp add: unsigned_minus_1_eq_mask mask_eq_exp_minus_1)

lemma unat_push_bit_one: "n < 32 \<Longrightarrow> unat (push_bit n 1 :: u32) = 2 ^ n"
proof -
  assume "n < 32"
  then have "(2::nat) ^ n < 2 ^ 32"
    by (rule power_strict_increasing) simp
  with \<open>n < 32\<close> show ?thesis
    by (subst unsigned_push_bit_eq) (simp add: push_bit_eq_mult take_bit_nat_eq_self)
qed

lemma u32_inc_no_wrap: "(a :: u32) < b \<Longrightarrow> unat (a + 1) = unat a + 1"
  by unat_arith

lemma usize_to_u32_saturating_eq:
  "unat (usize_to_u32_saturating n) = min (unat n) (2 ^ 32 - 1)"
  by (auto simp: usize_to_u32_saturating_def unsigned_ucast_eq take_bit_nat_eq_self)

section \<open>Lemmas: bytes\<close>

lemma length_be_bytes [simp]: "length (be_bytes n x) = n"
  by (induction n arbitrary: x) simp_all

lemma be_bytes_inj:
  "be_bytes n x = be_bytes n y \<Longrightarrow> x < 256 ^ n \<Longrightarrow> y < 256 ^ n \<Longrightarrow> x = y"
proof (induction n arbitrary: x y)
  case 0
  then show ?case by simp
next
  case (Suc n)
  from Suc.prems(1) have high: "be_bytes n (x div 256) = be_bytes n (y div 256)"
    and low: "(word_of_nat (x mod 256) :: byte) = word_of_nat (y mod 256)"
    by simp_all
  have "x div 256 < 256 ^ n" "y div 256 < 256 ^ n"
    using Suc.prems(2,3) by (simp_all add: less_mult_imp_div_less mult.commute)
  with high have "x div 256 = y div 256"
    by (rule Suc.IH)
  moreover from low have "unat (word_of_nat (x mod 256) :: byte) = unat (word_of_nat (y mod 256) :: byte)"
    by simp
  then have "x mod 256 = y mod 256"
    by (simp add: unat_of_nat)
  ultimately show ?case
    by (metis div_mult_mod_eq)
qed

lemma be_bytes_append_inj:
  assumes "be_bytes n x @ xs = be_bytes n y @ ys" and "x < 256 ^ n" and "y < 256 ^ n"
  shows "x = y \<and> xs = ys"
  using assms be_bytes_inj by (metis append_eq_append_conv length_be_bytes)

lemma length_str_bytes [simp]: "length (str_bytes s) = length s"
  by (simp add: str_bytes_def)

lemma str_bytes_inj [simp]: "str_bytes s = str_bytes t \<longleftrightarrow> s = t"
proof -
  have "inj (\<lambda>c. word_of_nat (of_char c) :: byte)"
  proof (rule injI)
    fix c d :: char
    assume "(word_of_nat (of_char c) :: byte) = word_of_nat (of_char d)"
    then have "unat (word_of_nat (of_char c) :: byte) = unat (word_of_nat (of_char d) :: byte)"
      by simp
    then have "(of_char c :: nat) = of_char d"
      by (simp add: unat_of_nat)
    then show "c = d" by simp
  qed
  then show ?thesis
    by (simp add: str_bytes_def inj_map_eq_map)
qed

lemma length_uuid_bytes [simp]: "length (uuid_bytes u) = 16"
  by (simp add: uuid_bytes_def)

lemma uuid_bytes_inj [simp]: "uuid_bytes u = uuid_bytes v \<longleftrightarrow> u = v"
proof
  assume eq: "uuid_bytes u = uuid_bytes v"
  have "unat u < 256 ^ 16" "unat v < 256 ^ 16"
    using unsigned_less [of u, where 'a = nat] unsigned_less [of v, where 'a = nat] by simp_all
  with eq have "unat u = unat v"
    unfolding uuid_bytes_def by (blast dest: be_bytes_inj)
  then show "u = v" by (simp add: word_unat_eq_iff)
qed simp

section \<open>Lemmas: decimal integers\<close>

lemma digit_value_digit_char [simp]: "d < 10 \<Longrightarrow> digit_value (digit_char d) = Some d"
  by (simp add: digit_value_def digit_char_def)

lemma digits_value_append:
  "digits_value acc (xs @ ys) =
     (case digits_value acc xs of None \<Rightarrow> None | Some a \<Rightarrow> digits_value a ys)"
  by (induction acc xs rule: digits_value.induct) (auto split: option.splits)

lemma show_nat_nonempty [simp]: "show_nat n \<noteq> []"
  by (subst show_nat.simps) simp

lemma digits_value_show_nat: "digits_value 0 (show_nat n) = Some n"
proof (induction n rule: show_nat.induct)
  case (1 n)
  show ?case
  proof (cases "n < 10")
    case True
    then show ?thesis by (subst show_nat.simps) simp
  next
    case False
    with "1.IH" show ?thesis
      by (subst show_nat.simps) (simp add: digits_value_append)
  qed
qed

lemma parse_digits_show_nat [simp]: "parse_digits (show_nat n) = Some n"
  by (simp add: parse_digits_def digits_value_show_nat)

lemma digit_char_sign: "d < 10 \<Longrightarrow> digit_char d \<noteq> CHR ''-'' \<and> digit_char d \<noteq> CHR ''+''"
proof
  assume "d < 10"
  show "digit_char d \<noteq> CHR ''-''"
  proof
    assume "digit_char d = CHR ''-''"
    then have "(of_char (digit_char d) :: nat) = of_char (CHR ''-'')" by simp
    with \<open>d < 10\<close> show False by (simp add: digit_char_def)
  qed
  show "digit_char d \<noteq> CHR ''+''"
  proof
    assume "digit_char d = CHR ''+''"
    then have "(of_char (digit_char d) :: nat) = of_char (CHR ''+'')" by simp
    with \<open>d < 10\<close> show False by (simp add: digit_char_def)
  qed
qed

lemma show_nat_head:
  "\<exists>c cs. show_nat n = c # cs \<and> c \<noteq> CHR ''-'' \<and> c \<noteq> CHR ''+''"
proof (induction n rule: show_nat.induct)
  case (1 n)
  show ?case
  proof (cases "n < 10")
    case True
    then show ?thesis by (subst show_nat.simps) (auto simp: digit_char_sign)
  next
    case False
    with "1.IH" show ?thesis by (subst show_nat.simps) auto
  qed
qed

lemma parse_u32_show_nat: "n < 2 ^ 32 \<Longrightarrow> parse_u32 (show_nat n) = Some (word_of_nat n)"
proof -
  assume n: "n < 2 ^ 32"
  obtain c cs where s: "show_nat n = c # cs" and c: "c \<noteq> CHR ''+''"
    using show_nat_head by blast
  from c show ?thesis
    using n parse_digits_show_nat [of n] by (simp add: parse_u32_def s)
qed

lemma parse_i64_show_int:
  assumes "- (2 ^ 63) \<le> i" and "i < 2 ^ 63"
  shows "parse_i64 (show_int i) = Some i"
proof (cases "i < 0")
  case True
  with assms have "nat (- i) \<le> 2 ^ 63" by (simp add: nat_le_iff)
  with True show ?thesis by (simp add: parse_i64_def show_int_def)
next
  case False
  obtain c cs where s: "show_nat (nat i) = c # cs"
    and c: "c \<noteq> CHR ''-''" "c \<noteq> CHR ''+''"
    using show_nat_head by blast
  from False assms have "nat i < 2 ^ 63" by (simp add: nat_less_iff)
  with False s c show ?thesis
    using parse_digits_show_nat [of "nat i"] by (simp add: parse_i64_def show_int_def)
qed

lemma parse_i64_bounds: "parse_i64 s = Some i \<Longrightarrow> - (2 ^ 63) \<le> i \<and> i < 2 ^ 63"
  by (auto simp: parse_i64_def split: list.splits if_splits option.splits)

section \<open>Lemmas: stable sorting\<close>

lemma mset_insert_by [simp]: "mset (insert_by le x xs) = add_mset x (mset xs)"
  by (induction xs) simp_all

lemma mset_sort_by [simp]: "mset (sort_by le xs) = mset xs"
  by (induction xs) (simp_all add: sort_by_def)

lemma set_insert_by [simp]: "set (insert_by le x xs) = insert x (set xs)"
  by (induction xs) auto

lemma set_sort_by [simp]: "set (sort_by le xs) = set xs"
  by (induction xs) (simp_all add: sort_by_def)

lemma length_sort_by [simp]: "length (sort_by le xs) = length xs"
  by (metis mset_sort_by size_mset)

definition total_preorder :: "('a \<Rightarrow> 'a \<Rightarrow> bool) \<Rightarrow> bool" where
  "total_preorder le \<longleftrightarrow> (\<forall>x y. le x y \<or> le y x) \<and> (\<forall>x y z. le x y \<longrightarrow> le y z \<longrightarrow> le x z)"

lemma sorted_insert_by:
  "total_preorder le \<Longrightarrow> sorted_wrt le xs \<Longrightarrow> sorted_wrt le (insert_by le x xs)"
  by (induction xs) (auto simp: total_preorder_def)

lemma sorted_sort_by: "total_preorder le \<Longrightarrow> sorted_wrt le (sort_by le xs)"
  by (induction xs) (simp_all add: sort_by_def sorted_insert_by)

lemma sorted_wrt_mset_unique:
  assumes "sorted_wrt le xs" and "sorted_wrt le ys" and "mset xs = mset ys"
    and anti: "\<And>a b. le a b \<Longrightarrow> le b a \<Longrightarrow> a = b"
  shows "xs = ys"
  using assms(1-3)
proof (induction xs arbitrary: ys)
  case (Cons x xs)
  from Cons.prems(3) obtain y ys' where ys: "ys = y # ys'" by (cases ys) auto
  have mem: "x \<in> set (y # ys')" "y \<in> set (x # xs)"
    using mset_eq_setD [OF Cons.prems(3)] unfolding ys by auto
  have "x = y"
  proof (rule ccontr)
    assume "x \<noteq> y"
    with mem have "x \<in> set ys'" "y \<in> set xs" by auto
    with Cons.prems ys have "le y x" "le x y" by auto
    with anti \<open>x \<noteq> y\<close> show False by blast
  qed
  with Cons ys show ?case by simp
qed simp

lemma option_le_total: "option_le x y \<or> option_le y x"
  by (cases x; cases y) auto

lemma option_le_trans: "option_le x y \<Longrightarrow> option_le y z \<Longrightarrow> option_le x z"
  by (cases x; cases y; cases z) auto

section \<open>Lemmas: maps with an iteration order\<close>

lemma key_order_mem: "key_order ks m \<Longrightarrow> k \<in> set ks \<longleftrightarrow> m k \<noteq> None"
  by (auto simp: key_order_def)

lemma key_order_distinct: "key_order ks m \<Longrightarrow> distinct ks"
  by (simp add: key_order_def)

lemma key_order_cong: "dom m = dom m' \<Longrightarrow> key_order ks m \<longleftrightarrow> key_order ks m'"
  by (simp add: key_order_def)

end
