(* ===== verification/Sched_Core.thy ===== *)
theory Sched_Core
  imports Hex_Prelude
begin

text \<open>
  The scheduler's data model: targets, triggers and the cron adapter, scheduled messages,
  occurrence identities, leases, snapshots and errors
  (\<open>crates/hexeract-scheduler/src/{target,trigger,schedule,occurrence,lease,snapshot,error}.rs\<close>).

  The cron engine (crate \<open>isochron\<close>), the date type of crate \<open>time\<close>, the UUIDv5
  derivation and the JSON encoder are third-party code: they are the record
  \<open>cron_engine\<close> and the arguments \<open>uuid_v5\<close> and \<open>encoded\<close> of the definitions that use
  them. What the code relies on is stated as \<open>cron_engine_ok\<close>.
\<close>

section \<open>Errors\<close>

datatype schedule_status = Pending | Paused | Delivered | Cancelled | DeadLettered

text \<open>
  The boxed source of \<open>SchedulerError::Dispatch\<close>: the crate's own three error types, or
  the error of the sink's collaborator (its message).
\<close>

datatype dispatch_source =
    DispatchTimedOut duration
  | UnregisteredEventType string
  | NonBusTarget
  | SinkFailure string

text \<open>
  The reason of \<open>SchedulerError::InvalidConfiguration\<close>, one constructor per message of
  \<open>SchedulerBuilder::build\<close>.
\<close>

datatype configuration_reason =
    BatchSizeZero
  | PollIntervalZero
  | LeaseZero
  | DispatchTimeoutZero
  | RetryBaseDelayZero
  | RetryMaxBelowBase
  | LeaseTooShort duration duration
  | LeaseProductOverflow

datatype scheduler_error =
    Serialization string
  | InvalidTrigger string
  | InvalidConfiguration configuration_reason
  | Database string
  | ScheduleNotFound uuid
  | NotReplayable uuid schedule_status
  | Dispatch dispatch_source
  | Internal string
  | SchedPanic \<comment> \<open>not a value of the source: the call panics\<close>

fun status_debug :: "schedule_status \<Rightarrow> string" where
  "status_debug Pending = ''Pending''"
| "status_debug Paused = ''Paused''"
| "status_debug Delivered = ''Delivered''"
| "status_debug Cancelled = ''Cancelled''"
| "status_debug DeadLettered = ''DeadLettered''"

text \<open>
  The \<open>Display\<close> implementation the \<open>#[error(...)]\<close> attributes describe. The rendering of
  a UUID and of a configuration reason are arguments.
\<close>

fun scheduler_error_display ::
  "(uuid \<Rightarrow> string) \<Rightarrow> (configuration_reason \<Rightarrow> string) \<Rightarrow> scheduler_error \<Rightarrow> string"
where
  "scheduler_error_display su sc (Serialization m) =
     ''failed to (de)serialize event payload as JSON''"
| "scheduler_error_display su sc (InvalidTrigger r) = ''invalid trigger: '' @ r"
| "scheduler_error_display su sc (InvalidConfiguration r) =
     ''invalid scheduler configuration: '' @ sc r"
| "scheduler_error_display su sc (Database m) = ''schedule store error''"
| "scheduler_error_display su sc (ScheduleNotFound i) = ''no schedule found for id '' @ su i"
| "scheduler_error_display su sc (NotReplayable i st) =
     ''schedule '' @ su i @ '' is not replayable in status '' @ status_debug st"
| "scheduler_error_display su sc (Dispatch src) = ''failed to dispatch occurrence to sink''"
| "scheduler_error_display su sc (Internal m) = ''internal scheduler error: '' @ m"
| "scheduler_error_display su sc SchedPanic = ''''"

section \<open>Targets\<close>

datatype target = Mediator | Outbox | Bus string

section \<open>Trimming\<close>

text \<open>The UTF-8 encodings of the characters with the Unicode property \<open>White_Space\<close>.\<close>

definition white_space :: "string list" where
  "white_space =
     map (\<lambda>n. [char_of (n :: nat)]) [9, 10, 11, 12, 13, 32]
     @ map (map char_of)
         ([[194, 133], [194, 160], [225, 154, 128 :: nat]]
          @ map (\<lambda>b. [226, 128, b]) [128 ..< 139]
          @ [[226, 128, 168], [226, 128, 169], [226, 128, 175], [226, 129, 159], [227, 128, 128]])"

definition leading_white_space :: "string \<Rightarrow> nat option" where
  "leading_white_space s =
     (case filter (\<lambda>w. take (length w) s = w) white_space of
        [] \<Rightarrow> None
      | w # _ \<Rightarrow> Some (length w))"

definition trailing_white_space :: "string \<Rightarrow> nat option" where
  "trailing_white_space s =
     (case filter (\<lambda>w. length w \<le> length s \<and> drop (length s - length w) s = w) white_space of
        [] \<Rightarrow> None
      | w # _ \<Rightarrow> Some (length w))"

function trim_start :: "string \<Rightarrow> string" where
  "trim_start s =
     (case leading_white_space s of
        None \<Rightarrow> s
      | Some k \<Rightarrow> if 0 < k \<and> k \<le> length s then trim_start (drop k s) else s)"
  by pat_completeness auto
termination
  by (relation "measure length") auto

function trim_end :: "string \<Rightarrow> string" where
  "trim_end s =
     (case trailing_white_space s of
        None \<Rightarrow> s
      | Some k \<Rightarrow> if 0 < k \<and> k \<le> length s then trim_end (take (length s - k) s) else s)"
  by pat_completeness auto
termination
  by (relation "measure length") auto

declare trim_start.simps [simp del] trim_end.simps [simp del]

definition str_trim :: "string \<Rightarrow> string" where
  "str_trim s = trim_end (trim_start s)"

section \<open>Triggers\<close>

datatype cron_expression = CronExpression string

datatype trigger = Delay systime | Cron cron_expression

text \<open>
  Third-party operations: \<open>cron_parse\<close> is \<open>CronSchedule::parse\<close> (an error message, or
  success), \<open>cron_next\<close> is \<open>CronSchedule::next_after\<close> on instants given in nanoseconds
  since the epoch, \<open>odt_representable\<close> says which instants \<open>OffsetDateTime\<close> can hold.
\<close>

record cron_engine =
  cron_parse :: "string \<Rightarrow> string option"
  cron_next :: "string \<Rightarrow> int \<Rightarrow> int option"
  odt_representable :: "int \<Rightarrow> bool"

fun cron_as_str :: "cron_expression \<Rightarrow> string" where
  "cron_as_str (CronExpression s) = s"

definition cron_expression_parse ::
  "cron_engine \<Rightarrow> string \<Rightarrow> (scheduler_error, cron_expression) result"
where
  "cron_expression_parse eng expression =
     (let trimmed = str_trim expression in
      case cron_parse eng trimmed of
        Some reason \<Rightarrow> Inl (InvalidTrigger reason)
      | None \<Rightarrow> Inr (CronExpression trimmed))"

text \<open>Conversions between \<open>SystemTime\<close> and \<open>OffsetDateTime\<close>; the latter is its offset in nanoseconds.\<close>

definition to_offset_date_time :: "cron_engine \<Rightarrow> systime \<Rightarrow> (scheduler_error, int) result" where
  "to_offset_date_time eng instant =
     rbind
       (case duration_since instant unix_epoch of
          Inr elapsed \<Rightarrow>
            if elapsed < 2 ^ 127 then Inr (int elapsed)
            else Inl (Internal ''instant too far in the future to represent'')
        | Inl before \<Rightarrow>
            if before < 2 ^ 127 then Inr (- int before)
            else Inl (Internal ''instant too far in the past to represent''))
       (\<lambda>nanos. if odt_representable eng nanos then Inr nanos
                else Inl (Internal ''instant outside the supported date range''))"

definition to_system_time :: "int \<Rightarrow> (scheduler_error, systime) result" where
  "to_system_time nanos =
     (let seconds = nanos div int nanos_per_sec;
          subsec = nanos mod int nanos_per_sec
      in if \<not> (0 \<le> subsec \<and> subsec < 2 ^ 32)
         then Inl (Internal ''sub-second component out of range'')
         else if 0 \<le> seconds then
           (if seconds < 2 ^ 64
            then ok_or (systime_checked_add unix_epoch (from_secs (nat seconds) + nat subsec)) SchedPanic
            else Inl (Internal ''occurrence too far in the future to represent''))
         else
           (if - seconds < 2 ^ 64
            then (case systime_checked_sub unix_epoch (from_secs (nat (- seconds))) of
                    None \<Rightarrow> Inl SchedPanic
                  | Some t \<Rightarrow> ok_or (systime_checked_add t (nat subsec)) SchedPanic)
            else Inl (Internal ''occurrence too far in the past to represent'')))"

definition next_occurrence ::
  "cron_engine \<Rightarrow> cron_expression \<Rightarrow> systime \<Rightarrow> (scheduler_error, systime option) result"
where
  "next_occurrence eng expr after =
     (case cron_parse eng (cron_as_str expr) of
        Some reason \<Rightarrow> Inl (Internal (''validated cron expression failed to re-parse: '' @ reason))
      | None \<Rightarrow>
          rbind (to_offset_date_time eng after) (\<lambda>anchor.
            case cron_next eng (cron_as_str expr) anchor of
              Some occurrence \<Rightarrow> rbind (to_system_time occurrence) (\<lambda>t. Inr (Some t))
            | None \<Rightarrow> Inr None))"

definition next_due ::
  "cron_engine \<Rightarrow> cron_expression \<Rightarrow> systime \<Rightarrow> systime \<Rightarrow> (scheduler_error, systime option) result"
where
  "next_due eng expr now previous_due = next_occurrence eng expr (max now previous_due)"

definition trigger_delay :: "systime \<Rightarrow> trigger" where
  "trigger_delay at = Delay at"

definition trigger_cron :: "cron_engine \<Rightarrow> string \<Rightarrow> (scheduler_error, trigger) result" where
  "trigger_cron eng expression =
     rbind (cron_expression_parse eng expression) (\<lambda>e. Inr (Cron e))"

fun is_recurring :: "trigger \<Rightarrow> bool" where
  "is_recurring (Cron _) = True"
| "is_recurring (Delay _) = False"

fun trigger_kind :: "trigger \<Rightarrow> string" where
  "trigger_kind (Delay _) = ''delay''"
| "trigger_kind (Cron _) = ''cron''"

section \<open>Scheduled messages and occurrences\<close>

record scheduled_message =
  schedule_id :: uuid
  event_type :: string
  payload :: "byte list"
  msg_target :: target
  msg_trigger :: trigger
  scheduled_for :: systime

definition from_parts ::
  "uuid \<Rightarrow> target \<Rightarrow> trigger \<Rightarrow> systime \<Rightarrow> string \<Rightarrow> (string, byte list) result \<Rightarrow>
   (scheduler_error, scheduled_message) result"
where
  "from_parts fresh_id tgt trg at ev_type encoded =
     rbind (map_err Serialization encoded) (\<lambda>bytes.
       Inr \<lparr>schedule_id = fresh_id, event_type = ev_type, payload = bytes,
            msg_target = tgt, msg_trigger = trg, scheduled_for = at\<rparr>)"

definition message_delay ::
  "uuid \<Rightarrow> target \<Rightarrow> systime \<Rightarrow> string \<Rightarrow> (string, byte list) result \<Rightarrow>
   (scheduler_error, scheduled_message) result"
where
  "message_delay fresh_id tgt at ev_type encoded =
     from_parts fresh_id tgt (trigger_delay at) at ev_type encoded"

definition message_cron ::
  "cron_engine \<Rightarrow> uuid \<Rightarrow> target \<Rightarrow> string \<Rightarrow> systime \<Rightarrow> string \<Rightarrow> (string, byte list) result \<Rightarrow>
   (scheduler_error, scheduled_message) result"
where
  "message_cron eng fresh_id tgt expression first_occurrence ev_type encoded =
     rbind (trigger_cron eng expression) (\<lambda>trg.
       from_parts fresh_id tgt trg first_occurrence ev_type encoded)"

definition occurrence_namespace :: uuid where
  "occurrence_namespace = 0x6b9d1c2e7a444f8e9c102d3b4c5d6e7f"

text \<open>The byte string an occurrence identity is derived from.\<close>

definition occurrence_name :: "uuid \<Rightarrow> systime \<Rightarrow> byte list" where
  "occurrence_name sid at =
     (let (sign, nanos) =
        (case duration_since at unix_epoch of
           Inr elapsed \<Rightarrow> (1, elapsed)
         | Inl before \<Rightarrow> (0, before))
      in uuid_bytes sid @ [sign] @ be_bytes 16 nanos)"

definition occurrence_id_derive :: "(uuid \<Rightarrow> byte list \<Rightarrow> uuid) \<Rightarrow> uuid \<Rightarrow> systime \<Rightarrow> uuid" where
  "occurrence_id_derive uuid_v5 sid at = uuid_v5 occurrence_namespace (occurrence_name sid at)"

definition occurrence_id :: "(uuid \<Rightarrow> byte list \<Rightarrow> uuid) \<Rightarrow> scheduled_message \<Rightarrow> uuid" where
  "occurrence_id uuid_v5 m = occurrence_id_derive uuid_v5 (schedule_id m) (scheduled_for m)"

record leased_occurrence =
  lo_message :: scheduled_message
  lo_attempts :: u32
  lo_max_attempts :: u32
  lo_leased_until :: systime

definition is_exhausted :: "leased_occurrence \<Rightarrow> bool" where
  "is_exhausted oc \<longleftrightarrow> lo_attempts oc \<ge> lo_max_attempts oc"

record schedule_snapshot =
  snap_schedule_id :: uuid
  snap_status :: schedule_status
  snap_scheduled_for :: systime
  snap_attempts :: u32
  snap_max_attempts :: u32
  snap_trigger :: trigger
  snap_last_error :: "string option"

section \<open>What the code relies on of the cron engine\<close>

text \<open>
  The documented behaviour of the third-party calls: \<open>next_after\<close> is strictly after its
  anchor and yields a representable date, and every representable date (years within
  \<open>\<plusminus>9999\<close>) is within the range of \<open>SystemTime\<close>.
\<close>

definition cron_engine_ok :: "cron_engine \<Rightarrow> bool" where
  "cron_engine_ok eng \<longleftrightarrow>
     (\<forall>e a b. cron_next eng e a = Some b \<longrightarrow> a < b \<and> odt_representable eng b) \<and>
     (\<forall>n. odt_representable eng n \<longrightarrow> systime_min \<le> n \<and> n \<le> systime_max)"

definition systime_valid :: "systime \<Rightarrow> bool" where
  "systime_valid t \<longleftrightarrow> systime_min \<le> t \<and> t \<le> systime_max"

section \<open>Lemmas: triggers\<close>

lemma systime_valid_bound: "systime_valid t \<Longrightarrow> \<bar>t\<bar> < 2 ^ 127"
  by (auto simp: systime_valid_def systime_min_def systime_max_def nanos_per_sec_def)

lemma to_system_time_exact:
  assumes "systime_min \<le> n" and "n \<le> systime_max"
  shows "to_system_time n = Inr n"
proof -
  define b where "b = int nanos_per_sec"
  have b: "0 < b" "b < 2 ^ 32" by (simp_all add: b_def nanos_per_sec_def)
  define q r where "q = n div b" and "r = n mod b"
  have n: "n = q * b + r" by (simp add: q_def r_def)
  have r: "0 \<le> r" "r < b" using b by (simp_all add: r_def)
  have q_hi: "q < 2 ^ 64"
    using assms(2) b unfolding q_def systime_max_def b_def nanos_per_sec_def by simp
  have q_lo: "- (2 ^ 63) \<le> q"
    using assms(1) unfolding q_def systime_min_def b_def nanos_per_sec_def by simp
  show ?thesis
  proof (cases "0 \<le> q")
    case True
    then have "int (from_secs (nat q) + nat r) = n"
      using r n by (simp add: from_secs_def b_def)
    then show ?thesis
      using True q_hi r b assms(2)
      by (simp add: to_system_time_def systime_checked_add_def unix_epoch_def Let_def
            flip: b_def q_def r_def)
  next
    case False
    then have "int (from_secs (nat (- q))) = - q * b"
      by (simp add: from_secs_def b_def)
    moreover have "systime_min \<le> q * b"
      using q_lo b mult_right_mono [of "- (2 ^ 63)" q b] unfolding systime_min_def b_def by simp
    ultimately show ?thesis
      using False q_lo r b n assms(2)
      by (simp add: to_system_time_def systime_checked_add_def systime_checked_sub_def
            unix_epoch_def Let_def flip: b_def q_def r_def)
  qed
qed

lemma to_offset_date_time_eq:
  assumes "systime_valid t"
  shows "to_offset_date_time eng t =
     (if odt_representable eng t then Inr t
      else Inl (Internal ''instant outside the supported date range''))"
proof -
  have "nat t < 2 ^ 127" "nat (- t) < 2 ^ 127"
    using systime_valid_bound [OF assms] by (auto simp: nat_less_iff)
  then show ?thesis
    by (auto simp: to_offset_date_time_def duration_since_def unix_epoch_def)
qed

lemma next_occurrence_eq:
  assumes "cron_engine_ok eng" and "cron_parse eng (cron_as_str e) = None"
    and "systime_valid after" and "odt_representable eng after"
  shows "next_occurrence eng e after = Inr (cron_next eng (cron_as_str e) after)"
proof (cases "cron_next eng (cron_as_str e) after")
  case None
  with assms show ?thesis
    by (simp add: next_occurrence_def to_offset_date_time_eq)
next
  case (Some t)
  with assms(1) have "systime_min \<le> t" "t \<le> systime_max"
    by (auto simp: cron_engine_ok_def)
  with Some assms show ?thesis
    by (simp add: next_occurrence_def to_offset_date_time_eq to_system_time_exact)
qed

lemma next_occurrence_later:
  assumes "cron_engine_ok eng" and "systime_valid after"
    and "next_occurrence eng e after = Inr (Some t)"
  shows "after < t"
proof -
  from assms(2,3) have par: "cron_parse eng (cron_as_str e) = None"
    and rep: "odt_representable eng after"
    by (auto simp: next_occurrence_def to_offset_date_time_eq result_simps split: option.splits if_splits)
  from next_occurrence_eq [OF assms(1) par assms(2) rep] assms(3)
  have "cron_next eng (cron_as_str e) after = Some t" by simp
  with assms(1) show ?thesis by (auto simp: cron_engine_ok_def)
qed

lemma cron_expression_parse_reparses:
  "cron_expression_parse eng s = Inr e \<Longrightarrow> cron_parse eng (cron_as_str e) = None"
  by (auto simp: cron_expression_parse_def Let_def split: option.splits)

lemma next_due_later:
  assumes "cron_engine_ok eng" and "systime_valid now" and "systime_valid prev"
    and "next_due eng e now prev = Inr (Some t)"
  shows "now < t \<and> prev < t"
proof -
  have "systime_valid (max now prev)"
    using assms(2,3) by (auto simp: systime_valid_def)
  with assms(1,4) have "max now prev < t"
    unfolding next_due_def by (blast intro: next_occurrence_later)
  then show ?thesis by simp
qed

section \<open>Lemmas: occurrences\<close>

lemma occurrence_name_inj:
  assumes eq: "occurrence_name i t = occurrence_name j u"
    and t: "systime_valid t" and u: "systime_valid u"
  shows "i = j \<and> t = u"
proof -
  define enc where "enc t = (if 0 \<le> t then (1 :: byte) # be_bytes 16 (nat t)
                             else 0 # be_bytes 16 (nat (- t)))" for t :: systime
  have name: "occurrence_name k v = uuid_bytes k @ enc v" for k v
    by (simp add: occurrence_name_def enc_def duration_since_def unix_epoch_def)
  from eq have "uuid_bytes i = uuid_bytes j" and enc: "enc t = enc u"
    by (simp_all add: name)
  have "(2::nat) ^ 127 < 256 ^ 16" by simp
  then have bounds: "nat t < 256 ^ 16" "nat (- t) < 256 ^ 16" "nat u < 256 ^ 16" "nat (- u) < 256 ^ 16"
    using systime_valid_bound [OF t] systime_valid_bound [OF u] by (auto simp: nat_less_iff)
  have "t = u"
  proof (cases "0 \<le> t")
    case True
    with enc have "0 \<le> u" "be_bytes 16 (nat t) = be_bytes 16 (nat u)"
      by (auto simp: enc_def split: if_splits)
    with be_bytes_inj bounds True show ?thesis by (metis eq_nat_nat_iff)
  next
    case False
    with enc have "\<not> 0 \<le> u" "be_bytes 16 (nat (- t)) = be_bytes 16 (nat (- u))"
      by (auto simp: enc_def split: if_splits)
    with False show ?thesis
      using be_bytes_inj [OF _ bounds(2,4)] by simp
  qed
  with \<open>uuid_bytes i = uuid_bytes j\<close> show ?thesis by simp
qed

section \<open>Properties\<close>

text \<open>
  Cron schedules move forward. The next due instant of a cron schedule is strictly after
  both the current time and the occurrence just fired, so a late or clock-skewed worker
  neither repeats an occurrence nor catches up missed ones; it is exactly the next instant
  the cron engine names after the later of the two.
\<close>

theorem next_due_advances:
  assumes "cron_engine_ok eng" and "systime_valid now" and "systime_valid previous_due"
    and "next_due eng expr now previous_due = Inr (Some t)"
  shows "now < t \<and> previous_due < t
    \<and> cron_next eng (cron_as_str expr) (max now previous_due) = Some t"
proof -
  have valid: "systime_valid (max now previous_due)"
    using assms(2,3) by (auto simp: systime_valid_def)
  have "cron_parse eng (cron_as_str expr) = None" "odt_representable eng (max now previous_due)"
    using assms(4) valid
    by (auto simp: next_due_def next_occurrence_def to_offset_date_time_eq result_simps
        split: option.splits if_splits)
  then show ?thesis
    using next_due_later [OF assms] next_occurrence_eq [OF assms(1) _ valid] assms(4)
    by (simp add: next_due_def)
qed

theorem next_due_advances_witness:
  "let eng = \<lparr>cron_parse = \<lambda>_. None, cron_next = \<lambda>_ a. if 0 \<le> a \<and> a < 100 then Some (a + 7) else None,
              odt_representable = \<lambda>n. 0 \<le> n \<and> n \<le> 1000\<rparr> in
   cron_engine_ok eng \<and> next_due eng (CronExpression ''* * * * *'') 20 30 = Inr (Some 37)
   \<and> (30 :: int) < 37"
proof -
  let ?eng = "\<lparr>cron_parse = \<lambda>_. None, cron_next = \<lambda>_ a. if 0 \<le> a \<and> a < 100 then Some (a + 7) else None,
              odt_representable = \<lambda>n. 0 \<le> n \<and> n \<le> 1000\<rparr>"
  have ok: "cron_engine_ok ?eng"
    by (auto simp: cron_engine_ok_def systime_min_def systime_max_def nanos_per_sec_def)
  have valid: "systime_valid 20" "systime_valid 30"
    by (simp_all add: systime_valid_def systime_min_def systime_max_def nanos_per_sec_def)
  have due: "next_due ?eng (CronExpression ''* * * * *'') 20 30 = Inr (Some 37)"
    unfolding next_due_def using ok valid by (subst next_occurrence_eq) simp_all
  show ?thesis using next_due_advances [OF ok valid due] ok due by (simp add: Let_def)
qed

text \<open>
  Occurrence identity. Two messages have the same occurrence id exactly when they belong
  to the same schedule and the same instant, so consumers that deduplicate on it drop
  redeliveries and nothing else. Assumed: the UUIDv5 hash does not collide on the two names.
\<close>

theorem occurrence_identity:
  assumes "systime_valid (scheduled_for a)" and "systime_valid (scheduled_for b)"
    and "uuid_v5 occurrence_namespace (occurrence_name (schedule_id a) (scheduled_for a))
       = uuid_v5 occurrence_namespace (occurrence_name (schedule_id b) (scheduled_for b))
       \<longrightarrow> occurrence_name (schedule_id a) (scheduled_for a)
           = occurrence_name (schedule_id b) (scheduled_for b)"
  shows "occurrence_id uuid_v5 a = occurrence_id uuid_v5 b
     \<longleftrightarrow> schedule_id a = schedule_id b \<and> scheduled_for a = scheduled_for b"
  using assms occurrence_name_inj
  by (auto simp: occurrence_id_def occurrence_id_derive_def)

theorem occurrence_identity_witness:
  "let uuid_v5 = (\<lambda>_ bs. ucast (last bs)) :: uuid \<Rightarrow> byte list \<Rightarrow> uuid;
       a = \<lparr>schedule_id = 1, event_type = ''x'', payload = [], msg_target = Mediator,
            msg_trigger = Delay 10, scheduled_for = 10\<rparr>
   in occurrence_id uuid_v5 a \<noteq> occurrence_id uuid_v5 (a\<lparr>scheduled_for := 11\<rparr>)"
proof -
  let ?u = "(\<lambda>_ bs. ucast (last bs)) :: uuid \<Rightarrow> byte list \<Rightarrow> uuid"
  let ?a = "\<lparr>schedule_id = 1, event_type = ''x'', payload = [], msg_target = Mediator,
            msg_trigger = Delay 10, scheduled_for = 10\<rparr>"
  have valid: "systime_valid 10" "systime_valid 11"
    by (simp_all add: systime_valid_def systime_min_def systime_max_def nanos_per_sec_def)
  have "?u occurrence_namespace (occurrence_name 1 10) \<noteq> ?u occurrence_namespace (occurrence_name 1 11)"
    by (simp add: occurrence_name_def duration_since_def unix_epoch_def) code_simp
  then show ?thesis
    using occurrence_identity [of ?a "?a\<lparr>scheduled_for := 11\<rparr>" ?u] valid by (simp add: Let_def)
qed

end
