(* ===== verification/Sched_Store.thy ===== *)
theory Sched_Store
  imports Sched_Core
begin

text \<open>
  The schedule store: the trait \<open>ScheduleStore\<close> and the operator trait \<open>ScheduleAdmin\<close>
  (\<open>store.rs\<close>, \<open>admin.rs\<close>) and their in-memory implementation (\<open>memory.rs\<close>).

  Every operation of \<open>InMemoryScheduleStore\<close> runs under one mutex, so it is one function
  from the schedule map to a result and the new map. A read of the system clock inside an
  operation is its argument \<open>clock\<close>; the iteration order of the hash map is the argument
  \<open>ks\<close>. The trait is the record \<open>schedule_store\<close> of its operations, the laws its
  documentation promises are the locale \<open>schedule_store_laws\<close>.
\<close>

named_theorems store_defs \<open>definitions of the store operations\<close>

section \<open>Rows\<close>

record stored_schedule =
  message :: scheduled_message
  max_attempts :: u32
  attempts :: u32
  leased_until :: "systime option"
  status :: schedule_status
  last_error :: "string option"
  dead_lettered_at :: "systime option"

type_synonym schedule_map = "uuid \<rightharpoonup> stored_schedule"

definition to_snapshot :: "stored_schedule \<Rightarrow> schedule_snapshot" where
  "to_snapshot r =
     \<lparr>snap_schedule_id = schedule_id (message r), snap_status = status r,
      snap_scheduled_for = scheduled_for (message r), snap_attempts = attempts r,
      snap_max_attempts = max_attempts r, snap_trigger = msg_trigger (message r),
      snap_last_error = last_error r\<rparr>"

fun is_terminal :: "schedule_status \<Rightarrow> bool" where
  "is_terminal Delivered = True"
| "is_terminal Cancelled = True"
| "is_terminal DeadLettered = True"
| "is_terminal Pending = False"
| "is_terminal Paused = False"

definition lease_free :: "systime \<Rightarrow> stored_schedule \<Rightarrow> bool" where
  "lease_free now r = (case leased_until r of None \<Rightarrow> True | Some until \<Rightarrow> until \<le> now)"

definition claimable :: "systime \<Rightarrow> stored_schedule \<Rightarrow> bool" where
  "claimable now r \<longleftrightarrow>
     status r = Pending \<and> scheduled_for (message r) \<le> now \<and> lease_free now r
     \<and> attempts r < max_attempts r"

definition sweepable :: "systime \<Rightarrow> stored_schedule \<Rightarrow> bool" where
  "sweepable now r \<longleftrightarrow>
     status r = Pending \<and> attempts r \<ge> max_attempts r \<and> lease_free now r"

text \<open>The fence of every acknowledgement: pending, and still carrying exactly this lease.\<close>

definition fenced_pending :: "schedule_map \<Rightarrow> uuid \<Rightarrow> systime \<Rightarrow> stored_schedule option" where
  "fenced_pending m sid lease =
     (case m sid of
        None \<Rightarrow> None
      | Some r \<Rightarrow> if status r = Pending \<and> leased_until r = Some lease then Some r else None)"

section \<open>Operations of the in-memory store\<close>

type_synonym ('a, 's) store_op = "'s \<Rightarrow> (scheduler_error, 'a) result \<times> 's"

definition dead_letter_exhausted_message :: string where
  "dead_letter_exhausted_message =
     ''attempts exhausted by a crashed worker; dead-lettered by the sweeper''"

definition fresh_row :: "scheduled_message \<Rightarrow> u32 \<Rightarrow> stored_schedule" where
  "fresh_row msg budget =
     \<lparr>message = msg, max_attempts = budget, attempts = 0, leased_until = None,
      status = Pending, last_error = None, dead_lettered_at = None\<rparr>"

definition mem_insert :: "scheduled_message \<Rightarrow> u32 \<Rightarrow> (unit, schedule_map) store_op" where
  "mem_insert msg budget m = (Inr (), m(schedule_id msg \<mapsto> fresh_row msg budget))"

definition claim_row :: "systime \<Rightarrow> stored_schedule \<Rightarrow> stored_schedule" where
  "claim_row until r = r\<lparr>attempts := attempts r + 1, leased_until := Some until\<rparr>"

definition occurrence_of :: "systime \<Rightarrow> stored_schedule \<Rightarrow> leased_occurrence" where
  "occurrence_of until r =
     \<lparr>lo_message = message r, lo_attempts = attempts r, lo_max_attempts = max_attempts r,
      lo_leased_until = until\<rparr>"

fun claim_loop ::
  "systime \<Rightarrow> usize \<Rightarrow> systime \<Rightarrow> uuid list \<Rightarrow> leased_occurrence list \<Rightarrow> schedule_map \<Rightarrow>
   leased_occurrence list \<times> schedule_map"
where
  "claim_loop now batch_size until [] claimed m = (claimed, m)"
| "claim_loop now batch_size until (k # ks) claimed m =
     (if length claimed \<ge> unat batch_size then (claimed, m)
      else case m k of
        None \<Rightarrow> claim_loop now batch_size until ks claimed m
      | Some r \<Rightarrow>
          if claimable now r then
            let r' = claim_row until r in
            claim_loop now batch_size until ks (claimed @ [occurrence_of until r']) (m(k \<mapsto> r'))
          else claim_loop now batch_size until ks claimed m)"

definition mem_claim_due ::
  "uuid list \<Rightarrow> systime \<Rightarrow> usize \<Rightarrow> duration \<Rightarrow> (leased_occurrence list, schedule_map) store_op"
where
  "mem_claim_due ks now batch_size lease m =
     (case systime_checked_add now lease of
        None \<Rightarrow> (Inl (Internal ''lease deadline overflow''), m)
      | Some until \<Rightarrow>
          let (claimed, m') = claim_loop now batch_size until ks [] m in (Inr claimed, m'))"

definition mem_mark_delivered :: "uuid \<Rightarrow> systime \<Rightarrow> (bool, schedule_map) store_op" where
  "mem_mark_delivered sid lease m =
     (case fenced_pending m sid lease of
        None \<Rightarrow> (Inr False, m)
      | Some r \<Rightarrow> (Inr True, m(sid \<mapsto> r\<lparr>status := Delivered, leased_until := None\<rparr>)))"

definition mem_reschedule :: "uuid \<Rightarrow> systime \<Rightarrow> systime \<Rightarrow> (bool, schedule_map) store_op" where
  "mem_reschedule sid next_at lease m =
     (case fenced_pending m sid lease of
        None \<Rightarrow> (Inr False, m)
      | Some r \<Rightarrow>
          (Inr True,
           m(sid \<mapsto> r\<lparr>message := (message r)\<lparr>scheduled_for := next_at\<rparr>, attempts := 0,
                       leased_until := None, last_error := None\<rparr>)))"

definition mem_mark_failed ::
  "systime \<Rightarrow> uuid \<Rightarrow> duration \<Rightarrow> string \<Rightarrow> systime \<Rightarrow> (bool, schedule_map) store_op"
where
  "mem_mark_failed clock sid retry_in err lease m =
     (case fenced_pending m sid lease of
        None \<Rightarrow> (Inr False, m)
      | Some r \<Rightarrow>
          (case systime_checked_add clock retry_in of
             None \<Rightarrow> (Inl (Internal ''retry deadline overflow''), m)
           | Some retry_at \<Rightarrow>
               (Inr True, m(sid \<mapsto> r\<lparr>leased_until := Some retry_at, last_error := Some err\<rparr>))))"

definition mem_mark_dead_lettered ::
  "systime \<Rightarrow> uuid \<Rightarrow> string \<Rightarrow> systime \<Rightarrow> (bool, schedule_map) store_op"
where
  "mem_mark_dead_lettered clock sid err lease m =
     (case fenced_pending m sid lease of
        None \<Rightarrow> (Inr False, m)
      | Some r \<Rightarrow>
          (Inr True,
           m(sid \<mapsto> r\<lparr>status := DeadLettered, leased_until := None, last_error := Some err,
                       dead_lettered_at := Some clock\<rparr>)))"

definition sweep_row :: "systime \<Rightarrow> stored_schedule \<Rightarrow> stored_schedule" where
  "sweep_row now r =
     r\<lparr>status := DeadLettered, leased_until := None,
       last_error := Some dead_letter_exhausted_message, dead_lettered_at := Some now\<rparr>"

fun sweep_loop :: "systime \<Rightarrow> uuid list \<Rightarrow> u64 \<Rightarrow> schedule_map \<Rightarrow> u64 \<times> schedule_map" where
  "sweep_loop now [] swept m = (swept, m)"
| "sweep_loop now (k # ks) swept m =
     (case m k of
        None \<Rightarrow> sweep_loop now ks swept m
      | Some r \<Rightarrow>
          if sweepable now r then sweep_loop now ks (swept + 1) (m(k \<mapsto> sweep_row now r))
          else sweep_loop now ks swept m)"

definition mem_dead_letter_exhausted :: "systime \<Rightarrow> uuid list \<Rightarrow> (u64, schedule_map) store_op" where
  "mem_dead_letter_exhausted clock ks m =
     (let (swept, m') = sweep_loop clock ks 0 m in (Inr swept, m'))"

definition mem_cancel :: "uuid \<Rightarrow> (unit, schedule_map) store_op" where
  "mem_cancel sid m =
     (case m sid of
        None \<Rightarrow> (Inl (ScheduleNotFound sid), m)
      | Some r \<Rightarrow>
          if \<not> is_terminal (status r)
          then (Inr (), m(sid \<mapsto> r\<lparr>status := Cancelled, leased_until := None\<rparr>))
          else (Inr (), m))"

definition mem_set_paused :: "uuid \<Rightarrow> bool \<Rightarrow> (unit, schedule_map) store_op" where
  "mem_set_paused sid paused m =
     (case m sid of
        None \<Rightarrow> (Inl (ScheduleNotFound sid), m)
      | Some r \<Rightarrow>
          if paused \<and> status r = Pending then (Inr (), m(sid \<mapsto> r\<lparr>status := Paused\<rparr>))
          else if \<not> paused \<and> status r = Paused then (Inr (), m(sid \<mapsto> r\<lparr>status := Pending\<rparr>))
          else (Inr (), m))"

definition mem_inspect :: "uuid \<Rightarrow> (schedule_snapshot option, schedule_map) store_op" where
  "mem_inspect sid m = (Inr (map_option to_snapshot (m sid)), m)"

definition mem_resume :: "uuid \<Rightarrow> systime option \<Rightarrow> (unit, schedule_map) store_op" where
  "mem_resume sid next_at m =
     (case m sid of
        None \<Rightarrow> (Inl (ScheduleNotFound sid), m)
      | Some r \<Rightarrow>
          if status r \<noteq> Paused then (Inr (), m)
          else case next_at of
            None \<Rightarrow> (Inr (), m(sid \<mapsto> r\<lparr>status := Pending\<rparr>))
          | Some t \<Rightarrow>
              (Inr (),
               m(sid \<mapsto> r\<lparr>status := Pending, message := (message r)\<lparr>scheduled_for := t\<rparr>,
                           attempts := 0, last_error := None, leased_until := None\<rparr>)))"

section \<open>Operator operations\<close>

definition row_values :: "uuid list \<Rightarrow> schedule_map \<Rightarrow> stored_schedule list" where
  "row_values ks m = map (\<lambda>k. the (m k)) (filter (\<lambda>k. m k \<noteq> None) ks)"

definition mem_list_pending ::
  "uuid list \<Rightarrow> usize \<Rightarrow> (schedule_snapshot list, schedule_map) store_op"
where
  "mem_list_pending ks limit m =
     (let rows = map to_snapshot (filter (\<lambda>r. status r = Pending \<or> status r = Paused) (row_values ks m));
          sorted_rows = sort_by (\<lambda>a b. snap_scheduled_for a \<le> snap_scheduled_for b) rows
      in (Inr (take (unat limit) sorted_rows), m))"

definition mem_list_dead_letter ::
  "uuid list \<Rightarrow> usize \<Rightarrow> (schedule_snapshot list, schedule_map) store_op"
where
  "mem_list_dead_letter ks limit m =
     (let rows = filter (\<lambda>r. status r = DeadLettered) (row_values ks m);
          sorted_rows = sort_by (\<lambda>a b. option_le (dead_lettered_at b) (dead_lettered_at a)) rows
      in (Inr (map to_snapshot (take (unat limit) sorted_rows)), m))"

definition mem_replay :: "systime \<Rightarrow> uuid \<Rightarrow> (unit, schedule_map) store_op" where
  "mem_replay clock sid m =
     (case m sid of
        None \<Rightarrow> (Inl (ScheduleNotFound sid), m)
      | Some r \<Rightarrow>
          if status r \<noteq> DeadLettered then (Inl (NotReplayable sid (status r)), m)
          else
            (Inr (),
             m(sid \<mapsto> r\<lparr>status := Pending, attempts := 0, last_error := None, leased_until := None,
                         dead_lettered_at := None,
                         message := (message r)\<lparr>scheduled_for := clock\<rparr>\<rparr>)))"

lemmas mem_op_defs [store_defs] =
  mem_insert_def mem_claim_due_def mem_mark_delivered_def mem_reschedule_def mem_mark_failed_def
  mem_mark_dead_lettered_def mem_dead_letter_exhausted_def mem_cancel_def mem_set_paused_def
  mem_inspect_def mem_resume_def mem_replay_def fenced_pending_def

section \<open>The trait as a record of operations\<close>

record 's schedule_store =
  st_insert :: "scheduled_message \<Rightarrow> u32 \<Rightarrow> (unit, 's) store_op"
  st_claim_due ::
    "uuid list \<Rightarrow> systime \<Rightarrow> usize \<Rightarrow> duration \<Rightarrow> (leased_occurrence list, 's) store_op"
  st_mark_delivered :: "uuid \<Rightarrow> systime \<Rightarrow> (bool, 's) store_op"
  st_reschedule :: "uuid \<Rightarrow> systime \<Rightarrow> systime \<Rightarrow> (bool, 's) store_op"
  st_mark_failed :: "systime \<Rightarrow> uuid \<Rightarrow> duration \<Rightarrow> string \<Rightarrow> systime \<Rightarrow> (bool, 's) store_op"
  st_mark_dead_lettered :: "systime \<Rightarrow> uuid \<Rightarrow> string \<Rightarrow> systime \<Rightarrow> (bool, 's) store_op"
  st_dead_letter_exhausted :: "systime \<Rightarrow> uuid list \<Rightarrow> (u64, 's) store_op"
  st_cancel :: "uuid \<Rightarrow> (unit, 's) store_op"
  st_set_paused :: "uuid \<Rightarrow> bool \<Rightarrow> (unit, 's) store_op"
  st_inspect :: "uuid \<Rightarrow> (schedule_snapshot option, 's) store_op"
  st_resume :: "uuid \<Rightarrow> systime option \<Rightarrow> (unit, 's) store_op"

definition in_memory_store :: "schedule_map schedule_store" where
  "in_memory_store =
     \<lparr>st_insert = mem_insert, st_claim_due = mem_claim_due,
      st_mark_delivered = mem_mark_delivered, st_reschedule = mem_reschedule,
      st_mark_failed = mem_mark_failed, st_mark_dead_lettered = mem_mark_dead_lettered,
      st_dead_letter_exhausted = mem_dead_letter_exhausted, st_cancel = mem_cancel,
      st_set_paused = mem_set_paused, st_inspect = mem_inspect, st_resume = mem_resume\<rparr>"

lemma in_memory_store_sel [simp]:
  "st_insert in_memory_store = mem_insert"
  "st_claim_due in_memory_store = mem_claim_due"
  "st_mark_delivered in_memory_store = mem_mark_delivered"
  "st_reschedule in_memory_store = mem_reschedule"
  "st_mark_failed in_memory_store = mem_mark_failed"
  "st_mark_dead_lettered in_memory_store = mem_mark_dead_lettered"
  "st_dead_letter_exhausted in_memory_store = mem_dead_letter_exhausted"
  "st_cancel in_memory_store = mem_cancel"
  "st_set_paused in_memory_store = mem_set_paused"
  "st_inspect in_memory_store = mem_inspect"
  "st_resume in_memory_store = mem_resume"
  by (simp_all add: in_memory_store_def)

section \<open>Reference descriptions of the two loops\<close>

text \<open>
  Which rows one claim takes: the first \<open>n\<close> claimable ones in iteration order. The loop
  of the code is equal to taking them all at once.
\<close>

definition row_claimable :: "systime \<Rightarrow> schedule_map \<Rightarrow> uuid \<Rightarrow> bool" where
  "row_claimable now m k = (case m k of None \<Rightarrow> False | Some r \<Rightarrow> claimable now r)"

definition row_sweepable :: "systime \<Rightarrow> schedule_map \<Rightarrow> uuid \<Rightarrow> bool" where
  "row_sweepable now m k = (case m k of None \<Rightarrow> False | Some r \<Rightarrow> sweepable now r)"

definition claim_picks :: "systime \<Rightarrow> nat \<Rightarrow> uuid list \<Rightarrow> schedule_map \<Rightarrow> uuid list" where
  "claim_picks now n ks m = take n (filter (row_claimable now m) ks)"

definition claim_rows :: "systime \<Rightarrow> uuid list \<Rightarrow> schedule_map \<Rightarrow> schedule_map" where
  "claim_rows until picks m =
     (\<lambda>k. if k \<in> set picks then map_option (claim_row until) (m k) else m k)"

definition claim_occurrences ::
  "systime \<Rightarrow> uuid list \<Rightarrow> schedule_map \<Rightarrow> leased_occurrence list"
where
  "claim_occurrences until picks m =
     map (\<lambda>k. occurrence_of until (claim_row until (the (m k)))) picks"

lemma row_claimable_upd_other [simp]:
  "k \<noteq> k' \<Longrightarrow> row_claimable now (m(k' \<mapsto> r)) k = row_claimable now m k"
  by (simp add: row_claimable_def)

lemma claim_picks_upd_other:
  "k \<notin> set ks \<Longrightarrow> claim_picks now n ks (m(k \<mapsto> r)) = claim_picks now n ks m"
  unfolding claim_picks_def
  by (rule arg_cong [of _ _ "take n"], rule filter_cong) (auto simp: row_claimable_def)

lemma claim_picks_subset: "set (claim_picks now n ks m) \<subseteq> set ks"
  unfolding claim_picks_def by (meson filter_is_subset set_take_subset subset_trans)

lemma claim_picks_claimable:
  "k \<in> set (claim_picks now n ks m) \<Longrightarrow> \<exists>r. m k = Some r \<and> claimable now r"
  unfolding claim_picks_def
  by (auto dest!: in_set_takeD simp: row_claimable_def split: option.splits)

lemma claim_loop_eq:
  assumes "distinct ks" and "length claimed \<le> unat b"
  shows "claim_loop now b until ks claimed m =
    (claimed @ claim_occurrences until (claim_picks now (unat b - length claimed) ks m) m,
     claim_rows until (claim_picks now (unat b - length claimed) ks m) m)"
  using assms
proof (induction ks arbitrary: claimed m)
  case Nil
  then show ?case
    by (simp add: claim_picks_def claim_occurrences_def claim_rows_def)
next
  case (Cons k ks)
  consider (full) "length claimed = unat b"
    | (skip) "length claimed < unat b" "\<not> row_claimable now m k"
    | (take) r where "length claimed < unat b" "m k = Some r" "claimable now r"
    using Cons.prems(2) by (fastforce simp: row_claimable_def split: option.splits)
  then show ?case
  proof cases
    case full
    then show ?thesis
      by (simp add: claim_picks_def claim_occurrences_def claim_rows_def)
  next
    case skip
    then have step: "claim_loop now b until (k # ks) claimed m = claim_loop now b until ks claimed m"
      by (auto simp: row_claimable_def split: option.splits)
    moreover have "claim_picks now n (k # ks) m = claim_picks now n ks m" for n
      using skip by (simp add: claim_picks_def)
    ultimately show ?thesis
      using Cons by simp
  next
    case take
    define n where "n = unat b - Suc (length claimed)"
    have n: "unat b - length claimed = Suc n" using take by (simp add: n_def)
    let ?r = "claim_row until r"
    let ?P = "claim_picks now n ks m"
    have picks: "claim_picks now (Suc n) (k # ks) m = k # ?P"
      using take by (simp add: claim_picks_def row_claimable_def)
    have fresh: "k \<notin> set ks" using Cons.prems(1) by simp
    have other: "claim_picks now n ks (m(k \<mapsto> ?r)) = ?P"
      using fresh by (rule claim_picks_upd_other)
    have notin: "k \<notin> set ?P" using fresh claim_picks_subset by blast
    define c m\<^sub>1 where "c = claimed @ [occurrence_of until ?r]" and "m\<^sub>1 = m(k \<mapsto> ?r)"
    have "unat b - length c = n" "length c \<le> unat b" using take by (simp_all add: c_def n_def)
    moreover have "claim_picks now n ks m\<^sub>1 = ?P" unfolding m\<^sub>1_def by (rule other)
    ultimately have IH: "claim_loop now b until ks c m\<^sub>1 =
        (c @ claim_occurrences until ?P m\<^sub>1, claim_rows until ?P m\<^sub>1)"
      using Cons.IH [of c m\<^sub>1] Cons.prems(1) by simp
    have occ: "c @ claim_occurrences until ?P m\<^sub>1 = claimed @ claim_occurrences until (k # ?P) m"
      using notin take by (auto simp: claim_occurrences_def c_def m\<^sub>1_def)
    have rows: "claim_rows until ?P m\<^sub>1 = claim_rows until (k # ?P) m"
      using notin take by (auto simp: claim_rows_def m\<^sub>1_def)
    have "claim_loop now b until (k # ks) claimed m = claim_loop now b until ks c m\<^sub>1"
      using take by (simp add: Let_def c_def m\<^sub>1_def)
    then show ?thesis
      by (simp only: IH occ rows n picks)
  qed
qed

lemma mem_claim_due_eq:
  assumes "distinct ks" and "systime_checked_add now d = Some until"
  shows "mem_claim_due ks now b d m =
    (Inr (claim_occurrences until (claim_picks now (unat b) ks m) m),
     claim_rows until (claim_picks now (unat b) ks m) m)"
  using assms by (simp add: mem_claim_due_def claim_loop_eq)

lemma mem_claim_due_cases:
  assumes "mem_claim_due ks now b d m = (res, m')" and "distinct ks"
  obtains (overflow) "systime_max < now + int d" "res = Inl (Internal ''lease deadline overflow'')" "m' = m"
  | (claimed) until where "until = now + int d" "systime_checked_add now d = Some until"
      "res = Inr (claim_occurrences until (claim_picks now (unat b) ks m) m)"
      "m' = claim_rows until (claim_picks now (unat b) ks m) m"
proof (cases "systime_checked_add now d")
  case None
  then have "systime_max < now + int d" by (simp add: systime_checked_add_None)
  moreover from None assms have "res = Inl (Internal ''lease deadline overflow'')" "m' = m"
    by (simp_all add: mem_claim_due_def)
  ultimately show ?thesis by (rule that(1))
next
  case (Some until)
  then have "until = now + int d" by (simp add: time_simps)
  with Some show ?thesis
    using assms that(2) by (auto simp: mem_claim_due_eq)
qed

definition sweep_rows :: "systime \<Rightarrow> uuid list \<Rightarrow> schedule_map \<Rightarrow> schedule_map" where
  "sweep_rows now ks m =
     (\<lambda>k. if k \<in> set ks \<and> row_sweepable now m k then map_option (sweep_row now) (m k) else m k)"

lemma sweep_loop_eq:
  assumes "distinct ks"
  shows "sweep_loop now ks n m =
    (n + word_of_nat (length (filter (row_sweepable now m) ks)), sweep_rows now ks m)"
  using assms
proof (induction ks arbitrary: n m)
  case Nil
  then show ?case by (simp add: sweep_rows_def)
next
  case (Cons k ks)
  show ?case
  proof (cases "row_sweepable now m k")
    case False
    then have "sweep_rows now (k # ks) m = sweep_rows now ks m"
      by (auto simp: sweep_rows_def)
    with False Cons show ?thesis
      by (auto simp: row_sweepable_def split: option.splits)
  next
    case True
    then obtain r where r: "m k = Some r" "sweepable now r"
      by (auto simp: row_sweepable_def split: option.splits)
    let ?m = "m(k \<mapsto> sweep_row now r)"
    have "filter (row_sweepable now ?m) ks = filter (row_sweepable now m) ks"
      using Cons.prems by (intro filter_cong) (auto simp: row_sweepable_def)
    moreover have "sweep_rows now ks ?m = sweep_rows now (k # ks) m"
      using Cons.prems True r by (auto simp: sweep_rows_def row_sweepable_def)
    ultimately show ?thesis
      using True r Cons by simp
  qed
qed

lemma mem_dead_letter_exhausted_eq:
  "distinct ks \<Longrightarrow> mem_dead_letter_exhausted now ks m =
     (Inr (word_of_nat (length (filter (row_sweepable now m) ks))), sweep_rows now ks m)"
  by (simp add: mem_dead_letter_exhausted_def sweep_loop_eq)

section \<open>The contract of the trait\<close>

text \<open>What each acknowledgement does to the row it is applied to.\<close>

definition deliver_row :: "stored_schedule \<Rightarrow> stored_schedule" where
  "deliver_row r = r\<lparr>status := Delivered, leased_until := None\<rparr>"

definition reschedule_row :: "systime \<Rightarrow> stored_schedule \<Rightarrow> stored_schedule" where
  "reschedule_row t r =
     r\<lparr>message := (message r)\<lparr>scheduled_for := t\<rparr>, attempts := 0, leased_until := None,
       last_error := None\<rparr>"

definition fail_row :: "systime \<Rightarrow> string \<Rightarrow> stored_schedule \<Rightarrow> stored_schedule" where
  "fail_row t err r = r\<lparr>leased_until := Some t, last_error := Some err\<rparr>"

definition dead_letter_row :: "systime \<Rightarrow> string \<Rightarrow> stored_schedule \<Rightarrow> stored_schedule" where
  "dead_letter_row t err r =
     r\<lparr>status := DeadLettered, leased_until := None, last_error := Some err,
       dead_lettered_at := Some t\<rparr>"

text \<open>
  An acknowledgement is fenced: without the lease it changes nothing and never reports
  success; with it, it applies \<open>f\<close> to the row, or the backend failed and nothing changed.
\<close>

definition fenced_update ::
  "schedule_map \<Rightarrow> uuid \<Rightarrow> systime \<Rightarrow> (stored_schedule \<Rightarrow> stored_schedule option) \<Rightarrow>
   (scheduler_error, bool) result \<Rightarrow> schedule_map \<Rightarrow> bool"
where
  "fenced_update m sid lease f res m' =
     (case fenced_pending m sid lease of
        None \<Rightarrow> res \<noteq> Inr True \<and> m' = m
      | Some r \<Rightarrow> (res = Inr True \<and> (\<exists>r'. f r = Some r' \<and> m' = m(sid \<mapsto> r')))
                 \<or> (\<not> is_ok res \<and> m' = m))"

locale schedule_store_laws =
  fixes ops :: "'s schedule_store"
    and rows :: "'s \<Rightarrow> schedule_map"
  assumes delivered_law:
      "st_mark_delivered ops i l s = (res, s') \<Longrightarrow>
       fenced_update (rows s) i l (Some \<circ> deliver_row) res (rows s')"
    and reschedule_law:
      "st_reschedule ops i t l s = (res, s') \<Longrightarrow>
       fenced_update (rows s) i l (Some \<circ> reschedule_row t) res (rows s')"
    and failed_law:
      "st_mark_failed ops clock i d err l s = (res, s') \<Longrightarrow>
       fenced_update (rows s) i l
         (\<lambda>r. map_option (\<lambda>t. fail_row t err r) (systime_checked_add clock d)) res (rows s')"
    and dead_lettered_law:
      "st_mark_dead_lettered ops clock i err l s = (res, s') \<Longrightarrow>
       fenced_update (rows s) i l (Some \<circ> dead_letter_row clock err) res (rows s')"
    and claim_error_law:
      "st_claim_due ops ks now b d s = (Inl e, s') \<Longrightarrow> rows s' = rows s"
    and claim_law:
      "st_claim_due ops ks now b d s = (Inr cl, s') \<Longrightarrow> key_order ks (rows s) \<Longrightarrow>
       \<exists>picks until. systime_checked_add now d = Some until
         \<and> distinct picks \<and> length picks \<le> unat b
         \<and> (\<forall>k \<in> set picks. row_claimable now (rows s) k)
         \<and> (length picks < unat b \<longrightarrow> (\<forall>k. row_claimable now (rows s) k \<longrightarrow> k \<in> set picks))
         \<and> cl = claim_occurrences until picks (rows s)
         \<and> rows s' = claim_rows until picks (rows s)"
    and sweep_error_law:
      "st_dead_letter_exhausted ops now ks s = (Inl e, s') \<Longrightarrow> rows s' = rows s"
    and sweep_law:
      "st_dead_letter_exhausted ops now ks s = (Inr n, s') \<Longrightarrow> key_order ks (rows s) \<Longrightarrow>
       rows s' = sweep_rows now ks (rows s)"

lemma fenced_update_ok:
  "fenced_pending m i l = Some r \<Longrightarrow> f r = Some r' \<Longrightarrow>
   fenced_update m i l f (Inr True) (m(i \<mapsto> r'))"
  by (simp add: fenced_update_def)

interpretation mem: schedule_store_laws in_memory_store "\<lambda>m. m"
proof
  fix ks now b d cl and s s' :: schedule_map
  assume claim: "st_claim_due in_memory_store ks now b d s = (Inr cl, s')"
    and ks: "key_order ks s"
  then have "distinct ks" by (simp add: key_order_def)
  with claim obtain until where until: "systime_checked_add now d = Some until"
    and res: "cl = claim_occurrences until (claim_picks now (unat b) ks s) s"
      "s' = claim_rows until (claim_picks now (unat b) ks s) s"
    by (auto elim: mem_claim_due_cases)
  let ?P = "claim_picks now (unat b) ks s"
  have "distinct ?P" "length ?P \<le> unat b"
    using \<open>distinct ks\<close> by (simp_all add: claim_picks_def)
  moreover have "\<forall>k \<in> set ?P. row_claimable now s k"
    by (auto dest!: claim_picks_claimable simp: row_claimable_def)
  moreover have "\<forall>k. row_claimable now s k \<longrightarrow> k \<in> set ?P" if "length ?P < unat b"
  proof -
    have "?P = filter (row_claimable now s) ks"
      using that by (simp add: claim_picks_def min_def split: if_splits)
    then show ?thesis
      using ks by (auto simp: row_claimable_def key_order_def dom_def split: option.splits)
  qed
  ultimately show "\<exists>picks until. systime_checked_add now d = Some until
      \<and> distinct picks \<and> length picks \<le> unat b
      \<and> (\<forall>k \<in> set picks. row_claimable now s k)
      \<and> (length picks < unat b \<longrightarrow> (\<forall>k. row_claimable now s k \<longrightarrow> k \<in> set picks))
      \<and> cl = claim_occurrences until picks s \<and> s' = claim_rows until picks s"
    using until res by blast
next
  fix now ks n and s s' :: schedule_map
  assume "st_dead_letter_exhausted in_memory_store now ks s = (Inr n, s')" and "key_order ks s"
  then show "s' = sweep_rows now ks s"
    by (auto simp: mem_dead_letter_exhausted_eq key_order_def)
qed (auto simp: fenced_update_def store_defs deliver_row_def reschedule_row_def fail_row_def
      dead_letter_row_def split: option.splits if_splits prod.splits)

end
