(* ===== verification/Sched_Lifecycle.thy ===== *)
theory Sched_Lifecycle
  imports Sched_Store
begin

text \<open>
  The life of a schedule in the in-memory store, over arbitrary sequences of calls by any
  number of workers, operators and control handles. The mutex makes each call atomic, so
  every interleaving is one sequence of \<open>store_call\<close>s. Shown here: the row invariant, that
  terminal states absorb, what a claim does and that leases exclude each other, that a
  stale lease stays fenced off as long as later leases end after it, that a poison occurrence is claimed at most
  \<open>max_attempts\<close> times, and that no pending occurrence is stuck.
\<close>

section \<open>Calls\<close>

datatype store_call =
    CInsert scheduled_message u32
  | CClaim "uuid list" systime usize duration
  | CDelivered uuid systime
  | CReschedule uuid systime systime
  | CFailed systime uuid duration string systime
  | CDead systime uuid string systime
  | CSweep systime "uuid list"
  | CCancel uuid
  | CPause uuid bool
  | CResume uuid "systime option"
  | CReplay systime uuid

fun exec :: "store_call \<Rightarrow> schedule_map \<Rightarrow> schedule_map" where
  "exec (CInsert msg n) m = snd (mem_insert msg n m)"
| "exec (CClaim ks now b d) m = snd (mem_claim_due ks now b d m)"
| "exec (CDelivered i l) m = snd (mem_mark_delivered i l m)"
| "exec (CReschedule i t l) m = snd (mem_reschedule i t l m)"
| "exec (CFailed clock i d e l) m = snd (mem_mark_failed clock i d e l m)"
| "exec (CDead clock i e l) m = snd (mem_mark_dead_lettered clock i e l m)"
| "exec (CSweep clock ks) m = snd (mem_dead_letter_exhausted clock ks m)"
| "exec (CCancel i) m = snd (mem_cancel i m)"
| "exec (CPause i p) m = snd (mem_set_paused i p m)"
| "exec (CResume i t) m = snd (mem_resume i t m)"
| "exec (CReplay clock i) m = snd (mem_replay clock i m)"

text \<open>The hash map is iterated without repeating a key.\<close>

fun call_wf :: "store_call \<Rightarrow> bool" where
  "call_wf (CClaim ks now b d) = distinct ks"
| "call_wf (CSweep clock ks) = distinct ks"
| "call_wf _ = True"

definition claimed_ids :: "leased_occurrence list \<Rightarrow> uuid list" where
  "claimed_ids cl = map (schedule_id \<circ> lo_message) cl"

text \<open>Whether a call is a claim that hands out an occurrence of schedule \<open>i\<close>.\<close>

fun claims :: "uuid \<Rightarrow> store_call \<Rightarrow> schedule_map \<Rightarrow> bool" where
  "claims i (CClaim ks now b d) m =
     (case fst (mem_claim_due ks now b d m) of
        Inl e \<Rightarrow> False
      | Inr cl \<Rightarrow> i \<in> set (claimed_ids cl))"
| "claims i _ m = False"

text \<open>Calls that start a new life of schedule \<open>i\<close>, or of its attempt budget.\<close>

fun revives :: "uuid \<Rightarrow> store_call \<Rightarrow> bool" where
  "revives i (CInsert msg n) = (schedule_id msg = i)"
| "revives i (CReplay clock j) = (j = i)"
| "revives i _ = False"

fun resets :: "uuid \<Rightarrow> store_call \<Rightarrow> bool" where
  "resets i (CReschedule j t l) = (j = i)"
| "resets i (CResume j t) = (j = i \<and> t \<noteq> None)"
| "resets i c = revives i c"



fun claim_count :: "uuid \<Rightarrow> store_call list \<Rightarrow> schedule_map \<Rightarrow> nat" where
  "claim_count i [] m = 0"
| "claim_count i (c # cs) m = (if claims i c m then 1 else 0) + claim_count i cs (exec c m)"

text \<open>Calls that can only write leases ending after the instant \<open>l\<close>.\<close>

fun leases_after :: "systime \<Rightarrow> store_call \<Rightarrow> bool" where
  "leases_after l (CClaim ks now b d) = (l < now + int d)"
| "leases_after l (CFailed clock i d e k) = (l < clock + int d)"
| "leases_after l _ = True"

section \<open>The invariant\<close>

definition row_ok :: "stored_schedule \<Rightarrow> bool" where
  "row_ok r \<longleftrightarrow>
     attempts r \<le> max_attempts r
     \<and> (is_terminal (status r) \<longrightarrow> leased_until r = None)
     \<and> (status r \<noteq> DeadLettered \<longrightarrow> dead_lettered_at r = None)
     \<and> (status r = DeadLettered \<longrightarrow> dead_lettered_at r \<noteq> None)"

definition store_ok :: "schedule_map \<Rightarrow> bool" where
  "store_ok m \<longleftrightarrow> (\<forall>i r. m i = Some r \<longrightarrow> schedule_id (message r) = i \<and> row_ok r)"

lemma u32_inc_le: "(a :: u32) < b \<Longrightarrow> a + 1 \<le> b"
  by unat_arith

lemma store_ok_empty [simp]: "store_ok Map.empty"
  by (simp add: store_ok_def)

lemma store_okD: "store_ok m \<Longrightarrow> m i = Some r \<Longrightarrow> schedule_id (message r) = i \<and> row_ok r"
  by (simp add: store_ok_def)

lemma store_ok_upd:
  "store_ok m \<Longrightarrow> schedule_id (message r) = i \<Longrightarrow> row_ok r \<Longrightarrow> store_ok (m(i \<mapsto> r))"
  by (simp add: store_ok_def)

lemma claim_row_simps [simp]:
  "message (claim_row u r) = message r"
  "status (claim_row u r) = status r"
  "max_attempts (claim_row u r) = max_attempts r"
  "attempts (claim_row u r) = attempts r + 1"
  "leased_until (claim_row u r) = Some u"
  by (simp_all add: claim_row_def)

lemma sweep_row_simps [simp]:
  "message (sweep_row u r) = message r"
  "status (sweep_row u r) = DeadLettered"
  "max_attempts (sweep_row u r) = max_attempts r"
  "attempts (sweep_row u r) = attempts r"
  "leased_until (sweep_row u r) = None"
  by (simp_all add: sweep_row_def)

lemma row_ok_claim: "row_ok r \<Longrightarrow> claimable now r \<Longrightarrow> row_ok (claim_row u r)"
  by (auto simp: row_ok_def claimable_def u32_inc_le) (simp add: claim_row_def)

lemma row_ok_sweep: "row_ok r \<Longrightarrow> row_ok (sweep_row u r)"
  by (simp add: row_ok_def) (simp add: sweep_row_def)

lemma claim_loop_ok: "store_ok m \<Longrightarrow> store_ok (snd (claim_loop now b u ks cl m))"
proof (induction now b u ks cl m rule: claim_loop.induct)
  case (2 now b u k ks cl m)
  show ?case
  proof (cases "length cl < unat b \<and> row_claimable now m k")
    case True
    then obtain r where r: "m k = Some r" "claimable now r"
      by (auto simp: row_claimable_def split: option.splits)
    with "2.prems" have "store_ok (m(k \<mapsto> claim_row u r))"
      by (intro store_ok_upd) (auto dest: store_okD intro: row_ok_claim)
    with True r "2.IH"(2) show ?thesis by (simp add: Let_def fun_upd_def)
  next
    case False
    with "2.prems" "2.IH"(1,3) show ?thesis
      by (auto simp: row_claimable_def split: option.splits)
  qed
qed simp

lemma sweep_loop_ok: "store_ok m \<Longrightarrow> store_ok (snd (sweep_loop now ks n m))"
proof (induction now ks n m rule: sweep_loop.induct)
  case (2 now k ks n m)
  show ?case
  proof (cases "m k")
    case (Some r)
    with "2.prems" have "store_ok (m(k \<mapsto> sweep_row now r))"
      by (intro store_ok_upd) (auto dest: store_okD intro: row_ok_sweep)
    with Some "2.IH"(2,3) "2.prems" show ?thesis by (simp add: fun_upd_def)
  qed (use "2.IH"(1) "2.prems" in simp)
qed simp

lemma not_terminal_iff: "\<not> is_terminal s \<longleftrightarrow> s = Pending \<or> s = Paused"
  by (cases s) simp_all

lemma exec_ok: "store_ok m \<Longrightarrow> store_ok (exec c m)"
proof (cases c)
  case (CClaim ks now b d)
  assume "store_ok m"
  with CClaim claim_loop_ok show ?thesis
    by (auto simp: mem_claim_due_def split: option.splits prod.splits) (metis snd_conv)
next
  case (CSweep clock ks)
  assume "store_ok m"
  with CSweep sweep_loop_ok show ?thesis
    by (auto simp: mem_dead_letter_exhausted_def split: prod.splits) (metis snd_conv)
qed (auto simp: store_defs row_ok_def fresh_row_def store_ok_def not_terminal_iff
      split: option.splits)

lemma run_ok: "store_ok m \<Longrightarrow> store_ok (fold exec cs m)"
  by (induction cs arbitrary: m) (simp_all add: exec_ok)

section \<open>Calls, row by row\<close>

lemma claim_loop_keeps:
  "(\<forall>r. m i = Some r \<longrightarrow> \<not> claimable now r) \<Longrightarrow> snd (claim_loop now b u ks cl m) i = m i"
proof (induction now b u ks cl m rule: claim_loop.induct)
  case (2 now b u k ks cl m)
  show ?case
  proof (cases "k = i")
    case True
    with 2 show ?thesis by (auto split: option.splits)
  next
    case False
    with 2 show ?thesis by (auto simp: Let_def fun_upd_def split: option.splits)
  qed
qed simp

lemma sweep_loop_keeps:
  "(\<forall>r. m i = Some r \<longrightarrow> \<not> sweepable now r) \<Longrightarrow> snd (sweep_loop now ks n m) i = m i"
proof (induction now ks n m rule: sweep_loop.induct)
  case (2 now k ks n m)
  show ?case
  proof (cases "k = i")
    case True
    with 2 show ?thesis by (auto split: option.splits)
  next
    case False
    with 2 show ?thesis by (auto simp: fun_upd_def split: option.splits)
  qed
qed simp

lemma claim_loop_lease:
  "snd (claim_loop now b u ks cl m) i = Some r \<Longrightarrow> m i = Some r \<or> leased_until r = Some u"
proof (induction now b u ks cl m rule: claim_loop.induct)
  case (2 now b u k ks cl m)
  then show ?case
    by (cases "k = i")
      (auto simp: Let_def fun_upd_def split: option.splits if_splits, metis claim_row_simps(5))
qed simp

lemma sweep_loop_lease:
  "snd (sweep_loop now ks n m) i = Some r \<Longrightarrow> m i = Some r \<or> leased_until r = None"
proof (induction now ks n m rule: sweep_loop.induct)
  case (2 now k ks n m)
  then show ?case
    by (cases "k = i") (auto simp: fun_upd_def split: option.splits if_splits)
qed simp

lemma claimed_ids_occurrences:
  "store_ok m \<Longrightarrow> \<forall>k \<in> set picks. m k \<noteq> None \<Longrightarrow>
   claimed_ids (claim_occurrences u picks m) = picks"
  by (auto simp: claimed_ids_def claim_occurrences_def occurrence_of_def store_ok_def
      intro!: map_idI)

lemma claims_iff:
  assumes "store_ok m" and "distinct ks"
  shows "claims i (CClaim ks now b d) m \<longleftrightarrow>
    systime_checked_add now d \<noteq> None \<and> i \<in> set (claim_picks now (unat b) ks m)"
proof (cases "systime_checked_add now d")
  case None
  then show ?thesis by (simp add: mem_claim_due_def)
next
  case (Some u)
  have "claimed_ids (claim_occurrences u (claim_picks now (unat b) ks m) m)
      = claim_picks now (unat b) ks m"
    using assms(1) claim_picks_claimable by (intro claimed_ids_occurrences) blast+
  with Some assms(2) show ?thesis by (simp add: mem_claim_due_eq)
qed

lemma exec_claim_row:
  assumes "store_ok m" and "distinct ks"
  shows "exec (CClaim ks now b d) m i =
    (if claims i (CClaim ks now b d) m then map_option (claim_row (now + int d)) (m i) else m i)"
proof (cases "systime_checked_add now d")
  case None
  then show ?thesis by (simp add: mem_claim_due_def)
next
  case (Some u)
  then have "u = now + int d" by (simp add: time_simps)
  with Some assms show ?thesis
    by (simp del: claims.simps add: claims_iff mem_claim_due_eq claim_rows_def)
qed

lemma exec_sweep_row:
  "distinct ks \<Longrightarrow> exec (CSweep clock ks) m i =
   (if i \<in> set ks \<and> row_sweepable clock m i then map_option (sweep_row clock) (m i) else m i)"
  by (simp add: mem_dead_letter_exhausted_eq sweep_rows_def)

lemma claims_claimable:
  assumes "claims i c m" and "store_ok m" and "call_wf c"
  obtains ks now b d r where "c = CClaim ks now b d" "distinct ks" "m i = Some r" "claimable now r"
    "systime_checked_add now d = Some (now + int d)"
proof (cases c)
  case (CClaim ks now b d)
  with assms have "distinct ks" "i \<in> set (claim_picks now (unat b) ks m)"
    "systime_checked_add now d \<noteq> None"
    using claims_iff by auto
  moreover from this obtain r where "m i = Some r" "claimable now r"
    using claim_picks_claimable by blast
  ultimately show ?thesis using that CClaim by (auto simp: time_simps)
qed (use assms in simp_all)

lemma exec_terminal:
  assumes "m i = Some r" and "is_terminal (status r)" and "\<not> revives i c"
  shows "exec c m i = Some r"
proof -
  from assms have idle: "\<not> claimable now r" "\<not> sweepable now r" for now
    by (auto simp: claimable_def sweepable_def)
  show ?thesis
  proof (cases c)
    case (CClaim ks now b d)
    have "snd (claim_loop now b u ks [] m) i = Some r" for u
      using assms(1) idle by (simp add: claim_loop_keeps)
    with CClaim assms(1) show ?thesis
      by (simp add: mem_claim_due_def case_prod_unfold Let_def split: option.split)
  next
    case (CSweep clock ks)
    have "snd (sweep_loop clock ks 0 m) i = Some r"
      using assms(1) idle by (simp add: sweep_loop_keeps)
    with CSweep show ?thesis
      by (simp add: mem_dead_letter_exhausted_def case_prod_unfold Let_def)
  qed (use assms in \<open>auto simp: store_defs split: option.splits\<close>)
qed

definition not_leased :: "uuid \<Rightarrow> systime \<Rightarrow> schedule_map \<Rightarrow> bool" where
  "not_leased i l m = (case m i of None \<Rightarrow> True | Some r \<Rightarrow> leased_until r \<noteq> Some l)"

lemma exec_not_leased:
  assumes "not_leased i l m" and "leases_after l c"
  shows "not_leased i l (exec c m)"
proof (cases c)
  case (CClaim ks now b d)
  have "leased_until r \<noteq> Some l"
    if "snd (claim_loop now b u ks [] m) i = Some r" "systime_checked_add now d = Some u" for u r
    using claim_loop_lease [OF that(1)] that(2) assms CClaim
    by (auto simp: not_leased_def time_simps)
  with CClaim assms(1) show ?thesis
    by (auto simp: mem_claim_due_def not_leased_def case_prod_unfold Let_def split: option.splits)
next
  case (CSweep clock ks)
  have "leased_until r \<noteq> Some l" if "snd (sweep_loop clock ks 0 m) i = Some r" for r
    using sweep_loop_lease [OF that] assms(1) by (auto simp: not_leased_def)
  with CSweep show ?thesis
    by (auto simp: mem_dead_letter_exhausted_def not_leased_def case_prod_unfold Let_def
        split: option.splits)
next
  case (CFailed clock j d e k)
  with assms show ?thesis
    by (auto simp: store_defs not_leased_def time_simps split: option.splits if_splits)
qed (use assms in \<open>auto simp: store_defs not_leased_def fresh_row_def split: option.splits if_splits\<close>)

lemma run_not_leased:
  "not_leased i l m \<Longrightarrow> list_all (leases_after l) cs \<Longrightarrow> not_leased i l (fold exec cs m)"
  by (induction cs arbitrary: m) (simp_all add: exec_not_leased)

lemma not_leased_fenced: "not_leased i l m \<Longrightarrow> fenced_pending m i l = None"
  by (auto simp: not_leased_def fenced_pending_def split: option.splits)

section \<open>A live lease\<close>





section \<open>The attempt budget\<close>

lemma exec_budget:
  assumes ok: "store_ok m" and row: "m i = Some r" and wf: "call_wf c" and "\<not> resets i c"
  shows "\<exists>r'. exec c m i = Some r' \<and> max_attempts r' = max_attempts r
    \<and> unat (attempts r') = unat (attempts r) + (if claims i c m then 1 else 0)"
proof (cases c)
  case (CClaim ks now b d)
  with wf have ks: "distinct ks" by simp
  have "unat (attempts r + 1) = unat (attempts r) + 1" if "claims i c m"
    using that ok wf
    by (rule claims_claimable) (use row in \<open>auto simp: claimable_def dest: u32_inc_no_wrap\<close>)
  with CClaim row exec_claim_row [OF ok ks] show ?thesis
    by (simp del: exec.simps claims.simps)
next
  case (CSweep clock ks)
  with wf have "distinct ks" by simp
  with CSweep row show ?thesis
    by (simp del: exec.simps add: exec_sweep_row)
qed (use assms in \<open>auto simp: store_defs split: option.splits\<close>)

lemma run_budget:
  assumes "store_ok m" "m i = Some r" "list_all call_wf cs" "list_all (\<lambda>c. \<not> resets i c) cs"
  shows "claim_count i cs m + unat (attempts r) \<le> unat (max_attempts r)"
  using assms
proof (induction cs arbitrary: m r)
  case Nil
  then show ?case by (auto simp: store_ok_def row_ok_def word_le_nat_alt)
next
  case (Cons c cs)
  obtain r' where r': "exec c m i = Some r'" "max_attempts r' = max_attempts r"
    "unat (attempts r') = unat (attempts r) + (if claims i c m then 1 else 0)"
    using exec_budget [of m i r c] Cons.prems by auto
  have "claim_count i cs (exec c m) + unat (attempts r') \<le> unat (max_attempts r')"
    using Cons.prems r'(1) by (intro Cons.IH) (simp_all add: exec_ok)
  with r' show ?case by simp
qed

section \<open>Listings\<close>

lemma row_values_mset:
  assumes "store_ok m" and "key_order ks m"
  shows "set (row_values ks m) = ran m \<and> distinct (row_values ks m)"
proof
  show "set (row_values ks m) = ran m"
    using assms(2) by (force simp: row_values_def key_order_def ran_def)
  have "inj_on (\<lambda>k. the (m k)) (set (filter (\<lambda>k. m k \<noteq> None) ks))"
    using assms(1) by (intro inj_on_inverseI [of _ "schedule_id \<circ> message"]) (auto simp: store_ok_def)
  then show "distinct (row_values ks m)"
    using assms(2) by (simp add: row_values_def key_order_def distinct_map)
qed

lemma sorted_wrt_take_before:
  "sorted_wrt P xs \<Longrightarrow> x \<in> set (take n xs) \<Longrightarrow> y \<in> set (drop n xs) \<Longrightarrow> P x y"
  by (metis append_take_drop_id sorted_wrt_append)

lemma scheduled_order_total:
  "total_preorder (\<lambda>a b. snap_scheduled_for a \<le> snap_scheduled_for b)"
  by (auto simp: total_preorder_def)

section \<open>Properties\<close>

definition sample_message :: "uuid \<Rightarrow> systime \<Rightarrow> scheduled_message" where
  "sample_message i t =
     \<lparr>schedule_id = i, event_type = ''reminders.due'', payload = [], msg_target = Mediator,
      msg_trigger = Delay t, scheduled_for = t\<rparr>"

definition sample_map :: schedule_map where
  "sample_map = [1 \<mapsto> fresh_row (sample_message 1 10) 2]"

definition sample_leased_map :: schedule_map where
  "sample_leased_map = [1 \<mapsto> claim_row 20 (fresh_row (sample_message 1 10) 2)]"

lemmas sample_defs =
  sample_map_def sample_leased_map_def sample_message_def fresh_row_def claim_row_def

text \<open>
  C1. Store invariant. From an empty store, whatever sequence of store calls is made, every
  row is filed under its own schedule id, its attempt counter never exceeds its budget, a
  terminal row holds no lease, and exactly the dead-lettered rows carry the instant of
  their dead-lettering.
\<close>

theorem store_invariant: "store_ok (fold exec cs Map.empty)"
  by (simp add: run_ok)

text \<open>
  Terminal states absorb. Once a schedule is delivered, cancelled or dead-lettered, no
  sequence of calls other than re-inserting or replaying that very schedule changes its row,
  and it is never claimed again.
\<close>

theorem terminal_absorbing:
  assumes "store_ok m" and "m i = Some r" and "is_terminal (status r)"
    and "list_all call_wf cs" and "list_all (\<lambda>c. \<not> revives i c) cs"
  shows "fold exec cs m i = Some r \<and> claim_count i cs m = 0"
  using assms
proof (induction cs arbitrary: m)
  case (Cons c cs)
  have "\<not> claims i c m"
  proof
    assume "claims i c m"
    then show False
      by (rule claims_claimable) (use Cons.prems in \<open>auto simp: claimable_def\<close>)
  qed
  with Cons show ?case by (simp add: exec_terminal exec_ok)
qed simp

definition sample_calls :: "store_call list" where
  "sample_calls = [CClaim [1] 50 9 5, CSweep 90 [1], CPause 1 True, CResume 1 None]"

theorem terminal_absorbing_witness:
  "fold exec sample_calls (exec (CCancel 1) sample_map) 1 = exec (CCancel 1) sample_map 1
   \<and> claim_count 1 sample_calls (exec (CCancel 1) sample_map) = 0"
proof -
  define m where "m = exec (CCancel 1) sample_map"
  have "store_ok m"
    unfolding m_def by (rule exec_ok) (simp add: store_ok_def row_ok_def sample_defs)
  moreover have "\<exists>r. m 1 = Some r \<and> is_terminal (status r)"
    by (simp add: m_def sample_defs mem_cancel_def)
  ultimately show ?thesis
    using terminal_absorbing [of m 1 _ sample_calls] unfolding m_def [symmetric]
    by (auto simp: sample_calls_def simp del: fold_simps claim_count.simps)
qed

text \<open>
  C31. What a claim does. A successful \<open>claim_due\<close> hands out at most \<open>batch_size\<close>
  occurrences, of pairwise different schedules. Each was pending, due, free of an active
  lease and within its attempt budget; its row has the attempt counted and the new lease
  stamped, and the occurrence handed out carries exactly these values. Every other row is
  untouched. If fewer than \<open>batch_size\<close> were handed out, no eligible row was left behind.
\<close>

theorem claim_due_contract:
  assumes ok: "store_ok m" and ks: "key_order ks m"
    and claim: "mem_claim_due ks now b d m = (Inr cl, m')"
  shows "length cl \<le> unat b \<and> distinct (claimed_ids cl)
    \<and> (\<forall>oc \<in> set cl. \<exists>r. m (schedule_id (lo_message oc)) = Some r \<and> claimable now r
         \<and> oc = occurrence_of (now + int d) (claim_row (now + int d) r)
         \<and> m' (schedule_id (lo_message oc)) = Some (claim_row (now + int d) r))
    \<and> (\<forall>k. k \<notin> set (claimed_ids cl) \<longrightarrow> m' k = m k)
    \<and> (length cl < unat b \<longrightarrow> (\<forall>k r. m k = Some r \<and> claimable now r \<longrightarrow> k \<in> set (claimed_ids cl)))"
proof -
  obtain picks u where u: "systime_checked_add now d = Some u"
    and picks: "distinct picks" "length picks \<le> unat b" "\<forall>k \<in> set picks. row_claimable now m k"
      "length picks < unat b \<longrightarrow> (\<forall>k. row_claimable now m k \<longrightarrow> k \<in> set picks)"
    and cl: "cl = claim_occurrences u picks m" and m': "m' = claim_rows u picks m"
    using mem.claim_law [of ks now b d m cl m'] ks claim by auto
  have u': "u = now + int d" using u by (simp add: time_simps)
  have some: "\<forall>k \<in> set picks. m k \<noteq> None" using picks(3) by (fastforce simp: row_claimable_def split: option.splits)
  then have ids: "claimed_ids cl = picks" using ok cl claimed_ids_occurrences by simp
  have "\<exists>r. m (schedule_id (lo_message oc)) = Some r \<and> claimable now r
      \<and> oc = occurrence_of u (claim_row u r) \<and> m' (schedule_id (lo_message oc)) = Some (claim_row u r)"
    if "oc \<in> set cl" for oc
  proof -
    from that cl obtain k where k: "k \<in> set picks"
      "oc = occurrence_of u (claim_row u (the (m k)))" by (auto simp: claim_occurrences_def)
    with picks(3) obtain r where r: "m k = Some r" "claimable now r"
      by (auto simp: row_claimable_def split: option.splits)
    with ok k have "schedule_id (lo_message oc) = k" by (simp add: occurrence_of_def store_ok_def)
    with r k m' show ?thesis by (simp add: claim_rows_def)
  qed
  moreover have "m' k = m k" if "k \<notin> set picks" for k using that m' by (simp add: claim_rows_def)
  moreover have "length cl = length picks" using cl by (simp add: claim_occurrences_def)
  ultimately show ?thesis
    using picks ids u' by (auto simp: row_claimable_def)
qed

theorem claim_due_contract_witness:
  "\<exists>cl m'. mem_claim_due [1] 50 9 5 sample_map = (Inr cl, m') \<and> claimed_ids cl = [1]
     \<and> (\<exists>r. sample_map 1 = Some r \<and> m' 1 = Some (claim_row 55 r))"
proof -
  have ok: "store_ok sample_map" "key_order [1] sample_map"
    by (simp_all add: store_ok_def row_ok_def sample_defs key_order_def)
  have add: "systime_checked_add 50 5 = Some 55"
    by (simp add: systime_checked_add_def systime_max_def nanos_per_sec_def)
  obtain cl m' where cl: "mem_claim_due [1] 50 9 5 sample_map = (Inr cl, m')"
    "claimed_ids cl = [1]"
    by (simp add: mem_claim_due_def add claimable_def lease_free_def claimed_ids_def
        occurrence_of_def sample_defs)
  then obtain oc where oc: "oc \<in> set cl" "schedule_id (lo_message oc) = 1"
    by (auto simp: claimed_ids_def)
  have "\<forall>oc \<in> set cl. \<exists>r. sample_map (schedule_id (lo_message oc)) = Some r
      \<and> m' (schedule_id (lo_message oc)) = Some (claim_row 55 r)"
    using claim_due_contract [OF ok cl(1)] by fastforce
  with oc have "\<exists>r. sample_map 1 = Some r \<and> m' 1 = Some (claim_row 55 r)"
    by metis
  with cl show ?thesis by blast
qed



text \<open>
  C21. A stale lease stays fenced off. When a worker's lease \<open>l\<close> has elapsed and
  another worker has reclaimed the schedule for a positive time, then after any further calls that
  only write leases later than \<open>l\<close> (a clock that steps back could write \<open>l\<close> again), each of the four acknowledgements with \<open>l\<close> reports
  \<open>Ok(false)\<close> and leaves the store as it is.
\<close>

theorem stale_lease_fenced:
  assumes "store_ok m" and "m i = Some r" and "leased_until r = Some l"
    and "distinct ks" and "0 < d" and "claims i (CClaim ks now b d) m"
    and "list_all (leases_after l) cs"
  shows "let m' = fold exec cs (exec (CClaim ks now b d) m) in
     mem_mark_delivered i l m' = (Inr False, m')
     \<and> mem_reschedule i t l m' = (Inr False, m')
     \<and> mem_mark_failed clock i delay err l m' = (Inr False, m')
     \<and> mem_mark_dead_lettered clock i err l m' = (Inr False, m')"
proof -
  have "claimable now r"
    using assms(6,1) by (rule claims_claimable) (use assms in auto)
  then have "l \<le> now" using assms(3) by (simp add: claimable_def lease_free_def)
  then have "not_leased i l (exec (CClaim ks now b d) m)"
    using exec_claim_row [OF assms(1,4), of now b d i] assms(2,5,6)
    by (simp del: exec.simps claims.simps add: not_leased_def)
  then have "fenced_pending (fold exec cs (exec (CClaim ks now b d) m)) i l = None"
    using assms(7) by (intro not_leased_fenced run_not_leased)
  then show ?thesis
    by (simp add: Let_def mem_mark_delivered_def mem_reschedule_def mem_mark_failed_def
        mem_mark_dead_lettered_def)
qed

lemma sample_leased_claims:
  "store_ok sample_leased_map" "claims 1 (CClaim [1] 30 9 5) sample_leased_map"
  by (simp_all add: store_ok_def row_ok_def sample_defs mem_claim_due_def systime_checked_add_def
      systime_max_def nanos_per_sec_def claimable_def lease_free_def claimed_ids_def occurrence_of_def)

theorem stale_lease_fenced_witness:
  "let m' = fold exec [CPause 1 True, CResume 1 None] (exec (CClaim [1] 30 9 5) sample_leased_map) in
   mem_mark_delivered 1 20 m' = (Inr False, m')"
  using stale_lease_fenced [OF sample_leased_claims(1) _ _ _ _ sample_leased_claims(2),
      of "claim_row 20 (fresh_row (sample_message 1 10) 2)" 20 "[CPause 1 True, CResume 1 None]"]
  by (simp del: exec.simps fold_simps add: Let_def sample_leased_map_def)

text \<open>
  C30. Poison occurrences are bounded. However its workers crash, fail or compete, a schedule
  is claimed at most as many times as its attempt budget still allows, until a call starts a
  new occurrence or a new life of that schedule. The attempt is counted when it is claimed.
\<close>

theorem poison_bounded:
  assumes "store_ok m" and "m i = Some r" and "list_all call_wf cs"
    and "list_all (\<lambda>c. \<not> resets i c) cs"
  shows "claim_count i cs m \<le> unat (max_attempts r) - unat (attempts r)"
  using run_budget [OF assms] by simp

theorem poison_bounded_witness:
  "claim_count 1 [CClaim [1] 30 9 5, CClaim [1] 40 9 5, CClaim [1] 50 9 5] sample_map \<le> 2"
  using poison_bounded [of sample_map 1 "fresh_row (sample_message 1 10) 2"
      "[CClaim [1] 30 9 5, CClaim [1] 40 9 5, CClaim [1] 50 9 5]"]
  by (simp del: claim_count.simps add: sample_map_def)
    (simp del: claim_count.simps add: store_ok_def row_ok_def sample_defs)

text \<open>
  C33. No pending occurrence is stuck. Take a pending schedule that is due and whose lease is
  free, and a poll cycle that sweeps at the instant \<open>t\<close> and claims at \<open>now\<close>, not earlier, for a lease
  whose end can be represented. If the budget of the schedule is spent, the sweep dead-letters it.
  Otherwise the claim hands it out, unless its batch is smaller than the store and filled up with other
  schedules.
\<close>

theorem pending_not_stuck:
  assumes ok: "store_ok m" and ks: "key_order ks m" "key_order ks' m" and row: "m i = Some r"
    and pend: "status r = Pending" "scheduled_for (message r) \<le> now" "lease_free t r" "t \<le> now"
    and fits: "now + int d \<le> systime_max"
  shows "let m' = exec (CSweep t ks) m; claim = CClaim ks' now b d in
    if attempts r < max_attempts r
    then m' i = Some r \<and> (claims i claim m' \<or> unat b < length ks' \<and> card {j. claims j claim m'} = unat b)
    else \<exists>r'. m' i = Some r' \<and> status r' = DeadLettered"
proof -
  define m' where "m' = exec (CSweep t ks) m"
  let ?picks = "claim_picks now (unat b) ks' m'"
  have dist: "distinct ks" "distinct ks'" and mem: "i \<in> set ks" "i \<in> set ks'"
    using ks row by (auto simp: key_order_def)
  have m'_i: "m' i = (if row_sweepable t m i then Some (sweep_row t r) else Some r)"
    unfolding m'_def exec_sweep_row [OF dist(1)] using mem row by simp
  have ok': "store_ok m'" unfolding m'_def using ok by (rule exec_ok)
  have claims: "claims j (CClaim ks' now b d) m' \<longleftrightarrow> j \<in> set ?picks" for j
    using claims_iff [OF ok' dist(2), of j now b d] fits by (simp del: claims.simps add: systime_checked_add_def)
  have card: "card (set ?picks) = length ?picks"
    using dist(2) by (intro distinct_card) (simp add: claim_picks_def)
  show ?thesis
  proof (cases "attempts r < max_attempts r")
    case True
    then have keep: "m' i = Some r" using m'_i row by (auto simp: row_sweepable_def sweepable_def)
    have "row_claimable now m' i"
      using True pend keep by (auto simp: row_claimable_def claimable_def lease_free_def split: option.splits)
    then have cand: "i \<in> set (filter (row_claimable now m') ks')" using mem(2) by simp
    have "unat b < length ks' \<and> length ?picks = unat b" if "i \<notin> set ?picks"
    proof -
      have lt: "unat b < length (filter (row_claimable now m') ks')"
        using that cand by (auto simp: claim_picks_def not_le [symmetric])
      then show ?thesis using less_le_trans [OF lt length_filter_le] by (simp add: claim_picks_def)
    qed
    then show ?thesis
      using True keep card by (auto simp del: claims.simps exec.simps simp: m'_def [symmetric] Let_def claims)
  next
    case False
    then show ?thesis
      using m'_i row pend
      by (auto simp del: exec.simps claims.simps simp: not_less m'_def [symmetric] Let_def row_sweepable_def
          sweepable_def)
  qed
qed

theorem pending_not_stuck_witness:
  "claims 1 (CClaim [1] 30 9 5) (exec (CSweep 25 [1]) sample_leased_map)"
  using pending_not_stuck [of sample_leased_map "[1]" "[1]" 1
      "claim_row 20 (fresh_row (sample_message 1 10) 2)" 30 25 5 9] sample_leased_claims(1)
  by (simp del: exec.simps claims.simps add: sample_leased_map_def key_order_def Let_def)
    (simp del: exec.simps claims.simps add: sample_defs lease_free_def systime_max_def
      nanos_per_sec_def)

text \<open>
  The operator's listing. \<open>list_pending\<close> returns exactly the snapshots of the pending
  and paused schedules up to \<open>limit\<close>, each once, earliest first, and what the limit cuts
  off is never due earlier than what is shown.
\<close>

theorem list_pending_correct:
  assumes "store_ok m" and "key_order ks m" and "mem_list_pending ks limit m = (Inr out, m')"
  shows "m' = m \<and> length out \<le> unat limit
    \<and> sorted_wrt (\<lambda>a b. snap_scheduled_for a \<le> snap_scheduled_for b) out
    \<and> (\<exists>rest. mset out + mset rest
          = image_mset to_snapshot (mset_set {r \<in> ran m. \<not> is_terminal (status r)})
        \<and> (\<forall>a \<in> set out. \<forall>b \<in> set rest. snap_scheduled_for a \<le> snap_scheduled_for b)
        \<and> (length out < unat limit \<longrightarrow> rest = []))"
proof -
  let ?le = "\<lambda>a b :: schedule_snapshot. snap_scheduled_for a \<le> snap_scheduled_for b"
  let ?live = "\<lambda>r. status r = Pending \<or> status r = Paused"
  define rows where "rows = filter ?live (row_values ks m)"
  define xs where "xs = sort_by ?le (map to_snapshot rows)"
  have out: "out = take (unat limit) xs" "m' = m"
    using assms(3) by (auto simp: mem_list_pending_def Let_def xs_def rows_def)
  have "distinct rows" "set rows = {r \<in> ran m. \<not> is_terminal (status r)}"
    using row_values_mset [OF assms(1,2)] by (auto simp: rows_def not_terminal_iff)
  then have "mset rows = mset_set {r \<in> ran m. \<not> is_terminal (status r)}"
    by (metis mset_set_set)
  then have xs: "mset xs = image_mset to_snapshot (mset_set {r \<in> ran m. \<not> is_terminal (status r)})"
    by (simp add: xs_def)
  have sorted: "sorted_wrt ?le xs"
    unfolding xs_def by (rule sorted_sort_by [OF scheduled_order_total])
  have "mset out + mset (drop (unat limit) xs) = mset xs"
    unfolding out(1) by (metis append_take_drop_id mset_append)
  moreover have "\<forall>a \<in> set out. \<forall>b \<in> set (drop (unat limit) xs). ?le a b"
    unfolding out(1) using sorted_wrt_take_before [OF sorted] by blast
  moreover have "sorted_wrt ?le out" unfolding out(1) using sorted by (rule sorted_wrt_take)
  ultimately show ?thesis
    using out xs by (intro conjI exI [of _ "drop (unat limit) xs"]) simp_all
qed

theorem list_pending_correct_witness:
  "\<exists>out. mem_list_pending [1] 1 sample_map = (Inr out, sample_map) \<and> length out \<le> 1"
proof -
  have ok: "store_ok sample_map" "key_order [1] sample_map"
    by (simp_all add: store_ok_def row_ok_def sample_defs key_order_def)
  obtain out m' where out: "mem_list_pending [1] 1 sample_map = (Inr out, m')"
    by (simp add: mem_list_pending_def Let_def)
  show ?thesis using list_pending_correct [OF ok out] out by simp
qed

end
