(* ===== verification/Sched_Worker.thy ===== *)
theory Sched_Worker
  imports Sched_Lifecycle
begin

text \<open>
  The scheduler's active parts: the validated configuration (\<open>builder.rs\<close>), the polling
  worker (\<open>worker.rs\<close>), the three sinks (\<open>mediator_sink.rs\<close>, \<open>bus_sink.rs\<close>,
  \<open>outbox_sink.rs\<close>) and the control handle (\<open>control.rs\<close>).

  The worker is written against the record \<open>schedule_store\<close> of store operations and a sink.
  A sink threads its own state \<open>'k\<close>. The timer that bounds a dispatch decides whether the
  sink finished in time: a dispatch yields \<open>None\<close> when the timer fired first, whatever the
  sink had done by then. The clock reads and the jitter draw of settling one occurrence are
  the record \<open>tick\<close>. What the worker guarantees over any store that keeps the store's
  contract is proved once, in \<open>schedule_store_laws\<close>.
\<close>

section \<open>Configuration\<close>

record worker_config =
  poll_interval :: duration
  batch_size :: usize
  lease :: duration
  retry_base_delay :: duration
  retry_max_delay :: duration
  jitter :: bool
  min_cycle_delay :: duration
  dispatch_timeout :: duration

definition worker_config_default :: worker_config where
  "worker_config_default =
     \<lparr>poll_interval = from_millis 100, batch_size = 10, lease = from_secs 300,
      retry_base_delay = from_secs 1, retry_max_delay = from_secs 300, jitter = True,
      min_cycle_delay = from_millis 5, dispatch_timeout = from_secs 30\<rparr>"

datatype builder_setter =
    SetPollInterval duration
  | SetBatchSize usize
  | SetLease duration
  | SetRetryBaseDelay duration
  | SetRetryMaxDelay duration
  | SetJitter bool
  | SetMinCycleDelay duration
  | SetDispatchTimeout duration

fun apply_setter :: "builder_setter \<Rightarrow> worker_config \<Rightarrow> worker_config" where
  "apply_setter (SetPollInterval v) c = c\<lparr>poll_interval := v\<rparr>"
| "apply_setter (SetBatchSize v) c = c\<lparr>batch_size := v\<rparr>"
| "apply_setter (SetLease v) c = c\<lparr>lease := v\<rparr>"
| "apply_setter (SetRetryBaseDelay v) c = c\<lparr>retry_base_delay := v\<rparr>"
| "apply_setter (SetRetryMaxDelay v) c = c\<lparr>retry_max_delay := v\<rparr>"
| "apply_setter (SetJitter v) c = c\<lparr>jitter := v\<rparr>"
| "apply_setter (SetMinCycleDelay v) c = c\<lparr>min_cycle_delay := v\<rparr>"
| "apply_setter (SetDispatchTimeout v) c = c\<lparr>dispatch_timeout := v\<rparr>"

definition build :: "worker_config \<Rightarrow> (scheduler_error, worker_config) result" where
  "build c =
     (if batch_size c = 0 then Inl (InvalidConfiguration BatchSizeZero)
      else if poll_interval c = 0 then Inl (InvalidConfiguration PollIntervalZero)
      else if lease c = 0 then Inl (InvalidConfiguration LeaseZero)
      else if dispatch_timeout c = 0 then Inl (InvalidConfiguration DispatchTimeoutZero)
      else if retry_base_delay c = 0 then Inl (InvalidConfiguration RetryBaseDelayZero)
      else if retry_max_delay c < retry_base_delay c then Inl (InvalidConfiguration RetryMaxBelowBase)
      else case duration_checked_mul (dispatch_timeout c) (usize_to_u32_saturating (batch_size c)) of
        Some minimum_lease \<Rightarrow>
          if minimum_lease \<le> lease c then Inr c
          else Inl (InvalidConfiguration (LeaseTooShort (lease c) minimum_lease))
      | None \<Rightarrow> Inl (InvalidConfiguration LeaseProductOverflow))"

text \<open>\<open>SchedulerBuilder::new(...)\<close>, the chained setters, \<open>build()\<close>.\<close>

definition builder_run :: "builder_setter list \<Rightarrow> (scheduler_error, worker_config) result" where
  "builder_run setters = build (fold apply_setter setters worker_config_default)"

section \<open>Retry backoff\<close>

text \<open>
  \<open>draw n\<close> is the value \<open>fastrand::u64(0..=n)\<close> returned; delays are nanoseconds.
\<close>

definition next_retry_delay :: "(nat \<Rightarrow> nat) \<Rightarrow> worker_config \<Rightarrow> u32 \<Rightarrow> duration" where
  "next_retry_delay draw c n =
     (let factor = (case u32_one_checked_shl n of Some f \<Rightarrow> f | None \<Rightarrow> - 1);
          capped = min (duration_saturating_mul (retry_base_delay c) factor) (retry_max_delay c)
      in if jitter c then draw (if capped < 2 ^ 64 then capped else 2 ^ 64 - 1) else capped)"

section \<open>Sinks\<close>

type_synonym 'k sink = "scheduled_message \<Rightarrow> 'k \<Rightarrow> (scheduler_error, unit) result \<times> 'k"

text \<open>A sink under the dispatch timer: \<open>None\<close> when the timer fired first.\<close>

type_synonym 'k timed_sink =
  "scheduled_message \<Rightarrow> 'k \<Rightarrow> (scheduler_error, unit) result option \<times> 'k"

definition typed_publisher ::
  "(byte list \<Rightarrow> (string, 'n) result) \<Rightarrow> ('n \<Rightarrow> 'k \<Rightarrow> (string, unit) result \<times> 'k) \<Rightarrow>
   byte list \<Rightarrow> 'k \<Rightarrow> (scheduler_error, unit) result \<times> 'k"
where
  "typed_publisher decode publish bytes k =
     (case decode bytes of
        Inl e \<Rightarrow> (Inl (Serialization e), k)
      | Inr notification \<Rightarrow>
          let (res, k') = publish notification k in (map_err (Dispatch \<circ> SinkFailure) res, k'))"

definition mediator_sink_register ::
  "string \<Rightarrow> (byte list \<Rightarrow> 'k \<Rightarrow> (scheduler_error, unit) result \<times> 'k) \<Rightarrow>
   (string \<rightharpoonup> (byte list \<Rightarrow> 'k \<Rightarrow> (scheduler_error, unit) result \<times> 'k)) \<Rightarrow>
   (string \<rightharpoonup> (byte list \<Rightarrow> 'k \<Rightarrow> (scheduler_error, unit) result \<times> 'k))"
where
  "mediator_sink_register ev publisher publishers = publishers(ev \<mapsto> publisher)"

definition mediator_sink_dispatch ::
  "(string \<rightharpoonup> (byte list \<Rightarrow> 'k \<Rightarrow> (scheduler_error, unit) result \<times> 'k)) \<Rightarrow> 'k sink"
where
  "mediator_sink_dispatch publishers msg k =
     (case publishers (event_type msg) of
        None \<Rightarrow> (Inl (Dispatch (UnregisteredEventType (event_type msg))), k)
      | Some publisher \<Rightarrow> publisher (payload msg) k)"

definition bus_sink_dispatch ::
  "(uuid \<Rightarrow> byte list \<Rightarrow> uuid) \<Rightarrow>
   (string \<Rightarrow> uuid \<Rightarrow> string \<Rightarrow> byte list \<Rightarrow> 'k \<Rightarrow> (string, unit) result \<times> 'k) \<Rightarrow> 'k sink"
where
  "bus_sink_dispatch uuid_v5 publish_raw msg k =
     (case msg_target msg of
        Bus routing_key \<Rightarrow>
          (let (res, k') = publish_raw routing_key (occurrence_id uuid_v5 msg) (event_type msg)
                             (payload msg) k
           in (map_err (Dispatch \<circ> SinkFailure) res, k'))
      | _ \<Rightarrow> (Inl (Dispatch NonBusTarget), k))"

definition outbox_sink_dispatch ::
  "(uuid \<Rightarrow> byte list \<Rightarrow> uuid) \<Rightarrow>
   (uuid \<Rightarrow> string \<Rightarrow> byte list \<Rightarrow> 'k \<Rightarrow> (string, bool) result \<times> 'k) \<Rightarrow> 'k sink"
where
  "outbox_sink_dispatch uuid_v5 enqueue_idempotent msg k =
     (let (res, k') = enqueue_idempotent (occurrence_id uuid_v5 msg) (event_type msg)
                        (payload msg) k
      in (map_err (Dispatch \<circ> SinkFailure) (rbind res (\<lambda>_. Inr ())), k'))"

section \<open>Settling an occurrence\<close>

record tick =
  tk_guard :: systime
  tk_next :: systime
  tk_store :: systime
  tk_draw :: "nat \<Rightarrow> nat"

text \<open>What is fixed for a worker: its configuration, the cron engine and how an error prints.\<close>

record worker_env =
  we_config :: worker_config
  we_cron :: cron_engine
  we_show_uuid :: "uuid \<Rightarrow> string"
  we_show_reason :: "configuration_reason \<Rightarrow> string"

definition dispatch_lag :: "systime \<Rightarrow> systime \<Rightarrow> duration" where
  "dispatch_lag due now = (case duration_since now due of Inr d \<Rightarrow> d | Inl _ \<Rightarrow> 0)"

definition dispatch :: "worker_config \<Rightarrow> 'k timed_sink \<Rightarrow> 'k sink" where
  "dispatch c sink msg k =
     (case sink msg k of
        (Some res, k') \<Rightarrow> (res, k')
      | (None, k') \<Rightarrow> (Inl (Dispatch (DispatchTimedOut (dispatch_timeout c))), k'))"

definition drop_applied :: "(scheduler_error, bool) result \<times> 's \<Rightarrow> (scheduler_error, unit) result \<times> 's" where
  "drop_applied p = (rbind (fst p) (\<lambda>_. Inr ()), snd p)"

definition on_success ::
  "worker_env \<Rightarrow> 's schedule_store \<Rightarrow> tick \<Rightarrow> leased_occurrence \<Rightarrow> (unit, 's) store_op"
where
  "on_success w ops tk oc s =
     (let msg = lo_message oc; l = lo_leased_until oc in
      case msg_trigger msg of
        Delay _ \<Rightarrow> drop_applied (st_mark_delivered ops (schedule_id msg) l s)
      | Cron expression \<Rightarrow>
          (case next_due (we_cron w) expression (tk_next tk) (scheduled_for msg) of
             Inl e \<Rightarrow> (Inl e, s)
           | Inr (Some t) \<Rightarrow> drop_applied (st_reschedule ops (schedule_id msg) t l s)
           | Inr None \<Rightarrow> drop_applied (st_mark_delivered ops (schedule_id msg) l s)))"

definition on_failure ::
  "worker_env \<Rightarrow> 's schedule_store \<Rightarrow> tick \<Rightarrow> leased_occurrence \<Rightarrow> scheduler_error \<Rightarrow>
   (unit, 's) store_op"
where
  "on_failure w ops tk oc err s =
     (let sid = schedule_id (lo_message oc);
          reason = scheduler_error_display (we_show_uuid w) (we_show_reason w) err;
          l = lo_leased_until oc
      in if is_exhausted oc
         then drop_applied (st_mark_dead_lettered ops (tk_store tk) sid reason l s)
         else drop_applied (st_mark_failed ops (tk_store tk) sid
                (next_retry_delay (tk_draw tk) (we_config w) (lo_attempts oc)) reason l s))"

definition settle ::
  "worker_env \<Rightarrow> 's schedule_store \<Rightarrow> 'k timed_sink \<Rightarrow> tick \<Rightarrow> leased_occurrence \<Rightarrow>
   's \<times> 'k \<Rightarrow> (scheduler_error, unit) result \<times> ('s \<times> 'k)"
where
  "settle w ops sink tk oc st =
     (if lo_leased_until oc \<le> tk_guard tk then (Inr (), st)
      else
        case dispatch (we_config w) sink (lo_message oc) (snd st) of
          (Inr _, k') \<Rightarrow> (let (r, s') = on_success w ops tk oc (fst st) in (r, (s', k')))
        | (Inl err, k') \<Rightarrow> (let (r, s') = on_failure w ops tk oc err (fst st) in (r, (s', k'))))"

section \<open>The polling loop\<close>

fun settle_all ::
  "worker_env \<Rightarrow> 's schedule_store \<Rightarrow> 'k timed_sink \<Rightarrow> (nat \<Rightarrow> tick) \<Rightarrow> leased_occurrence list \<Rightarrow>
   's \<times> 'k \<Rightarrow> 's \<times> 'k"
where
  "settle_all w ops sink ticks [] st = st"
| "settle_all w ops sink ticks (oc # ocs) st =
     settle_all w ops sink (\<lambda>n. ticks (Suc n)) ocs (snd (settle w ops sink (ticks 0) oc st))"

record cycle_env =
  ce_sweep_clock :: systime
  ce_sweep_keys :: "uuid list"
  ce_now :: systime
  ce_claim_keys :: "uuid list"
  ce_ticks :: "nat \<Rightarrow> tick"

definition poll_cycle ::
  "worker_env \<Rightarrow> 's schedule_store \<Rightarrow> 'k timed_sink \<Rightarrow> cycle_env \<Rightarrow> 's \<times> 'k \<Rightarrow>
   (scheduler_error, nat) result \<times> ('s \<times> 'k)"
where
  "poll_cycle w ops sink ce st =
     (case st_dead_letter_exhausted ops (ce_sweep_clock ce) (ce_sweep_keys ce) (fst st) of
        (Inl e, s\<^sub>1) \<Rightarrow> (Inl e, (s\<^sub>1, snd st))
      | (Inr swept, s\<^sub>1) \<Rightarrow>
          (case st_claim_due ops (ce_claim_keys ce) (ce_now ce) (batch_size (we_config w))
                  (lease (we_config w)) s\<^sub>1 of
             (Inl e, s\<^sub>2) \<Rightarrow> (Inl e, (s\<^sub>2, snd st))
           | (Inr claimed, s\<^sub>2) \<Rightarrow>
               (Inr (length claimed), settle_all w ops sink (ce_ticks ce) claimed (s\<^sub>2, snd st))))"

text \<open>The wait between two cycles; \<open>None\<close> polls again at once.\<close>

definition cycle_wait :: "worker_config \<Rightarrow> (scheduler_error, nat) result \<Rightarrow> duration option" where
  "cycle_wait c res =
     (case res of
        Inr 0 \<Rightarrow> Some (poll_interval c)
      | Inr (Suc _) \<Rightarrow> if min_cycle_delay c \<noteq> 0 then Some (min_cycle_delay c) else None
      | Inl _ \<Rightarrow> Some (poll_interval c))"

text \<open>
  A run of the worker: one environment per cycle until the cancellation token is seen, with
  the flag whether the token fired during the wait that follows. The trace of waits is
  returned beside the state.
\<close>

fun run ::
  "worker_env \<Rightarrow> 's schedule_store \<Rightarrow> 'k timed_sink \<Rightarrow> (cycle_env \<times> bool) list \<Rightarrow> 's \<times> 'k \<Rightarrow>
   duration option list \<times> ('s \<times> 'k)"
where
  "run w ops sink [] st = ([], st)"
| "run w ops sink ((ce, cancelled) # ces) st =
     (let (res, st') = poll_cycle w ops sink ce st; wait = cycle_wait (we_config w) res in
      if wait \<noteq> None \<and> cancelled then ([wait], st')
      else let (waits, st'') = run w ops sink ces st' in (wait # waits, st''))"

section \<open>The control handle\<close>

definition control_inspect :: "'s schedule_store \<Rightarrow> uuid \<Rightarrow> (schedule_snapshot option, 's) store_op" where
  "control_inspect ops i s = st_inspect ops i s"

definition control_pause :: "'s schedule_store \<Rightarrow> uuid \<Rightarrow> (unit, 's) store_op" where
  "control_pause ops i s = st_set_paused ops i True s"

definition control_cancel :: "'s schedule_store \<Rightarrow> uuid \<Rightarrow> (unit, 's) store_op" where
  "control_cancel ops i s =
     (case st_inspect ops i s of
        (Inl e, s') \<Rightarrow> (Inl e, s')
      | (Inr None, s') \<Rightarrow> (Inl (ScheduleNotFound i), s')
      | (Inr (Some snapshot), s') \<Rightarrow>
          if is_terminal (snap_status snapshot) then (Inr (), s') else st_cancel ops i s')"

definition control_resume ::
  "cron_engine \<Rightarrow> 's schedule_store \<Rightarrow> systime \<Rightarrow> uuid \<Rightarrow> (unit, 's) store_op"
where
  "control_resume eng ops now i s =
     (case st_inspect ops i s of
        (Inl e, s') \<Rightarrow> (Inl e, s')
      | (Inr None, s') \<Rightarrow> (Inl (ScheduleNotFound i), s')
      | (Inr (Some snap), s') \<Rightarrow>
          if snap_status snap \<noteq> Paused then (Inr (), s')
          else case snap_trigger snap of
            Cron expr \<Rightarrow>
              if snap_scheduled_for snap \<le> now then
                (case next_occurrence eng expr now of
                   Inl e \<Rightarrow> (Inl e, s')
                 | Inr (Some t) \<Rightarrow> st_resume ops i (Some t) s'
                 | Inr None \<Rightarrow> (Inr (), s'))
              else st_resume ops i None s'
          | Delay _ \<Rightarrow> st_resume ops i None s')"

lemmas control_defs = control_inspect_def control_pause_def control_cancel_def control_resume_def

section \<open>What settling does, over any store that keeps the contract\<close>

text \<open>The row an occurrence is left with, given the result of its dispatch.\<close>

definition settled_row ::
  "worker_env \<Rightarrow> tick \<Rightarrow> leased_occurrence \<Rightarrow> (scheduler_error, unit) result \<Rightarrow>
   stored_schedule \<Rightarrow> stored_schedule"
where
  "settled_row w tk oc res r =
     (case res of
        Inr _ \<Rightarrow>
          (case msg_trigger (lo_message oc) of
             Delay _ \<Rightarrow> deliver_row r
           | Cron expression \<Rightarrow>
               (case next_due (we_cron w) expression (tk_next tk) (scheduled_for (lo_message oc)) of
                  Inl _ \<Rightarrow> r
                | Inr (Some t) \<Rightarrow> reschedule_row t r
                | Inr None \<Rightarrow> deliver_row r))
      | Inl err \<Rightarrow>
          (let reason = scheduler_error_display (we_show_uuid w) (we_show_reason w) err in
           if is_exhausted oc then dead_letter_row (tk_store tk) reason r
           else case systime_checked_add (tk_store tk)
                       (next_retry_delay (tk_draw tk) (we_config w) (lo_attempts oc)) of
             None \<Rightarrow> r
           | Some t \<Rightarrow> fail_row t reason r))"

text \<open>The results of dispatching a batch in order; an occurrence whose lease is over by its turn has none.\<close>

fun dispatch_trace ::
  "worker_config \<Rightarrow> 'k timed_sink \<Rightarrow> (nat \<Rightarrow> tick) \<Rightarrow> leased_occurrence list \<Rightarrow> 'k \<Rightarrow>
   (scheduler_error, unit) result option list"
where
  "dispatch_trace c sink ticks [] k = []"
| "dispatch_trace c sink ticks (oc # ocs) k =
     (if lo_leased_until oc \<le> tk_guard (ticks 0) then None # dispatch_trace c sink (\<lambda>n. ticks (Suc n)) ocs k
      else let (res, k') = dispatch c sink (lo_message oc) k
        in Some res # dispatch_trace c sink (\<lambda>n. ticks (Suc n)) ocs k')"

lemma dispatch_trace_skips:
  "j < length ocs \<Longrightarrow> dispatch_trace c sink ticks ocs k ! j = None \<longleftrightarrow> lo_leased_until (ocs ! j) \<le> tk_guard (ticks j)"
proof (induction ocs arbitrary: ticks k j)
  case (Cons oc ocs)
  then show ?case by (cases j) (auto simp: case_prod_beta Let_def)
qed simp

abbreviation oc_id :: "leased_occurrence \<Rightarrow> uuid" where
  "oc_id oc \<equiv> schedule_id (lo_message oc)"

lemma fenced_update_frame:
  "fenced_update m i l f res m' \<Longrightarrow> k \<noteq> i \<Longrightarrow> m' k = m k"
  by (auto simp: fenced_update_def split: option.splits)

lemma fenced_update_stale:
  "fenced_update m i l f res m' \<Longrightarrow> fenced_pending m i l = None \<Longrightarrow> m' = m"
  by (simp add: fenced_update_def)

lemma fenced_update_applied:
  assumes "fenced_update m i l f res m'" and "fenced_pending m i l = Some r"
    and "f r \<noteq> None \<longrightarrow> is_ok res"
  shows "m' = m(i \<mapsto> (case f r of None \<Rightarrow> r | Some r' \<Rightarrow> r'))"
proof -
  have "m i = Some r" using assms(2) by (auto simp: fenced_pending_def split: option.splits if_splits)
  then show ?thesis
    using assms by (cases "f r") (auto simp: fenced_update_def fun_upd_idem)
qed

lemma fenced_pendingD: "fenced_pending m i l = Some r \<Longrightarrow> m i = Some r"
  by (auto simp: fenced_pending_def split: option.splits if_splits)

lemma fenced_pending_upd_other:
  "i \<noteq> j \<Longrightarrow> fenced_pending (m(j \<mapsto> r)) i l = fenced_pending m i l"
  by (simp add: fenced_pending_def)

context schedule_store_laws
begin

lemma acks_fenced:
  "\<exists>f res. fenced_update (rows s) i l f res (rows (snd (st_mark_delivered ops i l s)))"
  "\<exists>f res. fenced_update (rows s) i l f res (rows (snd (st_reschedule ops i t l s)))"
  "\<exists>f res. fenced_update (rows s) i l f res (rows (snd (st_mark_failed ops clock i d err l s)))"
  "\<exists>f res. fenced_update (rows s) i l f res (rows (snd (st_mark_dead_lettered ops clock i err l s)))"
  using delivered_law [OF surjective_pairing] reschedule_law [OF surjective_pairing]
    failed_law [OF surjective_pairing] dead_lettered_law [OF surjective_pairing]
  by iprover+

lemma on_success_update:
  assumes "on_success w ops tk oc s = (res, s')"
  shows "rows s' = rows s
    \<or> (\<exists>f res'. fenced_update (rows s) (oc_id oc) (lo_leased_until oc) f res' (rows s'))"
proof (cases "s' = s")
  case False
  with assms consider
      "s' = snd (st_mark_delivered ops (oc_id oc) (lo_leased_until oc) s)"
    | t where "s' = snd (st_reschedule ops (oc_id oc) t (lo_leased_until oc) s)"
    by (auto simp: on_success_def Let_def drop_applied_def
        split: trigger.splits sum.splits option.splits)
  then show ?thesis by cases (simp_all add: acks_fenced)
qed simp

lemma on_failure_update:
  assumes "on_failure w ops tk oc err s = (res, s')"
  shows "\<exists>f res'. fenced_update (rows s) (oc_id oc) (lo_leased_until oc) f res' (rows s')"
proof -
  from assms consider
      e where "s' = snd (st_mark_dead_lettered ops (tk_store tk) (oc_id oc) e (lo_leased_until oc) s)"
    | d e where "s' = snd (st_mark_failed ops (tk_store tk) (oc_id oc) d e (lo_leased_until oc) s)"
    by (auto simp: on_failure_def Let_def drop_applied_def split: if_splits)
  then show ?thesis by cases (simp_all add: acks_fenced)
qed

lemma settle_update:
  assumes "settle w ops sink tk oc (s, k) = (res, (s', k'))"
  shows "rows s' = rows s \<or> (\<exists>f res'. fenced_update (rows s) (oc_id oc) (lo_leased_until oc) f res' (rows s'))"
proof (cases "lo_leased_until oc \<le> tk_guard tk")
  case True
  with assms show ?thesis by (simp add: settle_def)
next
  case False
  obtain dres k1 where d: "dispatch (we_config w) sink (lo_message oc) k = (dres, k1)"
    by fastforce
  show ?thesis
  proof (cases dres)
    case (Inl err)
    with False d assms have "on_failure w ops tk oc err s = (res, s')"
      by (auto simp: settle_def split: prod.splits)
    then show ?thesis using on_failure_update by blast
  next
    case (Inr u)
    with False d assms have "on_success w ops tk oc s = (res, s')"
      by (auto simp: settle_def split: prod.splits)
    then show ?thesis by (rule on_success_update)
  qed
qed

lemma settle_frame:
  "settle w ops sink tk oc (s, k) = (res, (s', k')) \<Longrightarrow> i \<noteq> oc_id oc \<Longrightarrow> rows s' i = rows s i"
  by (drule settle_update) (elim disjE exE, simp, rule fenced_update_frame)

lemma settle_stale:
  "settle w ops sink tk oc (s, k) = (res, (s', k')) \<Longrightarrow>
   fenced_pending (rows s) (oc_id oc) (lo_leased_until oc) = None \<Longrightarrow> rows s' = rows s"
  by (drule settle_update) (elim disjE exE, simp, rule fenced_update_stale)

lemma settle_all_frame:
  "i \<notin> oc_id ` set ocs \<Longrightarrow> rows (fst (settle_all w ops sink ticks ocs st)) i = rows (fst st) i"
proof (induction ocs arbitrary: ticks st)
  case (Cons oc ocs)
  obtain res s' k' where st: "settle w ops sink (ticks 0) oc (fst st, snd st) = (res, (s', k'))"
    by (rule prod_cases3)
  then have "rows s' i = rows (fst st) i"
    by (rule settle_frame) (use Cons.prems in simp)
  then show ?case using Cons st by simp
qed simp

end

text \<open>A store whose acknowledgements only fail for a reason of their own.\<close>

locale reliable_schedule_store = schedule_store_laws +
  assumes delivered_ok: "is_ok (fst (st_mark_delivered ops i l s))"
    and reschedule_ok: "is_ok (fst (st_reschedule ops i t l s))"
    and dead_lettered_ok: "is_ok (fst (st_mark_dead_lettered ops clock i err l s))"
    and failed_ok:
      "systime_checked_add clock d \<noteq> None \<Longrightarrow> is_ok (fst (st_mark_failed ops clock i d err l s))"
begin

lemma delivered_applied:
  "fenced_pending (rows s) i l = Some r \<Longrightarrow>
   rows (snd (st_mark_delivered ops i l s)) = (rows s)(i \<mapsto> deliver_row r)"
  by (drule fenced_update_applied [OF delivered_law [OF surjective_pairing]]) (simp_all add: delivered_ok)

lemma reschedule_applied:
  "fenced_pending (rows s) i l = Some r \<Longrightarrow>
   rows (snd (st_reschedule ops i t l s)) = (rows s)(i \<mapsto> reschedule_row t r)"
  by (drule fenced_update_applied [OF reschedule_law [OF surjective_pairing]]) (simp_all add: reschedule_ok)

lemma dead_lettered_applied:
  "fenced_pending (rows s) i l = Some r \<Longrightarrow>
   rows (snd (st_mark_dead_lettered ops clock i err l s)) = (rows s)(i \<mapsto> dead_letter_row clock err r)"
  by (drule fenced_update_applied [OF dead_lettered_law [OF surjective_pairing]]) (simp_all add: dead_lettered_ok)

lemma failed_applied:
  assumes "fenced_pending (rows s) i l = Some r"
  shows "rows (snd (st_mark_failed ops clock i d err l s)) =
    (rows s)(i \<mapsto> (case systime_checked_add clock d of None \<Rightarrow> r | Some t \<Rightarrow> fail_row t err r))"
proof -
  let ?f = "\<lambda>r. map_option (\<lambda>t. fail_row t err r) (systime_checked_add clock d)"
  have "rows (snd (st_mark_failed ops clock i d err l s)) =
      (rows s)(i \<mapsto> (case ?f r of None \<Rightarrow> r | Some r' \<Rightarrow> r'))"
    using failed_law [OF surjective_pairing] assms
    by (rule fenced_update_applied) (auto intro: failed_ok)
  then show ?thesis by (cases "systime_checked_add clock d") simp_all
qed

lemma settle_row:
  assumes fence: "fenced_pending (rows s) (oc_id oc) (lo_leased_until oc) = Some r"
    and live: "tk_guard tk < lo_leased_until oc"
    and d: "dispatch (we_config w) sink (lo_message oc) k = (res, k')"
  shows "\<exists>e s'. settle w ops sink tk oc (s, k) = (e, (s', k'))
    \<and> rows s' = (rows s)(oc_id oc \<mapsto> settled_row w tk oc res r)"
proof (cases res)
  case (Inl err)
  then show ?thesis
    using live d dead_lettered_applied [OF fence] failed_applied [OF fence]
    by (simp add: settle_def on_failure_def Let_def drop_applied_def settled_row_def)
next
  case (Inr u)
  have "(rows s)(oc_id oc \<mapsto> r) = rows s"
    using fenced_pendingD [OF fence] by (simp add: fun_upd_idem)
  with Inr show ?thesis
    using live d delivered_applied [OF fence] reschedule_applied [OF fence]
    by (simp add: settle_def on_success_def Let_def drop_applied_def settled_row_def
        split: trigger.split sum.split option.split)
qed

lemma settle_turn:
  assumes fence: "fenced_pending (rows s) (oc_id oc) (lo_leased_until oc) = Some r"
  obtains e s' k' res where "settle w ops sink tk oc (s, k) = (e, (s', k'))"
    "rows s' = (rows s)(oc_id oc \<mapsto> (case res of None \<Rightarrow> r | Some x \<Rightarrow> settled_row w tk oc x r))"
    "\<And>ticks ocs. ticks 0 = tk \<Longrightarrow> dispatch_trace (we_config w) sink ticks (oc # ocs) k
       = res # dispatch_trace (we_config w) sink (\<lambda>n. ticks (Suc n)) ocs k'"
proof (cases "tk_guard tk < lo_leased_until oc")
  case True
  obtain x k' where d: "dispatch (we_config w) sink (lo_message oc) k = (x, k')" by (rule prod.exhaust)
  obtain e s' where "settle w ops sink tk oc (s, k) = (e, (s', k'))" "rows s' = (rows s)(oc_id oc \<mapsto> settled_row w tk oc x r)"
    using settle_row [OF fence True d] by blast
  then show ?thesis using d True by (intro that [of e s' k' "Some x"]) auto
next
  case False
  have "(rows s)(oc_id oc \<mapsto> r) = rows s" using fenced_pendingD [OF fence] by (simp add: fun_upd_idem)
  then show ?thesis using False by (intro that [of "Inr ()" s k None]) (auto simp: settle_def)
qed

lemma settle_all_rows:
  assumes "distinct (map oc_id ocs)"
    and "\<And>j. j < length ocs \<Longrightarrow> fenced_pending (rows s) (oc_id (ocs ! j)) (lo_leased_until (ocs ! j)) = Some (r j)"
    and "j < length ocs"
  shows "rows (fst (settle_all w ops sink ticks ocs (s, k))) (oc_id (ocs ! j)) =
    Some (case dispatch_trace (we_config w) sink ticks ocs k ! j of
      None \<Rightarrow> r j | Some res \<Rightarrow> settled_row w (ticks j) (ocs ! j) res (r j))"
  using assms
proof (induction ocs arbitrary: ticks s k r j)
  case (Cons oc ocs)
  have "fenced_pending (rows s) (oc_id oc) (lo_leased_until oc) = Some (r 0)" using Cons.prems(2) [of 0] by simp
  then obtain e s' k' res where st: "settle w ops sink (ticks 0) oc (s, k) = (e, (s', k'))"
    and rows': "rows s' = (rows s)(oc_id oc \<mapsto> (case res of None \<Rightarrow> r 0 | Some x \<Rightarrow> settled_row w (ticks 0) oc x (r 0)))"
    and trace: "dispatch_trace (we_config w) sink ticks (oc # ocs) k = res # dispatch_trace (we_config w) sink (\<lambda>n. ticks (Suc n)) ocs k'"
    by (rule settle_turn [of s oc "r 0" w sink "ticks 0" k]) blast
  show ?case
  proof (cases j)
    case 0
    have "rows (fst (settle_all w ops sink (\<lambda>n. ticks (Suc n)) ocs (s', k'))) (oc_id oc)
        = rows s' (oc_id oc)"
      using Cons.prems(1) by (subst settle_all_frame) auto
    with st rows' show ?thesis unfolding trace 0 by (simp split: option.split)
  next
    case (Suc n)
    have "fenced_pending (rows s') (oc_id (ocs ! i)) (lo_leased_until (ocs ! i)) = Some (r (Suc i))"
      if "i < length ocs" for i
    proof -
      have "oc_id (ocs ! i) \<in> oc_id ` set ocs" using that by simp
      with Cons.prems(1) have "oc_id (ocs ! i) \<noteq> oc_id oc" by auto
      then show ?thesis
        using Cons.prems(2) [of "Suc i"] that rows' by (simp add: fenced_pending_upd_other)
    qed
    then have "rows (fst (settle_all w ops sink (\<lambda>n. ticks (Suc n)) ocs (s', k'))) (oc_id (ocs ! n))
        = Some (case dispatch_trace (we_config w) sink (\<lambda>n. ticks (Suc n)) ocs k' ! n of
            None \<Rightarrow> r (Suc n) | Some res \<Rightarrow> settled_row w (ticks (Suc n)) (ocs ! n) res (r (Suc n)))"
      using Cons.IH [of s' "\<lambda>n. r (Suc n)" n "\<lambda>n. ticks (Suc n)" k'] Cons.prems(1,3) Suc by simp
    with st show ?thesis unfolding trace Suc by (simp split: option.split)
  qed
qed simp

end

interpretation rel_mem: reliable_schedule_store in_memory_store "\<lambda>m. m"
  by unfold_locales (auto simp: store_defs split: option.splits)

section \<open>Configuration and backoff\<close>

lemma build_ok:
  "build c = Inr c' \<Longrightarrow> c' = c \<and> batch_size c \<noteq> 0 \<and> 0 < dispatch_timeout c \<and> 0 < retry_base_delay c
   \<and> 0 < lease c \<and> 0 < poll_interval c \<and> retry_base_delay c \<le> retry_max_delay c
   \<and> dispatch_timeout c * unat (usize_to_u32_saturating (batch_size c)) \<le> lease c"
  by (auto simp: build_def duration_checked_mul_def split: if_splits option.splits)




section \<open>What the worker holds after a claim\<close>

lemma claim_facts:
  assumes ok: "store_ok m" and ks: "key_order ks m"
    and claim: "mem_claim_due ks now b d m = (Inr cl, m')"
  shows "distinct (map oc_id cl)"
    and "i \<notin> oc_id ` set cl \<Longrightarrow> m' i = m i"
    and "oc \<in> set cl \<Longrightarrow> lo_leased_until oc = now + int d
      \<and> (\<exists>r. m' (oc_id oc) = Some r \<and> fenced_pending m' (oc_id oc) (lo_leased_until oc) = Some r
           \<and> lo_message oc = message r \<and> lo_attempts oc = attempts r)"
proof -
  obtain picks u where u: "systime_checked_add now d = Some u"
    and picks: "distinct picks" "\<forall>k \<in> set picks. row_claimable now m k"
    and cl: "cl = claim_occurrences u picks m" and m': "m' = claim_rows u picks m"
    using mem.claim_law [of ks now b d m cl m'] ks claim by auto
  have "\<forall>k \<in> set picks. m k \<noteq> None"
    using picks(2) by (fastforce simp: row_claimable_def split: option.splits)
  then have ids: "map oc_id cl = picks"
    using claimed_ids_occurrences [OF ok, of picks u] cl by (simp add: claimed_ids_def comp_def)
  then show "distinct (map oc_id cl)" using picks(1) by simp
  show "m' i = m i" if "i \<notin> oc_id ` set cl"
    using that m' ids by (metis claim_rows_def set_map)
  show "lo_leased_until oc = now + int d \<and> (\<exists>r. m' (oc_id oc) = Some r
      \<and> fenced_pending m' (oc_id oc) (lo_leased_until oc) = Some r
      \<and> lo_message oc = message r \<and> lo_attempts oc = attempts r)" if "oc \<in> set cl"
  proof -
    from that cl obtain k where k: "k \<in> set picks"
      "oc = occurrence_of u (claim_row u (the (m k)))" by (auto simp: claim_occurrences_def)
    with picks(2) obtain r where r: "m k = Some r" "claimable now r"
      by (auto simp: row_claimable_def split: option.splits)
    with ok k have "oc_id oc = k" by (simp add: occurrence_of_def store_ok_def)
    with k r u m' show ?thesis
      by (simp add: claim_rows_def fenced_pending_def occurrence_of_def claimable_def time_simps)
  qed
qed

section \<open>Properties\<close>

definition sample_env :: worker_env where
  "sample_env =
     \<lparr>we_config = worker_config_default,
      we_cron = \<lparr>cron_parse = \<lambda>_. None, cron_next = \<lambda>_ a. if - 100 < a \<and> a < 100 then Some (a + 1) else None,
                 odt_representable = \<lambda>n. \<bar>n\<bar> \<le> 1000\<rparr>,
      we_show_uuid = \<lambda>_. [], we_show_reason = \<lambda>_. []\<rparr>"

definition sample_sink :: "nat timed_sink" where
  "sample_sink msg k = (Some (Inr ()), Suc k)"

definition sample_tick :: tick where
  "sample_tick = \<lparr>tk_guard = 50, tk_next = 50, tk_store = 50, tk_draw = \<lambda>n. n\<rparr>"

lemma sample_cron_ok: "cron_engine_ok (we_cron sample_env)"
  by (auto simp: cron_engine_ok_def sample_env_def systime_min_def systime_max_def nanos_per_sec_def)

text \<open>
  The builder's lease guarantee. Whatever setters were chained, a configuration that
  \<open>build\<close> accepts has a lease long enough to settle a whole batch in sequence: when every
  dispatch before it in the batch took at most \<open>dispatch_timeout\<close>, each occurrence of a
  batch of up to \<open>u32::MAX\<close> starts its dispatch while the lease still holds.
\<close>

theorem builder_lease_covers_batch:
  assumes "builder_run setters = Inr c" and "unat (batch_size c) < 2 ^ 32"
    and "length elapsed < unat (batch_size c)" and "\<forall>e \<in> set elapsed. e \<le> dispatch_timeout c"
  shows "sum_list elapsed < lease c"
proof -
  have ok: "0 < dispatch_timeout c"
    "dispatch_timeout c * unat (usize_to_u32_saturating (batch_size c)) \<le> lease c"
    using assms(1) build_ok unfolding builder_run_def by blast+
  have "sum_list elapsed \<le> length elapsed * dispatch_timeout c"
    using assms(4) by (induction elapsed) auto
  also have "\<dots> < unat (batch_size c) * dispatch_timeout c"
    using assms(3) ok(1) by simp
  also have "\<dots> \<le> lease c"
    using ok(2) assms(2) by (simp add: usize_to_u32_saturating_eq mult.commute)
  finally show ?thesis .
qed

theorem builder_lease_covers_batch_witness:
  "builder_run [SetBatchSize 2] = Inr (worker_config_default\<lparr>batch_size := 2\<rparr>)
   \<and> sum_list [from_secs 30] < lease (worker_config_default\<lparr>batch_size := 2\<rparr>)"
proof -
  have "builder_run [SetBatchSize 2] = Inr (worker_config_default\<lparr>batch_size := 2\<rparr>)"
    by (simp add: builder_run_def build_def worker_config_default_def duration_checked_mul_def
        usize_to_u32_saturating_def from_secs_def from_millis_def nanos_per_sec_def
        nanos_per_milli_def duration_max_def)
  then show ?thesis
    using builder_lease_covers_batch [of "[SetBatchSize 2]" _ "[from_secs 30]"]
    by (simp add: worker_config_default_def)
qed

text \<open>
  The limit of that guarantee. The product is computed with the batch size clamped to
  \<open>u32::MAX\<close>, so a larger batch is accepted with a lease below
  \<open>batch_size \<times> dispatch_timeout\<close>, which the documentation of \<open>build\<close> rules out.
\<close>

theorem builder_clamps_large_batch:
  "\<exists>setters c. builder_run setters = Inr c \<and> lease c < unat (batch_size c) * dispatch_timeout c"
proof -
  let ?s = "[SetBatchSize (2 ^ 32), SetDispatchTimeout 1, SetLease (2 ^ 32 - 1)]"
  let ?c = "fold apply_setter ?s worker_config_default"
  have "usize_to_u32_saturating (2 ^ 32) = - 1"
    by (simp add: usize_to_u32_saturating_def)
  then have "builder_run ?s = Inr ?c"
    by (simp add: builder_run_def build_def duration_checked_mul_def duration_max_def
        worker_config_default_def from_millis_def from_secs_def nanos_per_milli_def nanos_per_sec_def)
  moreover have "lease ?c < unat (batch_size ?c) * dispatch_timeout ?c" by simp
  ultimately show ?thesis by blast
qed



text \<open>
  C25. A poll cycle settles its batch. The cycle sweeps and claims. When the claim fails, the cycle
  reports its error and leaves the store as swept. Otherwise each claimed schedule is left with exactly
  the row its dispatch calls for: delivered, moved to its next occurrence, deferred by the backoff, or
  dead-lettered when its budget is spent. A claimed schedule whose turn comes when its lease is over is
  not dispatched and keeps the row of the claim. Every schedule that was not claimed is as the sweep
  left it.
\<close>

theorem poll_cycle_settles:
  assumes ok: "store_ok m" and keys: "key_order (ce_sweep_keys ce) m" "key_order (ce_claim_keys ce) m"
    and m\<^sub>1: "m\<^sub>1 = exec (CSweep (ce_sweep_clock ce) (ce_sweep_keys ce)) m"
  shows "case mem_claim_due (ce_claim_keys ce) (ce_now ce) (batch_size (we_config w)) (lease (we_config w)) m\<^sub>1 of
      (Inl e, m\<^sub>2) \<Rightarrow> poll_cycle w in_memory_store sink ce (m, k) = (Inl e, (m\<^sub>1, k))
    | (Inr cl, m\<^sub>2) \<Rightarrow> \<exists>m' k'. poll_cycle w in_memory_store sink ce (m, k) = (Inr (length cl), (m', k'))
        \<and> (\<forall>j < length cl. \<exists>r. m\<^sub>2 (oc_id (cl ! j)) = Some r
             \<and> (lo_leased_until (cl ! j) \<le> tk_guard (ce_ticks ce j) \<longrightarrow> m' (oc_id (cl ! j)) = Some r)
             \<and> (tk_guard (ce_ticks ce j) < lo_leased_until (cl ! j) \<longrightarrow>
                 (\<exists>res. dispatch_trace (we_config w) sink (ce_ticks ce) cl k ! j = Some res
                    \<and> m' (oc_id (cl ! j)) = Some (settled_row w (ce_ticks ce j) (cl ! j) res r))))
        \<and> (\<forall>i. i \<notin> oc_id ` set cl \<longrightarrow> m' i = m\<^sub>1 i)"
proof -
  have sweep: "\<exists>n. mem_dead_letter_exhausted (ce_sweep_clock ce) (ce_sweep_keys ce) m = (Inr n, m\<^sub>1)"
    by (simp add: m\<^sub>1 mem_dead_letter_exhausted_def case_prod_unfold Let_def)
  have "dom m\<^sub>1 = dom m"
    using keys(1) unfolding m\<^sub>1 by (auto simp: exec_sweep_row key_order_def simp del: exec.simps)
  then have ks: "key_order (ce_claim_keys ce) m\<^sub>1"
    using keys(2) key_order_cong by blast
  have ok1: "store_ok m\<^sub>1" unfolding m\<^sub>1 using ok by (rule exec_ok)
  let ?claim = "mem_claim_due (ce_claim_keys ce) (ce_now ce) (batch_size (we_config w)) (lease (we_config w)) m\<^sub>1"
  show ?thesis
  proof (cases "fst ?claim")
    case (Inl e)
    then have "?claim = (Inl e, m\<^sub>1)"
      by (auto simp: mem_claim_due_def case_prod_unfold Let_def split: option.splits)
    then show ?thesis using sweep by (auto simp: poll_cycle_def)
  next
    case (Inr cl)
    then obtain m\<^sub>2 where claim: "?claim = (Inr cl, m\<^sub>2)" by (metis prod.collapse)
    note con = claim_facts [OF ok1 ks claim]
    define rr where "rr j = the (m\<^sub>2 (oc_id (cl ! j)))" for j
    have rr: "fenced_pending m\<^sub>2 (oc_id (cl ! j)) (lo_leased_until (cl ! j)) = Some (rr j)" if "j < length cl" for j
      using con(3) [OF nth_mem [OF that]] by (auto simp: rr_def)
    obtain m' k' where all: "settle_all w in_memory_store sink (ce_ticks ce) cl (m\<^sub>2, k) = (m', k')"
      by (rule prod.exhaust)
    have row: "m' (oc_id (cl ! j)) = Some (case dispatch_trace (we_config w) sink (ce_ticks ce) cl k ! j of
        None \<Rightarrow> rr j | Some res \<Rightarrow> settled_row w (ce_ticks ce j) (cl ! j) res (rr j))" if "j < length cl" for j
      using rel_mem.settle_all_rows [of cl m\<^sub>2 rr j w sink "ce_ticks ce" k] con(1) rr that all by simp
    have "m' i = m\<^sub>1 i" if "i \<notin> oc_id ` set cl" for i
      using mem.settle_all_frame [OF that, of w sink "ce_ticks ce" "(m\<^sub>2, k)"] con(2) that all by simp
    moreover have "m\<^sub>2 (oc_id (cl ! j)) = Some (rr j)" if "j < length cl" for j
      using rr [OF that] by (rule fenced_pendingD)
    moreover have "poll_cycle w in_memory_store sink ce (m, k) = (Inr (length cl), (m', k'))"
      using sweep claim all by (auto simp: poll_cycle_def)
    ultimately show ?thesis
      using row dispatch_trace_skips [of _ cl "we_config w" sink "ce_ticks ce" k]
      by (fastforce simp: claim split: option.splits)
  qed
qed

definition sample_cycle :: cycle_env where
  "sample_cycle =
     \<lparr>ce_sweep_clock = 40, ce_sweep_keys = [1], ce_now = 45, ce_claim_keys = [1],
      ce_ticks = \<lambda>_. sample_tick\<rparr>"

theorem poll_cycle_settles_witness:
  "\<exists>m' k'. poll_cycle sample_env in_memory_store sample_sink sample_cycle (sample_map, 0)
      = (Inr 1, (m', k')) \<and> (\<exists>r. m' 1 = Some r \<and> status r = Delivered)"
proof -
  let ?m\<^sub>1 = "exec (CSweep 40 [1]) sample_map"
  have ok: "store_ok sample_map" "key_order [1] sample_map"
    by (simp_all add: store_ok_def row_ok_def sample_defs key_order_def)
  have m1: "?m\<^sub>1 = sample_map"
    by (simp add: mem_dead_letter_exhausted_def sample_defs sweepable_def)
  obtain u where add: "systime_checked_add 45 (lease worker_config_default) = Some u"
    by (simp add: systime_checked_add_def systime_max_def worker_config_default_def from_secs_def
        nanos_per_sec_def)
  define r where "r = claim_row u (fresh_row (sample_message 1 10) 2)"
  have claim: "mem_claim_due [1] 45 (batch_size worker_config_default) (lease worker_config_default)
      ?m\<^sub>1 = (Inr [occurrence_of u r], sample_map(1 \<mapsto> r))"
    unfolding m1 by (simp add: mem_claim_due_def add r_def claimable_def lease_free_def
        sample_map_def fresh_row_def sample_message_def) (simp add: worker_config_default_def Let_def)
  have live: "tk_guard (ce_ticks sample_cycle 0) < lo_leased_until (occurrence_of u r)"
    using add
    by (simp add: sample_cycle_def sample_tick_def occurrence_of_def time_simps)
      (simp add: worker_config_default_def from_secs_def nanos_per_sec_def)
  have "\<exists>m' k'. poll_cycle sample_env in_memory_store sample_sink sample_cycle (sample_map, 0)
      = (Inr 1, (m', k')) \<and> (\<exists>res. dispatch_trace worker_config_default sample_sink (\<lambda>_. sample_tick) [occurrence_of u r] 0 ! 0 = Some res
        \<and> m' 1 = Some (settled_row sample_env sample_tick (occurrence_of u r) res r))"
    using poll_cycle_settles [of sample_map sample_cycle ?m\<^sub>1 sample_env sample_sink 0] ok claim live
    by (auto simp: sample_cycle_def sample_env_def occurrence_of_def r_def fresh_row_def sample_message_def)
  then show ?thesis
    by (auto simp: settled_row_def dispatch_def sample_sink_def occurrence_of_def r_def fresh_row_def
        sample_message_def deliver_row_def split: if_splits)
qed

text \<open>
  A worker that lost its lease settles nothing. If the row no longer carries the lease of
  the occurrence (reclaimed, cancelled, paused, already settled), settling it may reach the
  sink but leaves the whole store unchanged, whatever the dispatch returned. In every case
  no row but the occurrence's own is written.
\<close>

theorem settle_lost_lease:
  assumes "settle w in_memory_store sink tk oc (m, k) = (res, (m', k'))"
  shows "(fenced_pending m (oc_id oc) (lo_leased_until oc) = None \<longrightarrow> m' = m)
    \<and> (\<forall>i. i \<noteq> oc_id oc \<longrightarrow> m' i = m i)"
  using mem.settle_stale [OF assms] mem.settle_frame [OF assms] by blast

theorem settle_lost_lease_witness:
  "\<exists>res m' k'. settle sample_env in_memory_store sample_sink sample_tick
       (occurrence_of 60 (fresh_row (sample_message 1 10) 2)) (sample_map, 0) = (res, (m', k'))
     \<and> m' = sample_map \<and> k' = 1"
proof -
  let ?oc = "occurrence_of 60 (fresh_row (sample_message 1 10) 2)"
  obtain res m' k' where s: "settle sample_env in_memory_store sample_sink sample_tick ?oc
      (sample_map, 0) = (res, (m', k'))"
    by (rule prod_cases3)
  moreover have "fenced_pending sample_map (oc_id ?oc) (lo_leased_until ?oc) = None"
    by (simp add: fenced_pending_def sample_defs occurrence_of_def)
  moreover have "k' = 1"
    using s by (auto simp: settle_def sample_tick_def occurrence_of_def dispatch_def sample_sink_def
        split: prod.splits)
  ultimately show ?thesis using settle_lost_lease [OF s] by blast
qed

text \<open>
  Resuming does not catch up. Resuming a paused cron schedule whose occurrence has passed
  either moves it to an occurrence strictly after now, pending, with a fresh attempt budget
  and no lease, or leaves it paused when the expression has no further occurrence. No other
  schedule changes.
\<close>

theorem resume_realigns:
  assumes "cron_engine_ok eng" and "systime_valid now"
    and "m i = Some r" and "status r = Paused" and "msg_trigger (message r) = Cron e"
    and "scheduled_for (message r) \<le> now"
    and "control_resume eng in_memory_store now i m = (Inr (), m')"
  shows "(\<forall>j. j \<noteq> i \<longrightarrow> m' j = m j)
    \<and> (case next_occurrence eng e now of
         Inr (Some t) \<Rightarrow> now < t \<and> (\<exists>r'. m' i = Some r' \<and> status r' = Pending
           \<and> scheduled_for (message r') = t \<and> attempts r' = 0 \<and> leased_until r' = None)
       | Inr None \<Rightarrow> m' = m
       | Inl _ \<Rightarrow> False)"
  using assms next_occurrence_later [OF assms(1,2)]
  by (auto simp: control_resume_def mem_inspect_def to_snapshot_def mem_resume_def
      split: sum.splits option.splits)

theorem resume_realigns_witness:
  "let m = [1 \<mapsto> (fresh_row (sample_message 1 10) 2)\<lparr>
                  message := (sample_message 1 10)\<lparr>msg_trigger := Cron (CronExpression ''* * * * *'')\<rparr>,
                  status := Paused\<rparr>] in
   \<exists>m'. control_resume (we_cron sample_env) in_memory_store 20 1 m = (Inr (), m')
     \<and> (\<exists>r'. m' 1 = Some r' \<and> scheduled_for (message r') = 21)"
proof -
  let ?r = "(fresh_row (sample_message 1 10) 2)\<lparr>
      message := (sample_message 1 10)\<lparr>msg_trigger := Cron (CronExpression ''* * * * *'')\<rparr>,
      status := Paused\<rparr>"
  let ?m = "[1 \<mapsto> ?r]"
  have valid: "systime_valid 20"
    by (simp add: systime_valid_def systime_min_def systime_max_def nanos_per_sec_def)
  have "next_occurrence (we_cron sample_env) (CronExpression ''* * * * *'') 20 = Inr (Some 21)"
    using sample_cron_ok valid by (subst next_occurrence_eq) (simp_all add: sample_env_def)
  then have "\<exists>m'. control_resume (we_cron sample_env) in_memory_store 20 1 ?m = (Inr (), m')"
    by (simp add: control_resume_def mem_inspect_def to_snapshot_def mem_resume_def fresh_row_def
        sample_message_def)
  then obtain m' where "control_resume (we_cron sample_env) in_memory_store 20 1 ?m = (Inr (), m')" ..
  with resume_realigns [OF sample_cron_ok valid _ _ _ _ this, of ?r "CronExpression ''* * * * *''"]
    \<open>next_occurrence _ _ _ = _\<close>
  show ?thesis by (auto simp: Let_def fresh_row_def sample_message_def)
qed

end
