(* ===== verification/Hex_Core.thy ===== *)
theory Hex_Core
  imports Hex_Prelude
begin

text \<open>
  The framework core (\<open>crates/hexeract-core/src/{authentication,context,envelope,error,middleware,
  registration}.rs\<close>): what a handler learns about its message, the errors of an in-process
  dispatch, and the middleware pipeline \<open>Next\<close>.

  A type-erased box \<open>Box<dyn Any>\<close> is a value with the tag of its type; a downcast compares tags. A
  future either ends with a result or unwinds with a panic payload. The world \<open>'w\<close> stands for what a
  dispatch shares with its surroundings, the cancellation token among it.
\<close>

section \<open>Authentication, context, envelope\<close>

datatype publisher_authentication =
    NotEnforced
  | WaivedUnsigned
  | Authenticated string

record handler_context =
  hc_message_id :: uuid
  hc_correlation_id :: uuid
  hc_authentication :: publisher_authentication

definition handler_context_new :: "uuid \<Rightarrow> uuid \<Rightarrow> handler_context" where
  "handler_context_new message_id correlation_id =
     \<lparr>hc_message_id = message_id, hc_correlation_id = correlation_id, hc_authentication = NotEnforced\<rparr>"

definition with_authentication :: "publisher_authentication \<Rightarrow> handler_context \<Rightarrow> handler_context" where
  "with_authentication a ctx = ctx\<lparr>hc_authentication := a\<rparr>"

record message_envelope =
  me_type_name :: string
  me_message_id :: uuid
  me_correlation_id :: uuid

definition envelope_for :: "string \<Rightarrow> uuid \<Rightarrow> uuid \<Rightarrow> message_envelope" where
  "envelope_for type_name message_id correlation_id =
     \<lparr>me_type_name = type_name, me_message_id = message_id, me_correlation_id = correlation_id\<rparr>"

section \<open>Errors and panics\<close>

datatype panic_payload = PanicStr string | PanicString string | PanicOther

datatype hexeract_error =
    HandlerNotFound string
  | HandlerFailed string
  | DispatchTimedOut string duration
  | DowncastFailed string
  | InputDowncastFailed string
  | DispatchCancelled string
  | PublishFailed string nat "(string \<times> hexeract_error) list"
  | HandlerPanicked string
  | DispatchError string

datatype 'a ending = Ended "(hexeract_error, 'a) result" | Unwound panic_payload

section \<open>Type-erased values\<close>

text \<open>The tag identifies a type, as \<open>TypeId\<close> does; the name is what \<open>type_name\<close> prints.\<close>

record type_tag =
  tt_id :: nat
  tt_name :: string

record 'v boxed =
  bx_type :: nat
  bx_value :: 'v

definition box_as :: "type_tag \<Rightarrow> 'v \<Rightarrow> 'v boxed" where
  "box_as t v = \<lparr>bx_type = tt_id t, bx_value = v\<rparr>"

definition downcast :: "type_tag \<Rightarrow> 'v boxed \<Rightarrow> 'v option" where
  "downcast t b = (if bx_type b = tt_id t then Some (bx_value b) else None)"

section \<open>The middleware pipeline\<close>

text \<open>
  A middleware is a program over the world: it changes the world and returns, or it changes the
  world, runs the rest of the pipeline with an envelope and a context, its own or others, and goes on
  with its outcome. Rust lets it run the rest once
  at most, because \<open>Next::run\<close> consumes the continuation; the programs here may run it any number of
  times. What ends a program is a result or a panic of the middleware itself.
\<close>

datatype ('w, 'v) mw_prog =
    MwReturn "'w \<Rightarrow> 'v boxed ending \<times> 'w"
  | MwNext message_envelope handler_context "'w \<Rightarrow> 'w" "'v boxed ending \<Rightarrow> ('w, 'v) mw_prog"

type_synonym ('w, 'v) middleware = "message_envelope \<Rightarrow> handler_context \<Rightarrow> ('w, 'v) mw_prog"

text \<open>The terminal has a state of its own (the parked payload), which no middleware can reach.\<close>

type_synonym ('w, 's, 'v) terminal =
  "message_envelope \<Rightarrow> handler_context \<Rightarrow> 's \<times> 'w \<Rightarrow> 'v boxed ending \<times> 's \<times> 'w"

primrec run_prog ::
  "('w, 'v) mw_prog \<Rightarrow> ('w, 's, 'v) terminal \<Rightarrow> 's \<times> 'w \<Rightarrow> 'v boxed ending \<times> 's \<times> 'w"
where
  "run_prog (MwReturn f) next st = (let (r, w) = f (snd st) in (r, fst st, w))"
| "run_prog (MwNext env ctx f k) next st = (let (r, st') = next env ctx (fst st, f (snd st)) in run_prog (k r) next st')"

text \<open>The state of the token of a context is part of the world: \<open>is_cancelled\<close> reads it.\<close>

function next_run ::
  "(handler_context \<Rightarrow> 'w \<Rightarrow> bool) \<Rightarrow> ('w, 'v) middleware list \<Rightarrow> nat \<Rightarrow> ('w, 's, 'v) terminal \<Rightarrow>
   message_envelope \<Rightarrow> handler_context \<Rightarrow> 's \<times> 'w \<Rightarrow> 'v boxed ending \<times> 's \<times> 'w"
where
  "next_run is_cancelled chain index terminal env ctx st =
     (if is_cancelled ctx (snd st) then (Ended (Inl (DispatchCancelled (me_type_name env))), st)
      else if index < length chain
      then run_prog ((chain ! index) env ctx) (next_run is_cancelled chain (Suc index) terminal) st
      else terminal env ctx st)"
  by pat_completeness auto
termination
  by (relation "measure (\<lambda>(_, chain, index, _). length chain - index)") auto

declare next_run.simps [simp del]

section \<open>Registrations collected at link time\<close>

datatype handler_kind = CommandKind | QueryKind | NotificationKind

record handler_registration =
  hr_kind :: handler_kind
  hr_message_type_name :: string
  hr_handler_type_name :: string

section \<open>Lemmas\<close>

lemma downcast_box [simp]: "downcast t (box_as t v) = Some v"
  by (simp add: downcast_def box_as_def)

text \<open>
  A relation on states that every step of the world and of the terminal keeps is kept by the whole
  pipeline, whatever the middlewares do.
\<close>

lemma run_prog_keeps:
  assumes "\<And>env ctx st r st'. next env ctx st = (r, st') \<Longrightarrow> I (fst st) \<Longrightarrow> I (fst st')"
  shows "run_prog p next st = (r, st') \<Longrightarrow> I (fst st) \<Longrightarrow> I (fst st')"
proof (induction p arbitrary: st)
  case (MwReturn f)
  then show ?case by (auto split: prod.splits)
next
  case (MwNext env ctx f k)
  obtain r1 st1 where n: "next env ctx (fst st, f (snd st)) = (r1, st1)" by (rule prod.exhaust)
  then have "I (fst st1)" using assms MwNext.prems(2) by fastforce
  then show ?case using MwNext.IH [of "k r1" st1] MwNext.prems(1) n by simp
qed

lemma next_run_keeps:
  assumes "\<And>env ctx st r st'. terminal env ctx st = (r, st') \<Longrightarrow> I (fst st) \<Longrightarrow> I (fst st')"
  shows "next_run is_cancelled chain index terminal env ctx st = (r, st') \<Longrightarrow> I (fst st) \<Longrightarrow> I (fst st')"
proof (induction "length chain - index" arbitrary: index env ctx st r st')
  case 0
  then show ?case
    using assms by (subst (asm) next_run.simps) (auto split: if_splits)
next
  case (Suc n)
  have less: "index < length chain" and n: "n = length chain - Suc index" using Suc.hyps(2) by auto
  show ?case
  proof (cases "is_cancelled ctx (snd st)")
    case True
    then show ?thesis using Suc.prems by (subst (asm) next_run.simps) auto
  next
    case False
    then have "run_prog ((chain ! index) env ctx) (next_run is_cancelled chain (Suc index) terminal) st = (r, st')"
      using Suc.prems(1) less by (subst (asm) next_run.simps) simp
    then show ?thesis using run_prog_keeps [of "next_run is_cancelled chain (Suc index) terminal" I] Suc.hyps(1) [OF n] Suc.prems(2) by blast
  qed
qed

end
