(* ===== verification/Outbox_Core.thy ===== *)
theory Outbox_Core
  imports Hex_Core
begin

text \<open>
  The outbox contract (\<open>crates/hexeract-outbox/src/{error,envelope,handler,publisher,idempotent,
  worker}.rs\<close>): errors, envelopes, typed handlers, the worker's configuration with its backoff and
  lease, and the storage operations the worker drives.

  JSON encoding is an argument. A handler runs in a world \<open>'w\<close>; it finishes after some time, hangs,
  or panics.
\<close>

section \<open>Errors\<close>

text \<open>What a database driver reports, as far as the code tells causes apart.\<close>

datatype db_fault =
    UniqueViolation
  | NotNullViolation
  | IntegerOutOfRange
  | DriverFault string

datatype outbox_error =
    OutboxSerialization string
  | OutboxDatabase db_fault
  | OutboxMissingHandler string
  | OutboxMaxRetries uuid u32
  | OutboxTypeMismatch string string
  | OutboxPoolTimeout
  | OutboxDispatchTimeout uuid string duration
  | OutboxInternal string

text \<open>\<open>to_string\<close>; the renderings of identifiers and durations are arguments.\<close>

fun outbox_error_display :: "(uuid \<Rightarrow> string) \<Rightarrow> (duration \<Rightarrow> string) \<Rightarrow> outbox_error \<Rightarrow> string" where
  "outbox_error_display fu fd (OutboxSerialization _) = ''failed to (de)serialize event payload as JSON''"
| "outbox_error_display fu fd (OutboxDatabase _) = ''database error''"
| "outbox_error_display fu fd (OutboxMissingHandler t) = ''no handler registered for event type `'' @ t @ ''`''"
| "outbox_error_display fu fd (OutboxMaxRetries i n) =
     ''event '' @ fu i @ '' reached max retries after '' @ show_nat (unat n) @ '' attempts''"
| "outbox_error_display fu fd (OutboxTypeMismatch expected actual) =
     ''envelope carries event_type `'' @ actual @ ''` but decode requested `'' @ expected @ ''`''"
| "outbox_error_display fu fd OutboxPoolTimeout = ''connection pool acquire timed out''"
| "outbox_error_display fu fd (OutboxDispatchTimeout i t d) =
     ''handler for event '' @ fu i @ '' ('' @ t @ '') timed out after '' @ fd d"
| "outbox_error_display fu fd (OutboxInternal m) = ''internal outbox error: '' @ m"

section \<open>Envelopes\<close>

record outbox_envelope =
  oe_event_id :: uuid
  oe_event_type :: string
  oe_payload :: "byte list"
  oe_subject_id :: "uuid option"
  oe_created_at :: systime
  oe_attempts :: u32
  oe_last_error :: "string option"
  oe_next_retry_at :: "systime option"
  oe_delivered_at :: "systime option"

definition outbox_envelope_new ::
  "('ev \<Rightarrow> (string, byte list) result) \<Rightarrow> string \<Rightarrow> systime \<Rightarrow> uuid \<Rightarrow> 'ev \<Rightarrow> (outbox_error, outbox_envelope) result"
where
  "outbox_envelope_new to_vec EVENT_TYPE now event_id event =
     rbind (map_err OutboxSerialization (to_vec event)) (\<lambda>payload.
       Inr \<lparr>oe_event_id = event_id, oe_event_type = EVENT_TYPE, oe_payload = payload, oe_subject_id = None,
            oe_created_at = now, oe_attempts = 0, oe_last_error = None, oe_next_retry_at = None,
            oe_delivered_at = None\<rparr>)"

definition outbox_envelope_with_subject ::
  "('ev \<Rightarrow> (string, byte list) result) \<Rightarrow> string \<Rightarrow> systime \<Rightarrow> uuid \<Rightarrow> uuid \<Rightarrow> 'ev \<Rightarrow>
   (outbox_error, outbox_envelope) result"
where
  "outbox_envelope_with_subject to_vec EVENT_TYPE now event_id subject_id event =
     rbind (outbox_envelope_new to_vec EVENT_TYPE now event_id event) (\<lambda>envelope.
       Inr (envelope\<lparr>oe_subject_id := Some subject_id\<rparr>))"

definition outbox_decode ::
  "(byte list \<Rightarrow> (string, 'ev) result) \<Rightarrow> string \<Rightarrow> outbox_envelope \<Rightarrow> (outbox_error, 'ev) result"
where
  "outbox_decode from_slice EVENT_TYPE envelope =
     (if oe_event_type envelope \<noteq> EVENT_TYPE then Inl (OutboxTypeMismatch EVENT_TYPE (oe_event_type envelope))
      else map_err OutboxSerialization (from_slice (oe_payload envelope)))"

section \<open>Handlers\<close>

text \<open>How a handler's future ends when it is left alone, with the time it takes.\<close>

datatype 'a handling = Finishes duration 'a | Hangs | Panics duration

type_synonym 'w outbox_handler =
  "outbox_envelope \<Rightarrow> handler_context \<Rightarrow> 'w \<Rightarrow> (outbox_error, unit) result handling \<times> 'w"

definition outbox_typed_handler ::
  "(byte list \<Rightarrow> (string, 'ev) result) \<Rightarrow> string \<Rightarrow> ('e \<Rightarrow> outbox_error) \<Rightarrow>
   ('ev \<Rightarrow> handler_context \<Rightarrow> 'w \<Rightarrow> ('e, unit) result handling \<times> 'w) \<Rightarrow> 'w outbox_handler"
where
  "outbox_typed_handler from_slice EVENT_TYPE into handle envelope ctx w =
     (case outbox_decode from_slice EVENT_TYPE envelope of
        Inl err \<Rightarrow> (Finishes 0 (Inl err), w)
      | Inr event \<Rightarrow>
          (case handle event ctx w of
             (Finishes d r, w') \<Rightarrow> (Finishes d (map_err into r), w')
           | (Hangs, w') \<Rightarrow> (Hangs, w')
           | (Panics d, w') \<Rightarrow> (Panics d, w')))"

section \<open>Configuration of the worker\<close>

record outbox_worker_config =
  owc_poll_interval :: duration
  owc_batch_size :: usize
  owc_max_attempts :: u32
  owc_retry_base_delay :: duration
  owc_retry_max_delay :: duration
  owc_jitter :: bool
  owc_min_cycle_delay :: duration
  owc_dispatch_timeout :: duration

definition outbox_worker_config_default :: outbox_worker_config where
  "outbox_worker_config_default =
     \<lparr>owc_poll_interval = from_millis 100, owc_batch_size = 10, owc_max_attempts = 5,
      owc_retry_base_delay = from_secs 1, owc_retry_max_delay = from_secs 300, owc_jitter = True,
      owc_min_cycle_delay = from_millis 5, owc_dispatch_timeout = from_secs 30\<rparr>"

text \<open>\<open>draw n\<close> is what the random generator returns from the range \<open>0..=n\<close>.\<close>

definition outbox_next_retry_delay :: "(nat \<Rightarrow> nat) \<Rightarrow> outbox_worker_config \<Rightarrow> u32 \<Rightarrow> duration" where
  "outbox_next_retry_delay draw c attempts =
     (let factor = (case u32_one_checked_shl attempts of Some f \<Rightarrow> f | None \<Rightarrow> - 1);
          capped = min (duration_saturating_mul (owc_retry_base_delay c) factor) (owc_retry_max_delay c)
      in if owc_jitter c then draw (if capped < 2 ^ 64 then capped else 2 ^ 64 - 1) else capped)"

definition outbox_lease_for :: "outbox_worker_config \<Rightarrow> nat \<Rightarrow> duration" where
  "outbox_lease_for c batch_len =
     (let n = max batch_len 1; factor = (if n < 2 ^ 32 then word_of_nat n else - 1 :: u32)
      in duration_saturating_mul (owc_dispatch_timeout c) factor)"

section \<open>The storage contract\<close>

text \<open>
  \<open>OutboxStore\<close> as its operations on a database state, inside a transaction. \<open>os_claim\<close> and
  \<open>os_mark_dead_lettered\<close> have default implementations.
\<close>

record 'db outbox_store =
  os_poll :: "usize \<Rightarrow> u32 \<Rightarrow> 'db \<Rightarrow> (outbox_error, outbox_envelope list) result"
  os_claim :: "(uuid \<times> u32) list \<Rightarrow> duration \<Rightarrow> 'db \<Rightarrow> (outbox_error, uuid list \<times> 'db) result"
  os_mark_delivered :: "uuid \<Rightarrow> u32 \<Rightarrow> 'db \<Rightarrow> (outbox_error, bool \<times> 'db) result"
  os_mark_failed :: "uuid \<Rightarrow> string \<Rightarrow> duration \<Rightarrow> u32 \<Rightarrow> 'db \<Rightarrow> (outbox_error, bool \<times> 'db) result"
  os_mark_dead_lettered :: "uuid \<Rightarrow> string \<Rightarrow> u32 \<Rightarrow> 'db \<Rightarrow> (outbox_error, bool \<times> 'db) result"

definition default_claim :: "(uuid \<times> u32) list \<Rightarrow> duration \<Rightarrow> 'db \<Rightarrow> (outbox_error, uuid list \<times> 'db) result" where
  "default_claim claims lease_for db = Inr (map fst claims, db)"

definition default_mark_dead_lettered :: "uuid \<Rightarrow> string \<Rightarrow> u32 \<Rightarrow> 'db \<Rightarrow> (outbox_error, bool \<times> 'db) result" where
  "default_mark_dead_lettered event_id err claimed_attempt db = Inr (True, db)"

section \<open>Lemmas\<close>

lemma outbox_retry_delay_bounds:
  assumes "\<And>n. draw n \<le> n"
  shows "outbox_next_retry_delay draw c n \<le> owc_retry_max_delay c"
    and "\<not> owc_jitter c \<Longrightarrow> unat n < 32 \<Longrightarrow> outbox_next_retry_delay draw c n
       = min (min duration_max (owc_retry_base_delay c * 2 ^ unat n)) (owc_retry_max_delay c)"
proof -
  define capped where "capped = min (duration_saturating_mul (owc_retry_base_delay c)
      (case u32_one_checked_shl n of Some f \<Rightarrow> f | None \<Rightarrow> - 1)) (owc_retry_max_delay c)"
  have "draw (if capped < 2 ^ 64 then capped else 2 ^ 64 - 1) \<le> capped"
    using assms [of "if capped < 2 ^ 64 then capped else 2 ^ 64 - 1"] by (simp split: if_splits)
  moreover have "capped \<le> owc_retry_max_delay c" by (simp add: capped_def)
  ultimately show "outbox_next_retry_delay draw c n \<le> owc_retry_max_delay c"
    unfolding outbox_next_retry_delay_def Let_def capped_def [symmetric]
    by (cases "owc_jitter c") (simp_all only: if_True if_False order_trans)
  assume "\<not> owc_jitter c" "unat n < 32"
  then show "outbox_next_retry_delay draw c n
       = min (min duration_max (owc_retry_base_delay c * 2 ^ unat n)) (owc_retry_max_delay c)"
    using unat_push_bit_one [of "unat n"]
    by (simp add: outbox_next_retry_delay_def u32_one_checked_shl_def duration_saturating_mul_eq min.commute)
qed

text \<open>The lease covers the dispatch of the whole batch, one timeout after the other.\<close>

lemma outbox_lease_covers:
  assumes "n < 2 ^ 32" and "owc_dispatch_timeout c * n \<le> duration_max"
  shows "owc_dispatch_timeout c * n \<le> outbox_lease_for c n"
proof -
  have "unat (word_of_nat (max n 1) :: u32) = max n 1"
    using assms(1) by (simp add: unat_of_nat take_bit_nat_eq_self)
  then show ?thesis
    using assms by (simp add: outbox_lease_for_def Let_def duration_saturating_mul_eq)
qed

lemma outbox_decode_new:
  assumes "outbox_envelope_new to_vec t now i ev = Inr env" and "\<And>p. to_vec ev = Inr p \<Longrightarrow> from_slice p = Inr ev"
  shows "outbox_decode from_slice t env = Inr ev"
  using assms by (auto simp: outbox_envelope_new_def outbox_decode_def result_simps)

end
