(* ===== verification/Outbox_Sql.thy ===== *)
theory Outbox_Sql
  imports Outbox_Core
begin

text \<open>
  The SQL backends of the outbox (\<open>crates/hexeract-outbox-sql/src/{dialect,identifier,validate,fence,
  envelope,postgres,mysql,sqlite}.rs\<close>).

  A statement is modelled by what it does to the tables its schema declares: the main table in the
  order of its primary key, which is never reused, and the dead-letter table. Timestamps have the
  type \<open>'t\<close> of the dialect (text for SQLite), ordered as the engine compares them; the database clock
  and the rows that other transactions hold locked are part of the state. Reading a timestamp, adding
  an interval to the clock and JSON are arguments, and so is what goes wrong with a transaction.
\<close>

section \<open>Dialects and identifiers\<close>

datatype dialect = Postgres | MySql | Sqlite

definition supports_skip_locked :: "dialect \<Rightarrow> bool" where
  "supports_skip_locked d = (case d of Postgres \<Rightarrow> True | MySql \<Rightarrow> True | Sqlite \<Rightarrow> False)"

definition placeholder :: "dialect \<Rightarrow> nat \<Rightarrow> string" where
  "placeholder d index = (case d of Postgres \<Rightarrow> ''$'' @ show_nat index | _ \<Rightarrow> ''?'')"

definition replace_char :: "char \<Rightarrow> string \<Rightarrow> string \<Rightarrow> string" where
  "replace_char c by s = concat (map (\<lambda>x. if x = c then by else [x]) s)"

definition double_quote :: char where
  "double_quote = CHR 0x22"

definition back_quote :: char where
  "back_quote = CHR 0x60"

definition quote_identifier :: "dialect \<Rightarrow> string \<Rightarrow> string" where
  "quote_identifier d name =
     (case d of
        MySql \<Rightarrow> [back_quote] @ replace_char back_quote [back_quote, back_quote] name @ [back_quote]
      | _ \<Rightarrow> [double_quote] @ replace_char double_quote [double_quote, double_quote] name @ [double_quote])"

definition max_identifier_len :: nat where
  "max_identifier_len = 63"

text \<open>An offending character is reported as the bytes of its UTF-8 form.\<close>

datatype invalid_table_name =
    TableNameEmpty
  | TableNameTooLong nat
  | InvalidLeadingCharacter string
  | InvalidCharacter string

definition is_ascii_alphabetic :: "char \<Rightarrow> bool" where
  "is_ascii_alphabetic c \<longleftrightarrow> (let n = of_char c :: nat in (65 \<le> n \<and> n \<le> 90) \<or> (97 \<le> n \<and> n \<le> 122))"

definition is_ascii_digit :: "char \<Rightarrow> bool" where
  "is_ascii_digit c \<longleftrightarrow> (let n = of_char c :: nat in 48 \<le> n \<and> n \<le> 57)"

definition is_continuation_byte :: "char \<Rightarrow> bool" where
  "is_continuation_byte c \<longleftrightarrow> (let n = of_char c :: nat in 128 \<le> n \<and> n < 192)"

fun first_character :: "string \<Rightarrow> string" where
  "first_character [] = []"
| "first_character (c # s) = c # takeWhile is_continuation_byte s"

definition identifier_start :: "char \<Rightarrow> bool" where
  "identifier_start c \<longleftrightarrow> is_ascii_alphabetic c \<or> c = CHR ''_''"

definition identifier_part :: "char \<Rightarrow> bool" where
  "identifier_part c \<longleftrightarrow> is_ascii_alphabetic c \<or> is_ascii_digit c \<or> c = CHR ''_''"

definition validate_table_name :: "string \<Rightarrow> (invalid_table_name, unit) result" where
  "validate_table_name name =
     (case name of
        [] \<Rightarrow> Inl TableNameEmpty
      | c # rest \<Rightarrow>
          if max_identifier_len < length name then Inl (TableNameTooLong (length name))
          else if \<not> identifier_start c then Inl (InvalidLeadingCharacter (first_character name))
          else case dropWhile identifier_part rest of
            [] \<Rightarrow> Inr ()
          | bad \<Rightarrow> Inl (InvalidCharacter (first_character bad)))"

text \<open>The rendering of a quoted character is an argument.\<close>

fun invalid_table_name_display :: "(string \<Rightarrow> string) \<Rightarrow> invalid_table_name \<Rightarrow> string" where
  "invalid_table_name_display fc TableNameEmpty = ''must not be empty''"
| "invalid_table_name_display fc (TableNameTooLong n) =
     ''is '' @ show_nat n @ '' bytes long, which exceeds the maximum identifier length of ''
     @ show_nat max_identifier_len @ '' bytes''"
| "invalid_table_name_display fc (InvalidLeadingCharacter c) = ''must start with [a-zA-Z_], found '' @ fc c"
| "invalid_table_name_display fc (InvalidCharacter c) = ''must match [a-zA-Z_][a-zA-Z0-9_]*, found '' @ fc c"

definition outbox_validate_table_name :: "(string \<Rightarrow> string) \<Rightarrow> string \<Rightarrow> (outbox_error, unit) result" where
  "outbox_validate_table_name fc name =
     map_err (\<lambda>rejection. OutboxInternal (''table name `'' @ name @ ''`: '' @ invalid_table_name_display fc rejection))
       (validate_table_name name)"

definition max_event_type_len :: nat where
  "max_event_type_len = 64"

definition validate_event_type :: "string \<Rightarrow> (outbox_error, unit) result" where
  "validate_event_type event_type =
     (if event_type = [] then Inl (OutboxInternal ''event_type must not be empty'')
      else if max_event_type_len < length event_type
      then Inl (OutboxInternal (''event_type `'' @ event_type @ ''` exceeds the maximum length of ''
             @ show_nat max_event_type_len @ '' bytes''))
      else Inr ())"

section \<open>Fences\<close>

definition i32_max :: int where
  "i32_max = 2 ^ 31 - 1"

definition fence_value :: "u32 \<Rightarrow> (outbox_error, int) result" where
  "fence_value value =
     (if uint value \<le> i32_max then Inr (uint value)
      else Inl (OutboxInternal (''attempt number '' @ show_nat (unat value)
             @ '' does not fit the INTEGER attempts column'')))"

fun bindable_claims :: "(uuid \<times> u32) list \<Rightarrow> (outbox_error, (uuid \<times> int) list) result" where
  "bindable_claims [] = Inr []"
| "bindable_claims ((event_id, attempts) # claims) =
     rbind (fence_value attempts) (\<lambda>f.
       rbind (bindable_claims claims) (\<lambda>rest. Inr ((event_id, f) # rest)))"

definition in_claim_order :: "(uuid \<times> u32) list \<Rightarrow> uuid list \<Rightarrow> uuid list" where
  "in_claim_order claims obtained = filter (\<lambda>i. i \<in> set obtained) (map fst claims)"

section \<open>Tables\<close>

record ('j, 't) outbox_row =
  ow_id :: nat
  ow_event_id :: uuid
  ow_event_type :: string
  ow_payload :: 'j
  ow_subject_id :: "uuid option"
  ow_created_at :: 't
  ow_attempts :: int
  ow_last_error :: "string option"
  ow_next_retry_at :: "'t option"
  ow_delivered_at :: "'t option"

record ('j, 't) dead_row =
  dl_id :: nat
  dl_event_id :: uuid
  dl_event_type :: string
  dl_payload :: 'j
  dl_subject_id :: "uuid option"
  dl_created_at :: 't
  dl_attempts :: int
  dl_last_error :: string
  dl_exhausted_at :: 't

record ('j, 't) outbox_db =
  db_main :: "('j, 't) outbox_row list"
  db_dead :: "('j, 't) dead_row list"
  db_next_id :: nat
  db_next_dead :: nat
  db_now :: 't
  db_locked :: "nat list"

text \<open>The configuration of a store and its arguments.\<close>

record ('j, 't) sql_backend =
  sb_dialect :: dialect
  sb_dead_letter :: bool
  sb_plus :: "'t \<Rightarrow> duration \<Rightarrow> 't"
  sb_to_vec :: "'j \<Rightarrow> (string, byte list) result"
  sb_read_time :: "'t \<Rightarrow> (outbox_error, systime) result"

section \<open>Polling\<close>

definition bind_max_attempts :: "dialect \<Rightarrow> u32 \<Rightarrow> int" where
  "bind_max_attempts d n = (case d of Sqlite \<Rightarrow> uint n | _ \<Rightarrow> min (uint n) i32_max)"

definition bind_limit :: "usize \<Rightarrow> nat" where
  "bind_limit n = min (unat n) (2 ^ 63 - 1)"

text \<open>The \<open>WHERE\<close> clause of the poll.\<close>

definition row_pollable :: "'t::linorder \<Rightarrow> int \<Rightarrow> ('j, 't) outbox_row \<Rightarrow> bool" where
  "row_pollable now bound r \<longleftrightarrow>
     ow_delivered_at r = None \<and> ow_attempts r < bound
     \<and> (case ow_next_retry_at r of None \<Rightarrow> True | Some t \<Rightarrow> t \<le> now)"

definition poll_rows :: "dialect \<Rightarrow> usize \<Rightarrow> u32 \<Rightarrow> ('j, 't::linorder) outbox_db \<Rightarrow> ('j, 't) outbox_row list" where
  "poll_rows d batch_size max_attempts db =
     take (bind_limit batch_size)
       (filter (\<lambda>r. row_pollable (db_now db) (bind_max_attempts d max_attempts) r
            \<and> \<not> (supports_skip_locked d \<and> ow_id r \<in> set (db_locked db))) (db_main db))"

definition attempts_of_column :: "int \<Rightarrow> u32" where
  "attempts_of_column n = (if max n 0 < 2 ^ 32 then word_of_int (max n 0) else - 1)"

definition assemble_envelope ::
  "uuid \<Rightarrow> string \<Rightarrow> byte list \<Rightarrow> uuid option \<Rightarrow> systime \<Rightarrow> u32 \<Rightarrow> string option \<Rightarrow> systime option \<Rightarrow> outbox_envelope"
where
  "assemble_envelope event_id event_type payload subject_id created_at attempts last_error next_retry_at =
     \<lparr>oe_event_id = event_id, oe_event_type = event_type, oe_payload = payload, oe_subject_id = subject_id,
      oe_created_at = created_at, oe_attempts = attempts, oe_last_error = last_error,
      oe_next_retry_at = next_retry_at, oe_delivered_at = None\<rparr>"

definition decode_row :: "('j, 't) sql_backend \<Rightarrow> ('j, 't) outbox_row \<Rightarrow> (outbox_error, outbox_envelope) result" where
  "decode_row b r =
     rbind (map_err OutboxSerialization (sb_to_vec b (ow_payload r))) (\<lambda>payload.
       rbind (case ow_next_retry_at r of None \<Rightarrow> Inr None | Some t \<Rightarrow> rbind (sb_read_time b t) (\<lambda>s. Inr (Some s))) (\<lambda>next_retry_at.
         rbind (sb_read_time b (ow_created_at r)) (\<lambda>created_at.
           Inr (assemble_envelope (ow_event_id r) (ow_event_type r) payload (ow_subject_id r) created_at
                  (attempts_of_column (ow_attempts r)) (ow_last_error r) next_retry_at))))"

definition sql_poll ::
  "('j, 't::linorder) sql_backend \<Rightarrow> usize \<Rightarrow> u32 \<Rightarrow> ('j, 't) outbox_db \<Rightarrow> (outbox_error, outbox_envelope list) result"
where
  "sql_poll b batch_size max_attempts db =
     Inr (concat (map (\<lambda>r. case decode_row b r of Inr envelope \<Rightarrow> [envelope] | Inl _ \<Rightarrow> [])
            (poll_rows (sb_dialect b) batch_size max_attempts db)))"

section \<open>Claiming\<close>

definition claimed_row :: "(uuid \<times> int) list \<Rightarrow> ('j, 't) outbox_row \<Rightarrow> bool" where
  "claimed_row pairs r \<longleftrightarrow> (ow_event_id r, ow_attempts r) \<in> set pairs"

text \<open>The conditional update, with the identifiers of the rows it changed.\<close>

definition claim_update ::
  "dialect \<Rightarrow> 't \<Rightarrow> (uuid \<times> int) list \<Rightarrow> ('j, 't) outbox_db \<Rightarrow> (outbox_error, uuid list \<times> ('j, 't) outbox_db) result"
where
  "claim_update d lease pairs db =
     (let matched = filter (claimed_row pairs) (db_main db)
      in if d \<noteq> Sqlite \<and> list_ex (\<lambda>r. i32_max \<le> ow_attempts r) matched
         then Inl (OutboxDatabase IntegerOutOfRange)
         else Inr (map ow_event_id matched,
           db\<lparr>db_main := map (\<lambda>r. if claimed_row pairs r
               then r\<lparr>ow_next_retry_at := Some lease, ow_attempts := ow_attempts r + 1\<rparr> else r) (db_main db)\<rparr>))"

definition claim_returning ::
  "('j, 't) sql_backend \<Rightarrow> (uuid \<times> u32) list \<Rightarrow> (uuid \<times> int) list \<Rightarrow> duration \<Rightarrow> ('j, 't) outbox_db \<Rightarrow>
   (outbox_error, uuid list \<times> ('j, 't) outbox_db) result"
where
  "claim_returning b claims bindable lease_for db =
     rbind (claim_update (sb_dialect b) (sb_plus b (db_now db) lease_for) bindable db) (\<lambda>(obtained, db').
       Inr (in_claim_order claims obtained, db'))"

definition claim_candidates :: "(uuid \<times> int) list \<Rightarrow> ('j, 't) outbox_db \<Rightarrow> uuid list" where
  "claim_candidates pairs db = map ow_event_id (filter (claimed_row pairs) (db_main db))"

definition claim_mysql ::
  "('j, 't) sql_backend \<Rightarrow> (uuid \<times> u32) list \<Rightarrow> (uuid \<times> int) list \<Rightarrow> duration \<Rightarrow> ('j, 't) outbox_db \<Rightarrow>
   (outbox_error, uuid list \<times> ('j, 't) outbox_db) result"
where
  "claim_mysql b claims bindable lease_for db =
     (let matched = claim_candidates bindable db;
          to_update = filter (\<lambda>(event_id, _). event_id \<in> set matched) bindable
      in if to_update = [] then Inr ([], db)
         else rbind (claim_update (sb_dialect b) (sb_plus b (db_now db) lease_for) to_update db) (\<lambda>(_, db').
           Inr (in_claim_order claims matched, db')))"

definition sql_claim ::
  "('j, 't) sql_backend \<Rightarrow> (uuid \<times> u32) list \<Rightarrow> duration \<Rightarrow> ('j, 't) outbox_db \<Rightarrow>
   (outbox_error, uuid list \<times> ('j, 't) outbox_db) result"
where
  "sql_claim b claims lease_for db =
     (if claims = [] then Inr ([], db)
      else rbind (bindable_claims claims) (\<lambda>bindable.
        case sb_dialect b of
          MySql \<Rightarrow> claim_mysql b claims bindable lease_for db
        | _ \<Rightarrow> claim_returning b claims bindable lease_for db))"

section \<open>Settlements\<close>

text \<open>The condition every settlement carries: the caller's attempt, and not delivered.\<close>

definition row_fenced :: "uuid \<Rightarrow> int \<Rightarrow> ('j, 't) outbox_row \<Rightarrow> bool" where
  "row_fenced event_id claimed_attempt r \<longleftrightarrow>
     ow_event_id r = event_id \<and> ow_attempts r = claimed_attempt \<and> ow_delivered_at r = None"

definition update_fenced ::
  "uuid \<Rightarrow> int \<Rightarrow> (('j, 't) outbox_row \<Rightarrow> ('j, 't) outbox_row) \<Rightarrow> ('j, 't) outbox_db \<Rightarrow> bool \<times> ('j, 't) outbox_db"
where
  "update_fenced event_id claimed_attempt f db =
     (list_ex (row_fenced event_id claimed_attempt) (db_main db),
      db\<lparr>db_main := map (\<lambda>r. if row_fenced event_id claimed_attempt r then f r else r) (db_main db)\<rparr>)"

definition sql_mark_delivered ::
  "uuid \<Rightarrow> u32 \<Rightarrow> ('j, 't) outbox_db \<Rightarrow> (outbox_error, bool \<times> ('j, 't) outbox_db) result"
where
  "sql_mark_delivered event_id claimed_attempt db =
     rbind (fence_value claimed_attempt) (\<lambda>fence.
       Inr (update_fenced event_id fence (\<lambda>r. r\<lparr>ow_delivered_at := Some (db_now db)\<rparr>) db))"

definition sql_mark_failed ::
  "('j, 't) sql_backend \<Rightarrow> uuid \<Rightarrow> string \<Rightarrow> duration \<Rightarrow> u32 \<Rightarrow> ('j, 't) outbox_db \<Rightarrow>
   (outbox_error, bool \<times> ('j, 't) outbox_db) result"
where
  "sql_mark_failed b event_id err retry_in claimed_attempt db =
     rbind (fence_value claimed_attempt) (\<lambda>fence.
       Inr (update_fenced event_id fence
              (\<lambda>r. r\<lparr>ow_last_error := Some err, ow_next_retry_at := Some (sb_plus b (db_now db) retry_in)\<rparr>) db))"

text \<open>\<open>INSERT INTO dlq ... SELECT ... FROM main\<close>, with the constraints of the dead-letter schema.\<close>

definition dead_row_of :: "nat \<Rightarrow> 't \<Rightarrow> string \<Rightarrow> ('j, 't) outbox_row \<Rightarrow> ('j, 't) dead_row" where
  "dead_row_of i now err r =
     \<lparr>dl_id = i, dl_event_id = ow_event_id r, dl_event_type = ow_event_type r, dl_payload = ow_payload r,
      dl_subject_id = ow_subject_id r, dl_created_at = ow_created_at r, dl_attempts = ow_attempts r,
      dl_last_error = err, dl_exhausted_at = now\<rparr>"

definition insert_dead_letter ::
  "uuid \<Rightarrow> ('j, 't) outbox_db \<Rightarrow> (outbox_error, ('j, 't) outbox_db) result"
where
  "insert_dead_letter event_id db =
     (case filter (\<lambda>r. ow_event_id r = event_id) (db_main db) of
        [] \<Rightarrow> Inr db
      | r # _ \<Rightarrow>
          (case ow_last_error r of
             None \<Rightarrow> Inl (OutboxDatabase NotNullViolation)
           | Some err \<Rightarrow>
               if list_ex (\<lambda>dr. dl_event_id dr = event_id) (db_dead db) then Inl (OutboxDatabase UniqueViolation)
               else Inr (db\<lparr>db_dead := db_dead db @ [dead_row_of (db_next_dead db) (db_now db) err r],
                            db_next_dead := Suc (db_next_dead db)\<rparr>)))"

definition delete_from_main :: "uuid \<Rightarrow> int \<Rightarrow> ('j, 't) outbox_db \<Rightarrow> bool \<times> ('j, 't) outbox_db" where
  "delete_from_main event_id claimed_attempt db =
     (list_ex (row_fenced event_id claimed_attempt) (db_main db),
      db\<lparr>db_main := filter (\<lambda>r. \<not> row_fenced event_id claimed_attempt r) (db_main db)\<rparr>)"

text \<open>The copy and the removal share a savepoint, which a refused removal rolls back.\<close>

definition sql_mark_dead_lettered ::
  "('j, 't) sql_backend \<Rightarrow> uuid \<Rightarrow> string \<Rightarrow> u32 \<Rightarrow> ('j, 't) outbox_db \<Rightarrow>
   (outbox_error, bool \<times> ('j, 't) outbox_db) result"
where
  "sql_mark_dead_lettered b event_id err claimed_attempt db =
     (if \<not> sb_dead_letter b then Inr (True, db)
      else rbind (fence_value claimed_attempt) (\<lambda>fence.
        rbind (insert_dead_letter event_id db) (\<lambda>copied.
          let (removed, db') = delete_from_main event_id fence copied
          in if removed then Inr (True, db') else Inr (False, db))))"

definition sql_store :: "('j, 't::linorder) sql_backend \<Rightarrow> ('j, 't) outbox_db outbox_store" where
  "sql_store b =
     \<lparr>os_poll = sql_poll b, os_claim = sql_claim b, os_mark_delivered = sql_mark_delivered,
      os_mark_failed = sql_mark_failed b, os_mark_dead_lettered = sql_mark_dead_lettered b\<rparr>"

text \<open>\<open>new\<close> and \<open>with_dead_letter\<close> of a store: both names are validated before any statement is rendered.\<close>

definition sql_store_new ::
  "(string \<Rightarrow> string) \<Rightarrow> ('j, 't) sql_backend \<Rightarrow> string \<Rightarrow> (outbox_error, ('j, 't) sql_backend) result"
where
  "sql_store_new fc b table_name =
     rbind (outbox_validate_table_name fc table_name) (\<lambda>_. Inr (b\<lparr>sb_dead_letter := False\<rparr>))"

definition sql_with_dead_letter ::
  "(string \<Rightarrow> string) \<Rightarrow> string \<Rightarrow> ('j, 't) sql_backend \<Rightarrow> (outbox_error, ('j, 't) sql_backend) result"
where
  "sql_with_dead_letter fc dlq_table b =
     rbind (outbox_validate_table_name fc dlq_table) (\<lambda>_. Inr (b\<lparr>sb_dead_letter := True\<rparr>))"

section \<open>Publishing\<close>

definition has_event :: "uuid \<Rightarrow> ('j, 't) outbox_db \<Rightarrow> bool" where
  "has_event event_id db \<longleftrightarrow> list_ex (\<lambda>r. ow_event_id r = event_id) (db_main db)"

definition fresh_row :: "uuid \<Rightarrow> string \<Rightarrow> 'j \<Rightarrow> uuid option \<Rightarrow> ('j, 't) outbox_db \<Rightarrow> ('j, 't) outbox_row" where
  "fresh_row event_id event_type payload subject_id db =
     \<lparr>ow_id = db_next_id db, ow_event_id = event_id, ow_event_type = event_type, ow_payload = payload,
      ow_subject_id = subject_id, ow_created_at = db_now db, ow_attempts = 0, ow_last_error = None,
      ow_next_retry_at = None, ow_delivered_at = None\<rparr>"

definition insert_row ::
  "uuid \<Rightarrow> string \<Rightarrow> 'j \<Rightarrow> uuid option \<Rightarrow> ('j, 't) outbox_db \<Rightarrow> (outbox_error, ('j, 't) outbox_db) result"
where
  "insert_row event_id event_type payload subject_id db =
     (if has_event event_id db then Inl (OutboxDatabase UniqueViolation)
      else Inr (db\<lparr>db_main := db_main db @ [fresh_row event_id event_type payload subject_id db],
                   db_next_id := Suc (db_next_id db)\<rparr>))"

text \<open>\<open>ON CONFLICT DO NOTHING\<close>, or the guarded \<open>INSERT ... SELECT\<close> of MySQL: whether a row was inserted.\<close>

definition insert_idempotent ::
  "uuid \<Rightarrow> string \<Rightarrow> 'j \<Rightarrow> ('j, 't) outbox_db \<Rightarrow> (outbox_error, bool \<times> ('j, 't) outbox_db) result"
where
  "insert_idempotent event_id event_type payload db =
     (if has_event event_id db then Inr (False, db)
      else rbind (insert_row event_id event_type payload None db) (\<lambda>db'. Inr (True, db')))"

text \<open>The minted identifier is an argument.\<close>

definition publish_with ::
  "('ev \<Rightarrow> (string, 'j) result) \<Rightarrow> string \<Rightarrow> uuid option \<Rightarrow> uuid \<Rightarrow> 'ev \<Rightarrow> ('j, 't) outbox_db \<Rightarrow>
   (outbox_error, uuid \<times> ('j, 't) outbox_db) result"
where
  "publish_with to_value EVENT_TYPE subject_id event_id event db =
     rbind (validate_event_type EVENT_TYPE) (\<lambda>_.
       rbind (map_err OutboxSerialization (to_value event)) (\<lambda>payload.
         rbind (insert_row event_id EVENT_TYPE payload subject_id db) (\<lambda>db'. Inr (event_id, db'))))"

definition publish_in_tx ::
  "('ev \<Rightarrow> (string, 'j) result) \<Rightarrow> string \<Rightarrow> uuid \<Rightarrow> 'ev \<Rightarrow> ('j, 't) outbox_db \<Rightarrow>
   (outbox_error, uuid \<times> ('j, 't) outbox_db) result"
where
  "publish_in_tx to_value EVENT_TYPE = publish_with to_value EVENT_TYPE None"

definition publish_in_tx_with_subject ::
  "('ev \<Rightarrow> (string, 'j) result) \<Rightarrow> string \<Rightarrow> uuid \<Rightarrow> uuid \<Rightarrow> 'ev \<Rightarrow> ('j, 't) outbox_db \<Rightarrow>
   (outbox_error, uuid \<times> ('j, 't) outbox_db) result"
where
  "publish_in_tx_with_subject to_value EVENT_TYPE subject_id = publish_with to_value EVENT_TYPE (Some subject_id)"

section \<open>Transactions\<close>

text \<open>
  How a transaction turns out: applied; given up with an error of the connection, of a statement or
  of the commit, and rolled back; or applied although the client saw an error.
\<close>

datatype tx_fate = TxCommitted | TxRolledBack outbox_error | TxUnknown outbox_error

definition tx_commit :: "tx_fate \<Rightarrow> 'db \<Rightarrow> 'db \<Rightarrow> 'a \<Rightarrow> (outbox_error, 'a) result \<times> 'db" where
  "tx_commit fate before after v =
     (case fate of
        TxCommitted \<Rightarrow> (Inr v, after)
      | TxRolledBack err \<Rightarrow> (Inl err, before)
      | TxUnknown err \<Rightarrow> (Inl err, after))"

definition outbox_publish ::
  "('ev \<Rightarrow> (string, 'j) result) \<Rightarrow> string \<Rightarrow> uuid \<Rightarrow> 'ev \<Rightarrow> tx_fate \<Rightarrow> ('j, 't) outbox_db \<Rightarrow>
   (outbox_error, uuid) result \<times> ('j, 't) outbox_db"
where
  "outbox_publish to_value EVENT_TYPE event_id event fate db =
     (case publish_in_tx to_value EVENT_TYPE event_id event db of
        Inl err \<Rightarrow> (Inl err, db)
      | Inr (i, db') \<Rightarrow> tx_commit fate db db' i)"

definition enqueue_idempotent ::
  "(byte list \<Rightarrow> (string, 'j) result) \<Rightarrow> uuid \<Rightarrow> string \<Rightarrow> byte list \<Rightarrow> tx_fate \<Rightarrow> ('j, 't) outbox_db \<Rightarrow>
   (outbox_error, bool) result \<times> ('j, 't) outbox_db"
where
  "enqueue_idempotent from_slice event_id event_type payload fate db =
     (case rbind (validate_event_type event_type) (\<lambda>_.
         rbind (map_err OutboxSerialization (from_slice payload)) (\<lambda>v. insert_idempotent event_id event_type v db)) of
        Inl err \<Rightarrow> (Inl err, db)
      | Inr (inserted, db') \<Rightarrow> tx_commit fate db db' inserted)"

section \<open>Lemmas\<close>

text \<open>Well-formed tables: what the schema's keys enforce.\<close>

definition db_ok :: "('j, 't) outbox_db \<Rightarrow> bool" where
  "db_ok db \<longleftrightarrow> distinct (map ow_event_id (db_main db)) \<and> distinct (map ow_id (db_main db))
     \<and> (\<forall>r\<in>set (db_main db). ow_id r < db_next_id db \<and> 0 \<le> ow_attempts r)
     \<and> distinct (map dl_event_id (db_dead db))"

lemma fence_value_Inr [simp]: "fence_value k = Inr f \<longleftrightarrow> uint k \<le> i32_max \<and> f = uint k"
  by (auto simp: fence_value_def)

lemma bindable_claims_Inr:
  "bindable_claims claims = Inr pairs \<longleftrightarrow>
     (\<forall>(_, k)\<in>set claims. uint k \<le> i32_max) \<and> pairs = map (\<lambda>(i, k). (i, uint k)) claims"
  by (induction claims arbitrary: pairs rule: bindable_claims.induct) (auto simp: result_simps)

text \<open>What a claim does, whatever the dialect.\<close>

definition bump :: "'t \<Rightarrow> (uuid \<times> int) list \<Rightarrow> ('j, 't) outbox_row \<Rightarrow> ('j, 't) outbox_row" where
  "bump lease pairs r =
     (if claimed_row pairs r then r\<lparr>ow_next_retry_at := Some lease, ow_attempts := ow_attempts r + 1\<rparr> else r)"

lemma bump_simps [simp]:
  "ow_id (bump l ps r) = ow_id r" "ow_event_id (bump l ps r) = ow_event_id r"
  "ow_event_type (bump l ps r) = ow_event_type r" "ow_payload (bump l ps r) = ow_payload r"
  "ow_subject_id (bump l ps r) = ow_subject_id r" "ow_created_at (bump l ps r) = ow_created_at r"
  "ow_last_error (bump l ps r) = ow_last_error r" "ow_delivered_at (bump l ps r) = ow_delivered_at r"
  "ow_attempts (bump l ps r) = (if claimed_row ps r then ow_attempts r + 1 else ow_attempts r)"
  by (simp_all add: bump_def)

lemma claim_update_Inr:
  "claim_update d lease pairs db = Inr (ids, db') \<longleftrightarrow>
     (d \<noteq> Sqlite \<longrightarrow> (\<forall>r\<in>set (db_main db). claimed_row pairs r \<longrightarrow> ow_attempts r < i32_max))
     \<and> ids = map ow_event_id (filter (claimed_row pairs) (db_main db))
     \<and> db' = db\<lparr>db_main := map (bump lease pairs) (db_main db)\<rparr>"
  by (auto simp: claim_update_def Let_def bump_def list_ex_iff not_le)

lemma mysql_candidates_cover:
  assumes "r \<in> set (db_main db)"
  shows "claimed_row (filter (\<lambda>(i, _). i \<in> set (claim_candidates pairs db)) pairs) r \<longleftrightarrow> claimed_row pairs r"
  using assms by (auto simp: claimed_row_def claim_candidates_def image_iff)

lemma claim_update_cong:
  assumes "\<And>r. r \<in> set (db_main db) \<Longrightarrow> claimed_row ps r = claimed_row qs r"
  shows "claim_update d lease ps db = claim_update d lease qs db"
proof -
  have "filter (claimed_row ps) (db_main db) = filter (claimed_row qs) (db_main db)"
    by (rule filter_cong) (simp_all add: assms)
  moreover have "map (\<lambda>r. if claimed_row ps r then f r else r) (db_main db)
      = map (\<lambda>r. if claimed_row qs r then f r else r) (db_main db)" for f
    by (rule map_cong) (simp_all add: assms)
  ultimately show ?thesis by (simp only: claim_update_def)
qed

lemma claim_update_none:
  "\<forall>r\<in>set (db_main db). \<not> claimed_row ps r \<Longrightarrow> claim_update d lease ps db = Inr ([], db)"
proof -
  assume none: "\<forall>r\<in>set (db_main db). \<not> claimed_row ps r"
  then have "map (bump lease ps) (db_main db) = db_main db" by (intro map_idI) (simp add: bump_def)
  then show ?thesis using none by (simp add: claim_update_Inr filter_empty_conv)
qed

lemma mysql_claim_eq: "claim_mysql b claims pairs lease_for db = claim_returning b claims pairs lease_for db"
proof -
  define to_update where "to_update = filter (\<lambda>(i, _). i \<in> set (claim_candidates pairs db)) pairs"
  have same: "claim_update d lease to_update db = claim_update d lease pairs db" for d lease
    by (rule claim_update_cong) (simp add: to_update_def mysql_candidates_cover)
  show ?thesis
  proof (cases "to_update = []")
    case True
    then have "\<forall>r\<in>set (db_main db). \<not> claimed_row pairs r"
      using mysql_candidates_cover [of _ db pairs] by (auto simp: to_update_def claimed_row_def)
    then show ?thesis
      using True by (simp add: claim_mysql_def claim_returning_def to_update_def claim_update_none in_claim_order_def)
  next
    case False
    have "rbind (claim_update d lease pairs db) (\<lambda>(_, db'). Inr (in_claim_order claims (claim_candidates pairs db), db'))
        = rbind (claim_update d lease pairs db) (\<lambda>(obtained, db'). Inr (in_claim_order claims obtained, db'))" for d lease
      by (cases "claim_update d lease pairs db") (auto simp: claim_update_Inr claim_candidates_def)
    then show ?thesis
      using False by (simp add: claim_mysql_def claim_returning_def same to_update_def [symmetric])
  qed
qed

definition fences :: "(uuid \<times> u32) list \<Rightarrow> (uuid \<times> int) list" where
  "fences claims = map (\<lambda>(i, k). (i, uint k)) claims"

lemma sql_claim_Inr:
  assumes "sql_claim b claims lease_for db = Inr (ids, db')"
  shows "ids = filter (\<lambda>i. \<exists>r\<in>set (db_main db). ow_event_id r = i \<and> claimed_row (fences claims) r) (map fst claims)"
    and "db' = db\<lparr>db_main := map (bump (sb_plus b (db_now db) lease_for) (fences claims)) (db_main db)\<rparr>"
proof -
  have "claim_returning b claims (fences claims) lease_for db = Inr (ids, db') \<or> claims = [] \<and> ids = [] \<and> db' = db"
    using assms by (auto simp: sql_claim_def result_simps bindable_claims_Inr fences_def mysql_claim_eq
        split: if_splits dialect.splits)
  moreover have "map (bump lease []) rs = rs" for lease and rs :: "('a, 'b) outbox_row list"
    by (rule map_idI) (simp add: bump_def claimed_row_def)
  ultimately show "ids = filter (\<lambda>i. \<exists>r\<in>set (db_main db). ow_event_id r = i \<and> claimed_row (fences claims) r) (map fst claims)"
    and "db' = db\<lparr>db_main := map (bump (sb_plus b (db_now db) lease_for) (fences claims)) (db_main db)\<rparr>"
    by (auto simp: claim_returning_def result_simps claim_update_Inr in_claim_order_def fences_def intro!: filter_cong)
qed

text \<open>
  How an engine reads a quoted identifier after its opening delimiter: up to a delimiter that is not
  doubled. Quoting is read back as the name, whatever the name holds and whatever follows.
\<close>

fun read_quoted :: "char \<Rightarrow> string \<Rightarrow> (string \<times> string) option" where
  "read_quoted q [] = None"
| "read_quoted q [c] = (if c = q then Some ([], []) else None)"
| "read_quoted q (c # c' # s) =
     (if c \<noteq> q then map_option (apfst (Cons c)) (read_quoted q (c' # s))
      else if c' = q then map_option (apfst (Cons q)) (read_quoted q s)
      else Some ([], c' # s))"

lemma read_quoted_replace:
  assumes "rest = [] \<or> hd rest \<noteq> q"
  shows "read_quoted q (replace_char q [q, q] name @ q # rest) = Some (name, rest)"
proof (induction name)
  case Nil
  then show ?case using assms by (cases rest) (auto simp: replace_char_def)
next
  case (Cons c name)
  obtain d ds where "replace_char q [q, q] name @ q # rest = d # ds"
    by (cases "replace_char q [q, q] name @ q # rest") auto
  then show ?case using Cons by (auto simp: replace_char_def)
qed

lemma validated_identifier:
  assumes "validate_table_name name = Inr ()"
  shows "name \<noteq> [] \<and> length name \<le> 63 \<and> identifier_start (hd name) \<and> (\<forall>c\<in>set name. identifier_part c)"
proof -
  obtain c rest where name: "name = c # rest" and "length name \<le> 63" "identifier_start c"
    and "dropWhile identifier_part rest = []"
    using assms by (auto simp: validate_table_name_def max_identifier_len_def split: list.splits if_splits)
  moreover from this have "\<forall>c\<in>set rest. identifier_part c" by (simp add: dropWhile_eq_Nil_conv)
  ultimately show ?thesis by (auto simp: identifier_start_def identifier_part_def)
qed

section \<open>Properties\<close>

text \<open>
  C26. The dialects claim alike. MySQL, which has no \<open>RETURNING\<close> and selects the candidates before it
  updates them, obtains the same rows and leaves the same tables as PostgreSQL with its single
  statement, errors included; and whatever a claim obtains there, SQLite obtains.
\<close>

theorem claim_dialects_agree:
  "sql_claim (b\<lparr>sb_dialect := MySql\<rparr>) claims lease_for db = sql_claim (b\<lparr>sb_dialect := Postgres\<rparr>) claims lease_for db
   \<and> (case sql_claim (b\<lparr>sb_dialect := Postgres\<rparr>) claims lease_for db of
        Inr obtained \<Rightarrow> sql_claim (b\<lparr>sb_dialect := Sqlite\<rparr>) claims lease_for db = Inr obtained
      | Inl _ \<Rightarrow> True)"
proof -
  have same: "claim_update MySql l ps db = claim_update Postgres l ps db" for l ps
    by (simp add: claim_update_def)
  have sqlite: "claim_update Postgres l ps db = Inr r \<Longrightarrow> claim_update Sqlite l ps db = Inr r" for l ps r
    by (simp add: claim_update_def Let_def split: if_splits)
  have "sql_claim (b\<lparr>sb_dialect := MySql\<rparr>) claims lease_for db = sql_claim (b\<lparr>sb_dialect := Postgres\<rparr>) claims lease_for db"
    by (simp add: sql_claim_def mysql_claim_eq claim_returning_def same)
  moreover have "sql_claim (b\<lparr>sb_dialect := Sqlite\<rparr>) claims lease_for db = Inr r"
    if "sql_claim (b\<lparr>sb_dialect := Postgres\<rparr>) claims lease_for db = Inr r" for r
    using that by (auto simp: sql_claim_def claim_returning_def result_simps dest!: sqlite split: if_splits)
  ultimately show ?thesis by (simp split: sum.split)
qed

end
