(* ===== verification/Sched_Sql.thy ===== *)
theory Sched_Sql
  imports Sched_Lifecycle Outbox_Sql
begin

text \<open>
  The SQL schedule stores (\<open>crates/hexeract-scheduler-sql/src/{mapping,validate,statements,postgres,
  mysql,sqlite}.rs\<close>): the columns of a schedule, what every statement does to the table, and the
  operations of \<open>ScheduleStore\<close> and \<open>ScheduleAdmin\<close> in the three dialects.

  A statement is modelled by what it does to the rows. The column type of timestamps is \<open>'t\<close>, that of
  payloads \<open>'j\<close>: the values the statements write and read. The conversions to and from them, the
  addition of an interval to the database clock and the constraints of the column types are arguments
  (\<open>sched_backend\<close>), as is whether the driver counts matched or changed rows; the rounding of an
  interval by the driver belongs to the addition. The order of the table is
  arbitrary; it decides among rows due at the same instant. A call reads the clock of the database once,
  also the claim of MySQL with its three statements. The text of a \<open>Database\<close> error is the driver's;
  the two texts below stand for it.
\<close>

section \<open>Columns\<close>

definition trigger_columns :: "trigger \<Rightarrow> string \<times> string option" where
  "trigger_columns trg =
     (case trg of Delay _ \<Rightarrow> (''delay'', None) | Cron expression \<Rightarrow> (''cron'', Some (cron_as_str expression)))"

definition target_columns :: "target \<Rightarrow> string \<times> string option" where
  "target_columns tgt =
     (case tgt of
        target.Mediator \<Rightarrow> (''mediator'', None)
      | target.Outbox \<Rightarrow> (''outbox'', None)
      | Bus routing_key \<Rightarrow> (''bus'', Some routing_key))"

text \<open>The \<open>Debug\<close> rendering of a string is the argument \<open>dbg\<close>.\<close>

definition build_trigger ::
  "cron_engine \<Rightarrow> (string \<Rightarrow> string) \<Rightarrow> string \<Rightarrow> string option \<Rightarrow> systime \<Rightarrow> (scheduler_error, trigger) result"
where
  "build_trigger eng dbg kind cron_expr at =
     (if kind = ''delay'' then Inr (trigger_delay at)
      else if kind = ''cron'' then
        rbind (ok_or cron_expr (Internal ''cron schedule row is missing its cron expression'')) (trigger_cron eng)
      else Inl (Internal (''unknown trigger kind in storage: '' @ dbg kind)))"

definition build_target :: "(string \<Rightarrow> string) \<Rightarrow> string \<Rightarrow> string option \<Rightarrow> (scheduler_error, target) result" where
  "build_target dbg kind routing_key =
     (if kind = ''mediator'' then Inr target.Mediator
      else if kind = ''outbox'' then Inr target.Outbox
      else if kind = ''bus'' then
        rbind (ok_or routing_key (Internal ''bus target row is missing its routing key'')) (\<lambda>k. Inr (Bus k))
      else Inl (Internal (''unknown target kind in storage: '' @ dbg kind)))"

definition build_message ::
  "cron_engine \<Rightarrow> (string \<Rightarrow> string) \<Rightarrow> uuid \<Rightarrow> string \<Rightarrow> byte list \<Rightarrow> string \<Rightarrow> string option \<Rightarrow> systime \<Rightarrow> string \<Rightarrow>
   string option \<Rightarrow> (scheduler_error, scheduled_message) result"
where
  "build_message eng dbg sid ev_type bytes tr_kind cron_expr at tg_kind routing_key =
     rbind (build_trigger eng dbg tr_kind cron_expr at) (\<lambda>trg.
       rbind (build_target dbg tg_kind routing_key) (\<lambda>tgt.
         Inr \<lparr>schedule_id = sid, event_type = ev_type, payload = bytes, msg_target = tgt, msg_trigger = trg,
              scheduled_for = at\<rparr>))"

definition terminal_status :: "bool \<Rightarrow> bool \<Rightarrow> bool \<Rightarrow> schedule_status option" where
  "terminal_status delivered cancelled dead_lettered =
     (if dead_lettered then Some DeadLettered else if cancelled then Some Cancelled
      else if delivered then Some Delivered else None)"

definition status_with_paused :: "schedule_status option \<Rightarrow> bool \<Rightarrow> schedule_status" where
  "status_with_paused terminal paused =
     (case terminal of Some st \<Rightarrow> st | None \<Rightarrow> if paused then Paused else Pending)"

definition attempts_from_i64 :: "int \<Rightarrow> u32" where
  "attempts_from_i64 n = (if max n 0 < 2 ^ 32 then word_of_int (max n 0) else - 1)"

definition max_attempts_to_i32 :: "u32 \<Rightarrow> int" where
  "max_attempts_to_i32 n = (if uint n \<le> i32_max then uint n else i32_max)"

definition sched_validate_table_name :: "(string \<Rightarrow> string) \<Rightarrow> string \<Rightarrow> (scheduler_error, unit) result" where
  "sched_validate_table_name fc name =
     map_err (\<lambda>rejection. Internal (''table name `'' @ name @ ''`: '' @ invalid_table_name_display fc rejection))
       (validate_table_name name)"

section \<open>The table\<close>

record ('j, 't) sched_row =
  sr_schedule_id :: uuid
  sr_event_type :: string
  sr_payload :: 'j
  sr_trigger_kind :: string
  sr_cron_expr :: "string option"
  sr_scheduled_for :: 't
  sr_target_kind :: string
  sr_target_routing_key :: "string option"
  sr_attempts :: int
  sr_max_attempts :: int
  sr_leased_until :: "'t option"
  sr_paused :: bool
  sr_last_error :: "string option"
  sr_created_at :: 't
  sr_delivered_at :: "'t option"
  sr_cancelled_at :: "'t option"
  sr_dead_lettered_at :: "'t option"

record ('j, 't) sched_db =
  sd_rows :: "('j, 't) sched_row list"
  sd_now :: 't
  sd_locked :: "uuid list"

record ('j, 't) sched_backend =
  ss_dialect :: dialect
  ss_engine :: cron_engine
  ss_debug :: "string \<Rightarrow> string"
  ss_from_slice :: "byte list \<Rightarrow> (string, 'j) result"
  ss_to_vec :: "'j \<Rightarrow> (string, byte list) result"
  ss_bind :: "systime \<Rightarrow> (scheduler_error, 't) result"
  ss_read :: "'t \<Rightarrow> (scheduler_error, systime) result"
  ss_plus :: "'t \<Rightarrow> duration \<Rightarrow> 't"
  ss_accepts :: "('j, 't) sched_row \<Rightarrow> bool"
  ss_counts_changed :: bool

text \<open>The intervals the dialects bind: capped, in the unit of the driver.\<close>

definition bind_interval :: "dialect \<Rightarrow> duration \<Rightarrow> duration" where
  "bind_interval d lease =
     (case d of
        MySql \<Rightarrow> min (lease div 1000) (2 ^ 63 - 1) * 1000
      | _ \<Rightarrow> min lease (from_secs 9223372036))"

definition now_plus :: "('j, 't) sched_backend \<Rightarrow> duration \<Rightarrow> ('j, 't) sched_db \<Rightarrow> 't" where
  "now_plus b d db = ss_plus b (sd_now db) (bind_interval (ss_dialect b) d)"

text \<open>The conditions of the statements.\<close>

definition not_terminal :: "('j, 't) sched_row \<Rightarrow> bool" where
  "not_terminal r \<longleftrightarrow> sr_delivered_at r = None \<and> sr_cancelled_at r = None \<and> sr_dead_lettered_at r = None"

definition lease_elapsed :: "'t::linorder \<Rightarrow> ('j, 't) sched_row \<Rightarrow> bool" where
  "lease_elapsed now r = (case sr_leased_until r of None \<Rightarrow> True | Some t \<Rightarrow> t \<le> now)"

definition eligible :: "'t::linorder \<Rightarrow> ('j, 't) sched_row \<Rightarrow> bool" where
  "eligible now r \<longleftrightarrow>
     sr_scheduled_for r \<le> now \<and> not_terminal r \<and> \<not> sr_paused r \<and> sr_attempts r < sr_max_attempts r
     \<and> lease_elapsed now r"

definition exhausted_row :: "'t::linorder \<Rightarrow> ('j, 't) sched_row \<Rightarrow> bool" where
  "exhausted_row now r \<longleftrightarrow>
     not_terminal r \<and> \<not> sr_paused r \<and> sr_max_attempts r \<le> sr_attempts r \<and> lease_elapsed now r"

definition lease_fenced :: "uuid \<Rightarrow> 't \<Rightarrow> ('j, 't) sched_row \<Rightarrow> bool" where
  "lease_fenced sid lease r \<longleftrightarrow> sr_schedule_id r = sid \<and> sr_leased_until r = Some lease \<and> not_terminal r"

text \<open>An \<open>UPDATE\<close>: the rows it affects, as the driver counts them, and the table after it.\<close>

definition run_update ::
  "('j, 't) sched_backend \<Rightarrow> (('j, 't) sched_row \<Rightarrow> bool) \<Rightarrow> (('j, 't) sched_row \<Rightarrow> ('j, 't) sched_row) \<Rightarrow>
   ('j, 't) sched_db \<Rightarrow> nat \<times> ('j, 't) sched_db"
where
  "run_update b P f db =
     (length (filter (\<lambda>r. P r \<and> (ss_counts_changed b \<longrightarrow> f r \<noteq> r)) (sd_rows db)),
      db\<lparr>sd_rows := map (\<lambda>r. if P r then f r else r) (sd_rows db)\<rparr>)"

definition row_with_id :: "uuid \<Rightarrow> ('j, 't) sched_db \<Rightarrow> ('j, 't) sched_row option" where
  "row_with_id sid db = find (\<lambda>r. sr_schedule_id r = sid) (sd_rows db)"

section \<open>Decoding\<close>

definition decode_message :: "('j, 't) sched_backend \<Rightarrow> ('j, 't) sched_row \<Rightarrow> (scheduler_error, scheduled_message) result" where
  "decode_message b r =
     rbind (map_err Serialization (ss_to_vec b (sr_payload r))) (\<lambda>bytes.
       rbind (ss_read b (sr_scheduled_for r)) (\<lambda>at.
         build_message (ss_engine b) (ss_debug b) (sr_schedule_id r) (sr_event_type r) bytes (sr_trigger_kind r)
           (sr_cron_expr r) at (sr_target_kind r) (sr_target_routing_key r)))"

definition decode_leased :: "('j, 't) sched_backend \<Rightarrow> ('j, 't) sched_row \<Rightarrow> (scheduler_error, leased_occurrence) result" where
  "decode_leased b r =
     rbind (ok_or (sr_leased_until r) (Database ''leased_until is null'')) (\<lambda>lease.
       rbind (decode_message b r) (\<lambda>msg.
         rbind (ss_read b lease) (\<lambda>until.
           Inr \<lparr>lo_message = msg, lo_attempts = attempts_from_i64 (sr_attempts r),
                lo_max_attempts = attempts_from_i64 (sr_max_attempts r), lo_leased_until = until\<rparr>)))"

definition row_status :: "('j, 't) sched_row \<Rightarrow> schedule_status" where
  "row_status r =
     status_with_paused
       (terminal_status (sr_delivered_at r \<noteq> None) (sr_cancelled_at r \<noteq> None) (sr_dead_lettered_at r \<noteq> None))
       (sr_paused r)"

definition decode_snapshot :: "('j, 't) sched_backend \<Rightarrow> ('j, 't) sched_row \<Rightarrow> (scheduler_error, schedule_snapshot) result" where
  "decode_snapshot b r =
     rbind (ss_read b (sr_scheduled_for r)) (\<lambda>at.
       rbind (build_trigger (ss_engine b) (ss_debug b) (sr_trigger_kind r) (sr_cron_expr r) at) (\<lambda>trg.
         Inr \<lparr>snap_schedule_id = sr_schedule_id r, snap_status = row_status r, snap_scheduled_for = at,
              snap_attempts = attempts_from_i64 (sr_attempts r), snap_max_attempts = attempts_from_i64 (sr_max_attempts r),
              snap_trigger = trg, snap_last_error = sr_last_error r\<rparr>))"

text \<open>Decoding of a result set: the first failure is the result.\<close>

fun decode_all :: "('r \<Rightarrow> ('e, 'v) result) \<Rightarrow> 'r list \<Rightarrow> ('e, 'v list) result" where
  "decode_all f [] = Inr []"
| "decode_all f (r # rs) = rbind (f r) (\<lambda>v. rbind (decode_all f rs) (\<lambda>vs. Inr (v # vs)))"

section \<open>Operations\<close>

type_synonym ('a, 'j, 't) sched_op = "('j, 't) sched_db \<Rightarrow> (scheduler_error, 'a) result \<times> ('j, 't) sched_db"

definition sched_new_row ::
  "('j, 't) sched_backend \<Rightarrow> scheduled_message \<Rightarrow> u32 \<Rightarrow> ('j, 't) sched_db \<Rightarrow> (scheduler_error, ('j, 't) sched_row) result"
where
  "sched_new_row b msg budget db =
     (let (tr_kind, cron_expr) = trigger_columns (msg_trigger msg); (tg_kind, routing_key) = target_columns (msg_target msg)
      in rbind (map_err Serialization (ss_from_slice b (payload msg))) (\<lambda>value.
           rbind (ss_bind b (scheduled_for msg)) (\<lambda>at.
             Inr \<lparr>sr_schedule_id = schedule_id msg, sr_event_type = event_type msg, sr_payload = value,
                  sr_trigger_kind = tr_kind, sr_cron_expr = cron_expr, sr_scheduled_for = at,
                  sr_target_kind = tg_kind, sr_target_routing_key = routing_key, sr_attempts = 0,
                  sr_max_attempts = max_attempts_to_i32 budget, sr_leased_until = None, sr_paused = False,
                  sr_last_error = None, sr_created_at = sd_now db, sr_delivered_at = None,
                  sr_cancelled_at = None, sr_dead_lettered_at = None\<rparr>)))"

definition sched_insert :: "('j, 't) sched_backend \<Rightarrow> scheduled_message \<Rightarrow> u32 \<Rightarrow> (unit, 'j, 't) sched_op" where
  "sched_insert b msg budget db =
     (case sched_new_row b msg budget db of
        Inl e \<Rightarrow> (Inl e, db)
      | Inr r \<Rightarrow>
          if row_with_id (schedule_id msg) db \<noteq> None \<or> \<not> ss_accepts b r then (Inl (Database ''constraint violation''), db)
          else (Inr (), db\<lparr>sd_rows := sd_rows db @ [r]\<rparr>))"

text \<open>\<open>SELECT ... ORDER BY scheduled_for LIMIT n [FOR UPDATE SKIP LOCKED]\<close>.\<close>

definition due_order :: "('j, 't::linorder) sched_db \<Rightarrow> ('j, 't) sched_row list" where
  "due_order db = sort_by (\<lambda>r r'. sr_scheduled_for r \<le> sr_scheduled_for r') (sd_rows db)"

definition claim_select :: "dialect \<Rightarrow> usize \<Rightarrow> ('j, 't::linorder) sched_db \<Rightarrow> uuid list" where
  "claim_select d batch_size db =
     map sr_schedule_id (take (bind_limit batch_size)
       (filter (\<lambda>r. eligible (sd_now db) r \<and> \<not> (supports_skip_locked d \<and> sr_schedule_id r \<in> set (sd_locked db)))
          (due_order db)))"

definition lease_row :: "'t \<Rightarrow> ('j, 't) sched_row \<Rightarrow> ('j, 't) sched_row" where
  "lease_row until r = r\<lparr>sr_leased_until := Some until, sr_attempts := sr_attempts r + 1\<rparr>"

text \<open>\<open>UPDATE ... WHERE schedule_id IN (...)\<close>.\<close>

definition claim_lease :: "'t \<Rightarrow> uuid list \<Rightarrow> ('j, 't) sched_db \<Rightarrow> ('j, 't) sched_db" where
  "claim_lease until ids db =
     db\<lparr>sd_rows := map (\<lambda>r. if sr_schedule_id r \<in> set ids then lease_row until r else r) (sd_rows db)\<rparr>"

definition rows_with_ids :: "uuid list \<Rightarrow> ('j, 't) sched_db \<Rightarrow> ('j, 't) sched_row list" where
  "rows_with_ids ids db = filter (\<lambda>r. sr_schedule_id r \<in> set ids) (sd_rows db)"

text \<open>PostgreSQL and SQLite: one statement returns the rows it updated.\<close>

definition sched_claim_returning ::
  "('j, 't::linorder) sched_backend \<Rightarrow> usize \<Rightarrow> duration \<Rightarrow> ('j, 't) sched_db \<Rightarrow> ('j, 't) sched_row list \<times> ('j, 't) sched_db"
where
  "sched_claim_returning b batch_size lease db =
     (let ids = claim_select (ss_dialect b) batch_size db; until = now_plus b lease db
      in (map (lease_row until) (rows_with_ids ids db), claim_lease until ids db))"

text \<open>MySQL: select and lock, lease, and read back, in one transaction.\<close>

definition sched_claim_mysql ::
  "('j, 't::linorder) sched_backend \<Rightarrow> usize \<Rightarrow> duration \<Rightarrow> ('j, 't) sched_db \<Rightarrow> ('j, 't) sched_row list \<times> ('j, 't) sched_db"
where
  "sched_claim_mysql b batch_size lease db =
     (let ids = claim_select (ss_dialect b) batch_size db
      in if ids = [] then ([], db)
         else let db' = claim_lease (now_plus b lease db) ids db in (rows_with_ids ids db', db'))"

text \<open>The claimed rows are decoded after the update has been committed.\<close>

definition sched_claim_due ::
  "('j, 't::linorder) sched_backend \<Rightarrow> usize \<Rightarrow> duration \<Rightarrow> (leased_occurrence list, 'j, 't) sched_op"
where
  "sched_claim_due b batch_size lease db =
     (let (rows, db') = (case ss_dialect b of
          MySql \<Rightarrow> sched_claim_mysql b batch_size lease db
        | _ \<Rightarrow> sched_claim_returning b batch_size lease db)
      in (decode_all (decode_leased b) rows, db'))"

text \<open>The acknowledgements: fenced on the lease, as it is bound.\<close>

definition fenced_statement ::
  "('j, 't) sched_backend \<Rightarrow> uuid \<Rightarrow> systime \<Rightarrow> (('j, 't) sched_row \<Rightarrow> ('j, 't) sched_row) \<Rightarrow> (bool, 'j, 't) sched_op"
where
  "fenced_statement b sid lease f db =
     (case ss_bind b lease of
        Inl e \<Rightarrow> (Inl e, db)
      | Inr l \<Rightarrow> let (n, db') = run_update b (lease_fenced sid l) f db in (Inr (0 < n), db'))"

definition sched_mark_delivered :: "('j, 't) sched_backend \<Rightarrow> uuid \<Rightarrow> systime \<Rightarrow> (bool, 'j, 't) sched_op" where
  "sched_mark_delivered b sid lease db =
     fenced_statement b sid lease (\<lambda>r. r\<lparr>sr_delivered_at := Some (sd_now db), sr_leased_until := None\<rparr>) db"

definition sched_reschedule :: "('j, 't) sched_backend \<Rightarrow> uuid \<Rightarrow> systime \<Rightarrow> systime \<Rightarrow> (bool, 'j, 't) sched_op" where
  "sched_reschedule b sid next_at lease db =
     (case ss_bind b next_at of
        Inl e \<Rightarrow> (Inl e, db)
      | Inr t \<Rightarrow> fenced_statement b sid lease
          (\<lambda>r. r\<lparr>sr_scheduled_for := t, sr_attempts := 0, sr_leased_until := None, sr_last_error := None\<rparr>) db)"

definition sched_mark_failed ::
  "('j, 't) sched_backend \<Rightarrow> uuid \<Rightarrow> duration \<Rightarrow> string \<Rightarrow> systime \<Rightarrow> (bool, 'j, 't) sched_op"
where
  "sched_mark_failed b sid retry_in err lease db =
     fenced_statement b sid lease
       (\<lambda>r. r\<lparr>sr_leased_until := Some (now_plus b retry_in db), sr_last_error := Some err\<rparr>) db"

definition sched_mark_dead_lettered ::
  "('j, 't) sched_backend \<Rightarrow> uuid \<Rightarrow> string \<Rightarrow> systime \<Rightarrow> (bool, 'j, 't) sched_op"
where
  "sched_mark_dead_lettered b sid err lease db =
     fenced_statement b sid lease
       (\<lambda>r. r\<lparr>sr_dead_lettered_at := Some (sd_now db), sr_last_error := Some err, sr_leased_until := None\<rparr>) db"

definition sched_dead_letter_exhausted :: "('j, 't::linorder) sched_backend \<Rightarrow> (u64, 'j, 't) sched_op" where
  "sched_dead_letter_exhausted b db =
     (let (n, db') = run_update b (exhausted_row (sd_now db))
        (\<lambda>r. r\<lparr>sr_dead_lettered_at := Some (sd_now db), sr_last_error := Some dead_letter_exhausted_message,
                sr_leased_until := None\<rparr>) db
      in (Inr (word_of_nat n), db'))"

definition ensure_exists :: "uuid \<Rightarrow> ('j, 't) sched_db \<Rightarrow> (scheduler_error, unit) result" where
  "ensure_exists sid db = (if row_with_id sid db \<noteq> None then Inr () else Inl (ScheduleNotFound sid))"

text \<open>A control statement, with the probe for the schedule when it affected nothing.\<close>

definition control_statement ::
  "('j, 't) sched_backend \<Rightarrow> uuid \<Rightarrow> (('j, 't) sched_row \<Rightarrow> bool) \<Rightarrow> (('j, 't) sched_row \<Rightarrow> ('j, 't) sched_row) \<Rightarrow>
   (unit, 'j, 't) sched_op"
where
  "control_statement b sid P f db =
     (let (n, db') = run_update b (\<lambda>r. sr_schedule_id r = sid \<and> P r) f db
      in (if n = 0 then ensure_exists sid db' else Inr (), db'))"

definition sched_cancel :: "('j, 't) sched_backend \<Rightarrow> uuid \<Rightarrow> (unit, 'j, 't) sched_op" where
  "sched_cancel b sid db =
     control_statement b sid not_terminal (\<lambda>r. r\<lparr>sr_cancelled_at := Some (sd_now db), sr_leased_until := None\<rparr>) db"

definition sched_set_paused :: "('j, 't) sched_backend \<Rightarrow> uuid \<Rightarrow> bool \<Rightarrow> (unit, 'j, 't) sched_op" where
  "sched_set_paused b sid paused db = control_statement b sid (\<lambda>_. True) (\<lambda>r. r\<lparr>sr_paused := paused\<rparr>) db"

definition sched_inspect :: "('j, 't) sched_backend \<Rightarrow> uuid \<Rightarrow> (schedule_snapshot option, 'j, 't) sched_op" where
  "sched_inspect b sid db =
     (case row_with_id sid db of
        None \<Rightarrow> (Inr None, db)
      | Some r \<Rightarrow> (rbind (decode_snapshot b r) (\<lambda>s. Inr (Some s)), db))"

definition sched_resume :: "('j, 't) sched_backend \<Rightarrow> uuid \<Rightarrow> systime option \<Rightarrow> (unit, 'j, 't) sched_op" where
  "sched_resume b sid next_at db =
     (case next_at of
        Some next_time \<Rightarrow>
          (case ss_bind b next_time of
             Inl e \<Rightarrow> (Inl e, db)
           | Inr t \<Rightarrow> control_statement b sid (\<lambda>r. sr_paused r \<and> not_terminal r)
               (\<lambda>r. r\<lparr>sr_paused := False, sr_scheduled_for := t, sr_attempts := 0, sr_last_error := None,
                       sr_leased_until := None\<rparr>) db)
      | None \<Rightarrow> control_statement b sid (\<lambda>r. sr_paused r \<and> not_terminal r)
          (\<lambda>r. r\<lparr>sr_paused := False, sr_leased_until := None\<rparr>) db)"

definition sched_list_pending :: "('j, 't::linorder) sched_backend \<Rightarrow> usize \<Rightarrow> (schedule_snapshot list, 'j, 't) sched_op" where
  "sched_list_pending b limit db =
     (decode_all (decode_snapshot b) (take (bind_limit limit) (filter not_terminal (due_order db))), db)"

definition sched_list_dead_letter ::
  "('j, 't::linorder) sched_backend \<Rightarrow> usize \<Rightarrow> (schedule_snapshot list, 'j, 't) sched_op"
where
  "sched_list_dead_letter b limit db =
     (decode_all (decode_snapshot b) (take (bind_limit limit)
        (sort_by (\<lambda>r r'. option_le (sr_dead_lettered_at r') (sr_dead_lettered_at r))
           (filter (\<lambda>r. sr_dead_lettered_at r \<noteq> None) (sd_rows db)))), db)"

definition sched_replay :: "('j, 't) sched_backend \<Rightarrow> uuid \<Rightarrow> (unit, 'j, 't) sched_op" where
  "sched_replay b sid db =
     (let (n, db') = run_update b (\<lambda>r. sr_schedule_id r = sid \<and> sr_dead_lettered_at r \<noteq> None)
        (\<lambda>r. r\<lparr>sr_scheduled_for := sd_now db, sr_attempts := 0, sr_leased_until := None, sr_last_error := None,
                sr_paused := False, sr_dead_lettered_at := None\<rparr>) db
      in if n = 0 then
           (case fst (sched_inspect b sid db') of
              Inl e \<Rightarrow> (Inl e, db')
            | Inr None \<Rightarrow> (Inl (ScheduleNotFound sid), db')
            | Inr (Some s) \<Rightarrow> (Inl (NotReplayable sid (snap_status s)), db'))
         else (Inr (), db'))"

section \<open>Calls\<close>

text \<open>
  The calls that change the table, by any number of workers, operators and control handles; each is
  one statement or one transaction. The database may refuse a call, or apply it and report a failure.
  Between calls the clock of the database and the locks of other transactions change.
\<close>

datatype 't sched_call =
    SInsert scheduled_message u32
  | SClaim usize duration
  | SDelivered uuid systime
  | SReschedule uuid systime systime
  | SFailed uuid duration string systime
  | SDead uuid string systime
  | SSweep
  | SCancel uuid
  | SPause uuid bool
  | SResume uuid "systime option"
  | SReplay uuid
  | SClock 't
  | SLocks "uuid list"

fun sched_exec :: "('j, 't::linorder) sched_backend \<Rightarrow> 't sched_call \<Rightarrow> ('j, 't) sched_db \<Rightarrow> ('j, 't) sched_db" where
  "sched_exec b (SInsert msg n) db = snd (sched_insert b msg n db)"
| "sched_exec b (SClaim n d) db = snd (sched_claim_due b n d db)"
| "sched_exec b (SDelivered i l) db = snd (sched_mark_delivered b i l db)"
| "sched_exec b (SReschedule i t l) db = snd (sched_reschedule b i t l db)"
| "sched_exec b (SFailed i d e l) db = snd (sched_mark_failed b i d e l db)"
| "sched_exec b (SDead i e l) db = snd (sched_mark_dead_lettered b i e l db)"
| "sched_exec b SSweep db = snd (sched_dead_letter_exhausted b db)"
| "sched_exec b (SCancel i) db = snd (sched_cancel b i db)"
| "sched_exec b (SPause i p) db = snd (sched_set_paused b i p db)"
| "sched_exec b (SResume i t) db = snd (sched_resume b i t db)"
| "sched_exec b (SReplay i) db = snd (sched_replay b i db)"
| "sched_exec b (SClock now) db = db\<lparr>sd_now := now\<rparr>"
| "sched_exec b (SLocks ids) db = db\<lparr>sd_locked := ids\<rparr>"

text \<open>A run: the calls, each with whether the database applies it.\<close>

fun sched_run :: "('j, 't::linorder) sched_backend \<Rightarrow> ('t sched_call \<times> bool) list \<Rightarrow> ('j, 't) sched_db \<Rightarrow> ('j, 't) sched_db" where
  "sched_run b [] db = db"
| "sched_run b ((c, applied) # cs) db = sched_run b cs (if applied then sched_exec b c db else db)"

definition sched_db_init :: "'t \<Rightarrow> ('j, 't) sched_db" where
  "sched_db_init now = \<lparr>sd_rows = [], sd_now = now, sd_locked = []\<rparr>"

section \<open>The invariant of the table\<close>

text \<open>
  At most one terminal timestamp is set, a terminal row holds no lease, and the attempts stay within
  the budget, which fits the column.
\<close>

definition sched_row_ok :: "('j, 't) sched_row \<Rightarrow> bool" where
  "sched_row_ok r \<longleftrightarrow>
     0 \<le> sr_attempts r \<and> sr_attempts r \<le> sr_max_attempts r \<and> sr_max_attempts r \<le> i32_max
     \<and> (sr_delivered_at r = None \<or> sr_cancelled_at r = None) \<and> (sr_delivered_at r = None \<or> sr_dead_lettered_at r = None)
     \<and> (sr_cancelled_at r = None \<or> sr_dead_lettered_at r = None)
     \<and> (not_terminal r \<or> sr_leased_until r = None)"

definition sched_table_ok :: "('j, 't) sched_db \<Rightarrow> bool" where
  "sched_table_ok db \<longleftrightarrow> distinct (map sr_schedule_id (sd_rows db)) \<and> (\<forall>r\<in>set (sd_rows db). sched_row_ok r)"

definition finished_row :: "('j, 't) sched_row \<Rightarrow> bool" where
  "finished_row r \<longleftrightarrow> sr_delivered_at r \<noteq> None \<or> sr_cancelled_at r \<noteq> None"

text \<open>What no call changes of a row.\<close>

definition row_body ::
  "('j, 't) sched_row \<Rightarrow> uuid \<times> string \<times> 'j \<times> (string \<times> string option) \<times> (string \<times> string option) \<times> int"
where
  "row_body r = (sr_schedule_id r, sr_event_type r, sr_payload r, (sr_trigger_kind r, sr_cron_expr r),
     (sr_target_kind r, sr_target_routing_key r), sr_max_attempts r)"

text \<open>What a call does to a row: it keeps its body, the invariant, and all of a finished row but the paused flag.\<close>

definition row_step :: "('j, 't) sched_row \<Rightarrow> ('j, 't) sched_row \<Rightarrow> bool" where
  "row_step r r' \<longleftrightarrow>
     row_body r' = row_body r \<and> sched_row_ok r'
     \<and> (finished_row r \<longrightarrow> r'\<lparr>sr_paused := sr_paused r\<rparr> = r)"

lemma row_step_refl: "sched_row_ok r \<Longrightarrow> row_step r r"
  by (simp add: row_step_def)

lemma run_update_rows [simp]:
  "sd_rows (snd (run_update b P f db)) = map (\<lambda>r. if P r then f r else r) (sd_rows db)"
  "sd_now (snd (run_update b P f db)) = sd_now db"
  "sd_locked (snd (run_update b P f db)) = sd_locked db"
  by (simp_all add: run_update_def)

lemma snd_fenced_statement:
  "snd (fenced_statement b i lease f db) =
     (case ss_bind b lease of Inl _ \<Rightarrow> db | Inr l \<Rightarrow> snd (run_update b (lease_fenced i l) f db))"
  by (simp add: fenced_statement_def case_prod_beta Let_def split: sum.split)

lemma snd_control_statement:
  "snd (control_statement b i P f db) = snd (run_update b (\<lambda>r. sr_schedule_id r = i \<and> P r) f db)"
  by (simp add: control_statement_def case_prod_beta Let_def)

lemma snd_sched_replay:
  "snd (sched_replay b i db) = snd (run_update b (\<lambda>r. sr_schedule_id r = i \<and> sr_dead_lettered_at r \<noteq> None)
     (\<lambda>r. r\<lparr>sr_scheduled_for := sd_now db, sr_attempts := 0, sr_leased_until := None, sr_last_error := None,
             sr_paused := False, sr_dead_lettered_at := None\<rparr>) db)"
  by (simp add: sched_replay_def case_prod_beta Let_def split: sum.split option.split)

lemma claim_select_row:
  assumes "distinct (map sr_schedule_id (sd_rows db))" and "r \<in> set (sd_rows db)"
    and "sr_schedule_id r \<in> set (claim_select d n db)"
  shows "eligible (sd_now db) r \<and> \<not> (supports_skip_locked d \<and> sr_schedule_id r \<in> set (sd_locked db))"
proof -
  obtain r' where r': "r' \<in> set (sd_rows db)" "sr_schedule_id r' = sr_schedule_id r" "eligible (sd_now db) r'"
      "\<not> (supports_skip_locked d \<and> sr_schedule_id r' \<in> set (sd_locked db))"
    using assms(3) by (auto simp: claim_select_def due_order_def dest!: in_set_takeD)
  then have "r' = r" using assms(1,2) by (metis distinct_map inj_onD)
  then show ?thesis using r' by simp
qed

lemma map_lease_rows: "rows_with_ids ids (claim_lease until ids db) = map (lease_row until) (rows_with_ids ids db)"
proof -
  have "filter (\<lambda>r. sr_schedule_id r \<in> set ids) (map (\<lambda>r. if sr_schedule_id r \<in> set ids then lease_row until r else r) rs)
      = map (lease_row until) (filter (\<lambda>r. sr_schedule_id r \<in> set ids) rs)" for rs
    by (induction rs) (simp_all add: lease_row_def)
  then show ?thesis by (simp add: rows_with_ids_def claim_lease_def)
qed

text \<open>All dialects claim alike.\<close>

lemma sched_claim_eq:
  "sched_claim_due b n d db =
     (let ids = claim_select (ss_dialect b) n db; until = now_plus b d db
      in (decode_all (decode_leased b) (map (lease_row until) (rows_with_ids ids db)), claim_lease until ids db))"
proof -
  have "claim_lease until [] db = db" "rows_with_ids [] db = []" for until
    by (simp_all add: claim_lease_def rows_with_ids_def)
  then show ?thesis
    by (simp add: sched_claim_due_def sched_claim_mysql_def sched_claim_returning_def Let_def map_lease_rows split: dialect.split)
qed

lemma sched_row_ok_lease: "sched_row_ok r \<Longrightarrow> eligible now r \<Longrightarrow> sched_row_ok (lease_row until r) \<and> \<not> finished_row r"
  by (auto simp: sched_row_ok_def eligible_def lease_row_def not_terminal_def finished_row_def)

lemma sched_new_row_ok:
  "sched_new_row b msg n db = Inr r \<Longrightarrow> sr_schedule_id r = schedule_id msg \<and> sched_row_ok r"
  by (auto simp: sched_new_row_def case_prod_beta Let_def result_simps sched_row_ok_def not_terminal_def max_attempts_to_i32_def i32_max_def)

lemma row_with_id_None: "row_with_id i db = None \<longleftrightarrow> i \<notin> sr_schedule_id ` set (sd_rows db)"
  by (auto simp: row_with_id_def find_None_iff)

text \<open>The rows of a table, each after a step of its own.\<close>

definition rows_step :: "('j, 't) sched_db \<Rightarrow> ('j, 't) sched_db \<Rightarrow> bool" where
  "rows_step db db' \<longleftrightarrow> (\<exists>g. sd_rows db' = map g (sd_rows db) \<and> (\<forall>r\<in>set (sd_rows db). row_step r (g r)))"

lemma rows_step_same: "sched_table_ok db \<Longrightarrow> sd_rows db' = sd_rows db \<Longrightarrow> rows_step db db'"
  unfolding rows_step_def by (intro exI [of _ "\<lambda>r. r"]) (auto simp: sched_table_ok_def row_step_refl)

lemma rows_step_update:
  assumes "sched_table_ok db" and "\<And>r. sched_row_ok r \<Longrightarrow> P r \<Longrightarrow> row_step r (f r)"
  shows "rows_step db (snd (run_update b P f db))"
  unfolding rows_step_def using assms
  by (intro exI [of _ "\<lambda>r. if P r then f r else r"]) (auto simp: sched_table_ok_def row_step_refl)

lemma row_step_unfinished:
  "not_terminal r \<Longrightarrow> row_body r' = row_body r \<Longrightarrow> sched_row_ok r' \<Longrightarrow> row_step r r'"
  by (simp add: row_step_def finished_row_def not_terminal_def)

lemma rows_step_fenced:
  assumes "sched_table_ok db" and "\<And>r. sched_row_ok r \<Longrightarrow> not_terminal r \<Longrightarrow> row_body (f r) = row_body r \<and> sched_row_ok (f r)"
  shows "rows_step db (snd (fenced_statement b i lease f db))"
  by (cases "ss_bind b lease")
    (auto simp: snd_fenced_statement rows_step_same assms lease_fenced_def intro!: rows_step_update row_step_unfinished)

lemma rows_step_control:
  assumes "sched_table_ok db" and "\<And>r. P r \<Longrightarrow> not_terminal r"
    and "\<And>r. sched_row_ok r \<Longrightarrow> not_terminal r \<Longrightarrow> row_body (f r) = row_body r \<and> sched_row_ok (f r)"
  shows "rows_step db (snd (control_statement b i P f db))"
  unfolding snd_control_statement by (rule rows_step_update [OF assms(1)]) (use assms(2,3) in \<open>auto intro!: row_step_unfinished\<close>)

lemma row_step_paused: "sched_row_ok r \<Longrightarrow> row_step r (r\<lparr>sr_paused := p\<rparr>)"
  by (simp add: row_step_def row_body_def sched_row_ok_def not_terminal_def)

lemma rows_step_claim:
  assumes ok: "sched_table_ok db"
  shows "rows_step db (snd (sched_claim_due b n d db))"
proof -
  have dist: "distinct (map sr_schedule_id (sd_rows db))" using ok by (simp add: sched_table_ok_def)
  let ?g = "\<lambda>r. if sr_schedule_id r \<in> set (claim_select (ss_dialect b) n db) then lease_row (now_plus b d db) r else r"
  have "row_step r (?g r)" if "r \<in> set (sd_rows db)" for r
    using claim_select_row [OF dist that, of "ss_dialect b" n] ok that sched_row_ok_lease [of r "sd_now db" "now_plus b d db"]
    by (auto simp: row_step_def row_body_def sched_table_ok_def lease_row_def)
  then show ?thesis unfolding rows_step_def by (intro exI [of _ ?g]) (simp add: sched_claim_eq Let_def claim_lease_def)
qed

lemma rows_step_replay: "sched_table_ok db \<Longrightarrow> rows_step db (snd (sched_replay b i db))"
  unfolding snd_sched_replay
  by (rule rows_step_update) (auto simp: row_step_def row_body_def sched_row_ok_def finished_row_def not_terminal_def)

lemma rows_step_sweep: "sched_table_ok db \<Longrightarrow> rows_step db (snd (sched_dead_letter_exhausted b db))"
  unfolding sched_dead_letter_exhausted_def case_prod_beta Let_def snd_conv
  by (rule rows_step_update) (auto simp: exhausted_row_def row_body_def sched_row_ok_def not_terminal_def intro!: row_step_unfinished)

lemma rows_step_reschedule: "sched_table_ok db \<Longrightarrow> rows_step db (snd (sched_reschedule b i t l db))"
  by (cases "ss_bind b t") (auto simp: sched_reschedule_def rows_step_same row_body_def sched_row_ok_def not_terminal_def intro!: rows_step_fenced)

lemma rows_step_resume: "sched_table_ok db \<Longrightarrow> rows_step db (snd (sched_resume b i t db))"
  by (cases t; cases "ss_bind b (the t)")
    (auto simp: sched_resume_def rows_step_same row_body_def sched_row_ok_def not_terminal_def intro!: rows_step_control)

text \<open>Every call changes the rows one by one, except an insert, which adds one.\<close>

lemma sched_exec_step:
  assumes ok: "sched_table_ok db" and "\<nexists>msg n. c = SInsert msg n"
  shows "rows_step db (sched_exec b c db)"
proof (cases c)
  case (SPause i p)
  show ?thesis
    unfolding SPause sched_exec.simps sched_set_paused_def snd_control_statement
    by (rule rows_step_update [OF ok]) (simp add: row_step_paused)
qed (use assms(2) in \<open>auto simp: sched_mark_delivered_def sched_mark_failed_def sched_mark_dead_lettered_def sched_cancel_def
      row_body_def sched_row_ok_def not_terminal_def rows_step_same [OF ok]
      intro!: rows_step_fenced [OF ok] rows_step_control [OF ok] rows_step_claim [OF ok] rows_step_replay [OF ok]
        rows_step_sweep [OF ok] rows_step_reschedule [OF ok] rows_step_resume [OF ok]\<close>)

lemma sched_exec_rows:
  assumes ok: "sched_table_ok db"
  shows "rows_step db (sched_exec b c db)
    \<or> (\<exists>r. sd_rows (sched_exec b c db) = sd_rows db @ [r] \<and> sr_schedule_id r \<notin> sr_schedule_id ` set (sd_rows db) \<and> sched_row_ok r)"
proof (cases "\<exists>msg n. c = SInsert msg n")
  case True
  then obtain msg n where c: "c = SInsert msg n" by blast
  show ?thesis
  proof (cases "sched_new_row b msg n db")
    case (Inr r)
    then show ?thesis
      using c ok sched_new_row_ok [OF Inr] rows_step_same [OF ok, of db] by (auto simp: sched_insert_def row_with_id_None)
  qed (use c rows_step_same [OF ok, of db] in \<open>simp add: sched_insert_def\<close>)
qed (use sched_exec_step [OF ok] in blast)

lemma sched_exec_ok:
  assumes "sched_table_ok db"
  shows "sched_table_ok (sched_exec b c db)"
proof -
  consider g where "sd_rows (sched_exec b c db) = map g (sd_rows db)" "\<forall>r\<in>set (sd_rows db). row_step r (g r)"
    | r where "sd_rows (sched_exec b c db) = sd_rows db @ [r]" "sr_schedule_id r \<notin> sr_schedule_id ` set (sd_rows db)" "sched_row_ok r"
    using sched_exec_rows [OF assms, of b c] by (auto simp: rows_step_def)
  then show ?thesis
  proof cases
    case 1
    then have "map sr_schedule_id (map g (sd_rows db)) = map sr_schedule_id (sd_rows db)" by (simp add: row_step_def row_body_def)
    then show ?thesis using 1 assms by (auto simp: sched_table_ok_def row_step_def simp del: map_map)
  qed (use assms in \<open>auto simp: sched_table_ok_def\<close>)
qed

lemma sched_run_ok: "sched_table_ok db \<Longrightarrow> sched_table_ok (sched_run b cs db)"
  by (induction b cs db rule: sched_run.induct) (auto simp: sched_exec_ok)

lemma sched_db_init_ok [simp]: "sched_table_ok (sched_db_init now)"
  by (simp add: sched_db_init_def sched_table_ok_def)

lemma finished_exec:
  assumes "sched_table_ok db" and "r \<in> set (sd_rows db)" and "finished_row r"
  shows "\<exists>p. r\<lparr>sr_paused := p\<rparr> \<in> set (sd_rows (sched_exec b c db))"
proof -
  have r: "r = r\<lparr>sr_paused := sr_paused r\<rparr>" by simp
  from sched_exec_rows [OF assms(1), of b c] show ?thesis
  proof
    assume "rows_step db (sched_exec b c db)"
    then obtain g where rows: "sd_rows (sched_exec b c db) = map g (sd_rows db)" "\<forall>r\<in>set (sd_rows db). row_step r (g r)"
      unfolding rows_step_def by blast
    then have g: "g r \<in> set (sd_rows (sched_exec b c db))" "(g r)\<lparr>sr_paused := sr_paused r\<rparr> = r"
      using assms(2,3) by (simp_all add: row_step_def)
    have "r\<lparr>sr_paused := sr_paused (g r)\<rparr> = (g r)\<lparr>sr_paused := sr_paused r\<rparr>\<lparr>sr_paused := sr_paused (g r)\<rparr>"
      unfolding g(2) ..
    then have "r\<lparr>sr_paused := sr_paused (g r)\<rparr> = g r" by simp
    then show ?thesis using g(1) by metis
  next
    assume "\<exists>r. sd_rows (sched_exec b c db) = sd_rows db @ [r] \<and> sr_schedule_id r \<notin> sr_schedule_id ` set (sd_rows db) \<and> sched_row_ok r"
    then have "r\<lparr>sr_paused := sr_paused r\<rparr> \<in> set (sd_rows (sched_exec b c db))" using assms(2) by auto
    then show ?thesis by blast
  qed
qed

lemma finished_run:
  "sched_table_ok db \<Longrightarrow> r \<in> set (sd_rows db) \<Longrightarrow> finished_row r \<Longrightarrow> \<exists>p. r\<lparr>sr_paused := p\<rparr> \<in> set (sd_rows (sched_run b cs db))"
proof (induction cs arbitrary: db r)
  case Nil
  have "r\<lparr>sr_paused := sr_paused r\<rparr> \<in> set (sd_rows db)" using Nil.prems(2) by simp
  then show ?case unfolding sched_run.simps by blast
next
  case (Cons ca cs)
  obtain c applied where ca: "ca = (c, applied)" by (cases ca)
  show ?case
  proof (cases applied)
    case True
    obtain p where p: "r\<lparr>sr_paused := p\<rparr> \<in> set (sd_rows (sched_exec b c db))"
      using finished_exec [OF Cons.prems] by blast
    have "finished_row (r\<lparr>sr_paused := p\<rparr>)" using Cons.prems(3) by (simp add: finished_row_def)
    then show ?thesis using Cons.IH [OF sched_exec_ok [OF Cons.prems(1)] p] True ca by auto
  qed (use Cons ca in simp)
qed

text \<open>The rows a claim may take, said without the statement: pending, due, within the budget, without a
  live lease, and not locked by another transaction where the dialect skips locked rows.\<close>

definition claim_free :: "('j, 't::linorder) sched_backend \<Rightarrow> ('j, 't) sched_db \<Rightarrow> ('j, 't) sched_row \<Rightarrow> bool" where
  "claim_free b db r \<longleftrightarrow>
     row_status r = Pending \<and> sr_scheduled_for r \<le> sd_now db \<and> sr_attempts r < sr_max_attempts r
     \<and> (case sr_leased_until r of None \<Rightarrow> True | Some l \<Rightarrow> \<not> sd_now db < l)
     \<and> (sr_schedule_id r \<in> set (sd_locked db) \<longrightarrow> ss_dialect b = Sqlite)"

lemma row_status_simps:
  "row_status r = Pending \<longleftrightarrow> not_terminal r \<and> \<not> sr_paused r"
  "row_status r = Paused \<longleftrightarrow> not_terminal r \<and> sr_paused r"
  "is_terminal (row_status r) \<longleftrightarrow> \<not> not_terminal r"
  "row_status r = DeadLettered \<longleftrightarrow> sr_dead_lettered_at r \<noteq> None"
  by (auto simp: row_status_def status_with_paused_def terminal_status_def not_terminal_def split: option.splits if_splits)

lemma claim_free_eligible:
  "claim_free b db r \<longleftrightarrow> eligible (sd_now db) r
     \<and> \<not> (supports_skip_locked (ss_dialect b) \<and> sr_schedule_id r \<in> set (sd_locked db))"
  by (cases "ss_dialect b")
    (auto simp: claim_free_def eligible_def lease_elapsed_def row_status_simps supports_skip_locked_def split: option.splits)

definition due_rows :: "('j, 't::linorder) sched_backend \<Rightarrow> ('j, 't) sched_db \<Rightarrow> ('j, 't) sched_row list" where
  "due_rows b db = filter (claim_free b db) (due_order db)"

lemma set_due_rows: "set (due_rows b db) = {r \<in> set (sd_rows db). claim_free b db r}"
  by (simp add: due_rows_def due_order_def set_filter)

lemma sorted_due_rows: "sorted_wrt (\<lambda>r r'. sr_scheduled_for r \<le> sr_scheduled_for r') (due_rows b db)"
  unfolding due_rows_def due_order_def
  by (intro sorted_wrt_filter sorted_sort_by) (auto simp: total_preorder_def)

lemma claim_select_due: "claim_select (ss_dialect b) n db = map sr_schedule_id (take (bind_limit n) (due_rows b db))"
  by (simp add: claim_select_def due_rows_def claim_free_eligible [abs_def])

lemma distinct_due_order: "distinct (map sr_schedule_id (sd_rows db)) \<Longrightarrow> distinct (map sr_schedule_id (due_order db))"
  by (metis due_order_def mset_map mset_sort_by mset_eq_imp_distinct_iff)

lemma distinct_due_rows: "distinct (map sr_schedule_id (sd_rows db)) \<Longrightarrow> distinct (map sr_schedule_id (due_rows b db))"
  unfolding due_rows_def by (rule distinct_map_filter) (rule distinct_due_order)

text \<open>The rows with the selected ids are the selected rows.\<close>

lemma taken_rows:
  assumes dist: "distinct (map sr_schedule_id (sd_rows db))"
  shows "set (rows_with_ids (claim_select (ss_dialect b) n db) db) = set (take (bind_limit n) (due_rows b db))"
    and "mset (rows_with_ids (claim_select (ss_dialect b) n db) db) = mset (take (bind_limit n) (due_rows b db))"
proof -
  let ?rows = "rows_with_ids (claim_select (ss_dialect b) n db) db" and ?picks = "take (bind_limit n) (due_rows b db)"
  have sub: "set ?picks \<subseteq> set (sd_rows db)" using set_take_subset set_due_rows by fastforce
  show eq: "set ?rows = set ?picks"
  proof
    show "set ?rows \<subseteq> set ?picks"
    proof
      fix r assume "r \<in> set ?rows"
      then obtain q where "q \<in> set ?picks" "sr_schedule_id q = sr_schedule_id r" "r \<in> set (sd_rows db)"
        by (auto simp: rows_with_ids_def claim_select_due)
      then show "r \<in> set ?picks" using dist sub by (metis distinct_map inj_onD subsetD)
    qed
  qed (use sub in \<open>auto simp: rows_with_ids_def claim_select_due\<close>)
  have "distinct ?rows" using dist by (simp add: rows_with_ids_def distinct_map)
  moreover have "distinct ?picks" using distinct_due_rows [OF dist, of b] by (simp add: distinct_map)
  ultimately show "mset ?rows = mset ?picks" using eq by (simp add: set_eq_iff_mset_eq_distinct)
qed

lemma untaken_row:
  assumes "r \<in> set (due_rows b db)" and "r \<notin> set (take n (due_rows b db))"
  shows "length (take n (due_rows b db)) = n" and "r' \<in> set (take n (due_rows b db)) \<Longrightarrow> sr_scheduled_for r' \<le> sr_scheduled_for r"
proof -
  have drop: "r \<in> set (drop n (due_rows b db))"
    using assms by (metis Un_iff append_take_drop_id set_append)
  then show "length (take n (due_rows b db)) = n" by (cases "n \<le> length (due_rows b db)") simp_all
  show "sr_scheduled_for r' \<le> sr_scheduled_for r" if "r' \<in> set (take n (due_rows b db))"
    using sorted_due_rows [of b db] drop that by (metis append_take_drop_id sorted_wrt_append)
qed

lemma claim_select_all:
  assumes "length (sd_rows db) \<le> bind_limit n"
  shows "set (claim_select (ss_dialect b) n db) = sr_schedule_id ` {r \<in> set (sd_rows db). claim_free b db r}"
proof -
  have "length (due_rows b db) \<le> length (due_order db)" unfolding due_rows_def by (rule length_filter_le)
  then have "length (due_rows b db) \<le> bind_limit n" using assms by (simp add: due_order_def)
  then show ?thesis by (simp add: claim_select_due set_due_rows)
qed

lemma claim_row_leased:
  assumes "r \<in> set (sd_rows db)" and "sr_schedule_id r \<in> set (claim_select (ss_dialect b) n db)"
  shows "lease_row (now_plus b d db) r \<in> set (sd_rows (snd (sched_claim_due b n d db)))"
proof -
  let ?g = "\<lambda>q. if sr_schedule_id q \<in> set (claim_select (ss_dialect b) n db) then lease_row (now_plus b d db) q else q"
  have "?g r \<in> set (map ?g (sd_rows db))" using assms(1) by simp
  then show ?thesis using assms(2) by (simp add: sched_claim_eq Let_def claim_lease_def)
qed

lemma control_row:
  assumes "r \<in> set (sd_rows db)" and "P r"
  shows "f r \<in> set (sd_rows (snd (control_statement b (sr_schedule_id r) P f db)))"
proof -
  let ?g = "\<lambda>q. if sr_schedule_id q = sr_schedule_id r \<and> P q then f q else q"
  have "?g r \<in> set (map ?g (sd_rows db))" using assms(1) by simp
  then show ?thesis using assms(2) by (simp add: snd_control_statement)
qed

lemma released_row:
  assumes "r \<in> set (sd_rows db)" and "not_terminal r"
  shows "r\<lparr>sr_paused := False, sr_leased_until := None\<rparr>
    \<in> set (sd_rows (sched_exec b (SResume (sr_schedule_id r) None) (sched_exec b (SPause (sr_schedule_id r) True) db)))"
    (is "_ \<in> set (sd_rows (sched_exec b _ ?db))")
proof -
  have "r\<lparr>sr_paused := True\<rparr> \<in> set (sd_rows ?db)"
    using control_row [of r db "\<lambda>_. True" "\<lambda>r. r\<lparr>sr_paused := True\<rparr>" b] assms(1) by (simp add: sched_set_paused_def)
  from control_row [OF this, of "\<lambda>r. sr_paused r \<and> not_terminal r" "\<lambda>r. r\<lparr>sr_paused := False, sr_leased_until := None\<rparr>" b]
  show ?thesis using assms(2) by (simp add: sched_resume_def not_terminal_def)
qed

section \<open>An example table\<close>

definition sample_message :: scheduled_message where
  "sample_message = \<lparr>schedule_id = 7, event_type = ''reminders.due'', payload = [], msg_target = target.Outbox,
     msg_trigger = Delay 0, scheduled_for = 0\<rparr>"

definition sample_sched_backend :: "(byte list, int) sched_backend" where
  "sample_sched_backend =
     \<lparr>ss_dialect = Postgres, ss_engine = \<lparr>cron_parse = (\<lambda>_. None), cron_next = (\<lambda>_ _. None), odt_representable = (\<lambda>_. True)\<rparr>,
      ss_debug = (\<lambda>s. s), ss_from_slice = Inr, ss_to_vec = Inr, ss_bind = Inr, ss_read = Inr, ss_plus = (\<lambda>t d. t + int d),
      ss_accepts = (\<lambda>_. True), ss_counts_changed = False\<rparr>"

definition sample_sched_row :: "int option \<Rightarrow> (byte list, int) sched_row" where
  "sample_sched_row lease =
     \<lparr>sr_schedule_id = 7, sr_event_type = ''reminders.due'', sr_payload = [], sr_trigger_kind = ''delay'', sr_cron_expr = None,
      sr_scheduled_for = 0, sr_target_kind = ''outbox'', sr_target_routing_key = None, sr_attempts = 1, sr_max_attempts = 3,
      sr_leased_until = lease, sr_paused = False, sr_last_error = None, sr_created_at = 0, sr_delivered_at = None,
      sr_cancelled_at = None, sr_dead_lettered_at = None\<rparr>"

definition sample_sched_db :: "int option \<Rightarrow> int \<Rightarrow> (byte list, int) sched_db" where
  "sample_sched_db lease now = \<lparr>sd_rows = [sample_sched_row lease], sd_now = now, sd_locked = []\<rparr>"

lemma sample_sched_db_ok: "sched_table_ok (sample_sched_db lease now)"
  by (simp add: sched_table_ok_def sample_sched_db_def sample_sched_row_def sched_row_ok_def not_terminal_def i32_max_def)

section \<open>Properties of the table\<close>

text \<open>
  C23. The invariant of the schedule table. After any calls, by any workers and operators and with any
  of them refused by the database, schedule ids are unique, no row has two terminal timestamps or a
  lease together with one, and attempts stay within the budget; and a delivered or cancelled row is
  never changed again, except for its paused flag.
\<close>

theorem sched_sql_invariant:
  assumes db: "db = sched_run b cs (sched_db_init now)"
  shows "sched_table_ok db
    \<and> (\<forall>r\<in>set (sd_rows db). finished_row r \<longrightarrow> (\<exists>p. r\<lparr>sr_paused := p\<rparr> \<in> set (sd_rows (sched_run b cs' db))))"
proof -
  have "sched_table_ok db" unfolding db by (rule sched_run_ok) simp
  then show ?thesis using finished_run by blast
qed

definition sample_finished_run :: "(int sched_call \<times> bool) list" where
  "sample_finished_run = [(SInsert sample_message 3, True), (SClaim 1 10, True), (SDelivered 7 10, False), (SDelivered 7 10, True)]"

lemmas sample_sched_defs = sample_sched_backend_def sample_message_def sample_sched_row_def sample_sched_db_def

lemma sample_sched_insert:
  "sched_exec sample_sched_backend (SInsert sample_message 3) (sched_db_init 0)
    = (sample_sched_db None 0)\<lparr>sd_rows := [(sample_sched_row None)\<lparr>sr_attempts := 0\<rparr>]\<rparr>"
  by (simp add: sched_insert_def sched_new_row_def trigger_columns_def target_columns_def max_attempts_to_i32_def i32_max_def
      row_with_id_def sched_db_init_def sample_sched_defs)

lemma sample_sched_claim:
  "sched_exec sample_sched_backend (SClaim 1 10) ((sample_sched_db None 0)\<lparr>sd_rows := [(sample_sched_row None)\<lparr>sr_attempts := 0\<rparr>]\<rparr>)
    = sample_sched_db (Some 10) 0"
  by (simp add: sched_claim_eq Let_def claim_select_def due_order_def sort_by_def bind_limit_def eligible_def lease_elapsed_def
      not_terminal_def claim_lease_def lease_row_def now_plus_def bind_interval_def from_secs_def nanos_per_sec_def sample_sched_defs)

lemma sample_sched_run_rows:
  "sd_rows (sched_run sample_sched_backend sample_finished_run (sched_db_init 0)) = [(sample_sched_row None)\<lparr>sr_delivered_at := Some 0\<rparr>]"
proof -
  have "sd_rows (sched_exec sample_sched_backend (SDelivered 7 10) (sample_sched_db (Some 10) 0))
      = [(sample_sched_row None)\<lparr>sr_delivered_at := Some 0\<rparr>]"
    by (simp add: sched_mark_delivered_def snd_fenced_statement lease_fenced_def not_terminal_def sample_sched_defs)
  then show ?thesis by (simp add: sample_finished_run_def sample_sched_insert sample_sched_claim del: sched_exec.simps)
qed

theorem sched_sql_invariant_witness:
  "\<exists>r p. r \<in> set (sd_rows (sched_run sample_sched_backend sample_finished_run (sched_db_init 0))) \<and> finished_row r
     \<and> r\<lparr>sr_paused := p\<rparr> \<in> set (sd_rows (sched_run sample_sched_backend [(SPause 7 True, True)]
         (sched_run sample_sched_backend sample_finished_run (sched_db_init 0))))"
proof -
  let ?r = "(sample_sched_row None)\<lparr>sr_delivered_at := Some 0\<rparr>"
  have r: "?r \<in> set (sd_rows (sched_run sample_sched_backend sample_finished_run (sched_db_init 0)))"
    by (simp add: sample_sched_run_rows)
  moreover have "finished_row ?r" by (simp add: finished_row_def)
  ultimately show ?thesis
    using sched_sql_invariant [OF refl, of sample_sched_backend sample_finished_run 0 "[(SPause 7 True, True)]"] by blast
qed

text \<open>
  C24. What a claim takes, in every dialect: at most the batch, due rows that are not terminal, not
  paused, within their budget and free of a live lease (and, where the dialect skips locked rows, not
  locked by another transaction); the earliest first, and all of them when there are fewer than the
  batch. Each is leased and its attempt counted before the rows are decoded, so when one of them does
  not decode the caller gets the error and nothing else, while the attempts of the batch are spent.
\<close>

theorem sched_sql_claim_contract:
  assumes ok: "sched_table_ok db" and claim: "sched_claim_due b n d db = (res, db')"
  shows "\<exists>taken. set taken \<subseteq> set (sd_rows db) \<and> distinct taken \<and> length taken \<le> unat n
    \<and> (\<forall>r\<in>set taken. claim_free b db r)
    \<and> (\<forall>r\<in>set (sd_rows db). claim_free b db r \<and> r \<notin> set taken \<longrightarrow>
         length taken = bind_limit n \<and> (\<forall>r'\<in>set taken. sr_scheduled_for r' \<le> sr_scheduled_for r))
    \<and> db' = db\<lparr>sd_rows := map (\<lambda>r. if r \<in> set taken then r\<lparr>sr_leased_until := Some (now_plus b d db), sr_attempts := sr_attempts r + 1\<rparr> else r) (sd_rows db)\<rparr>
    \<and> res = decode_all (decode_leased b) (map (\<lambda>r. r\<lparr>sr_leased_until := Some (now_plus b d db), sr_attempts := sr_attempts r + 1\<rparr>) taken)"
  unfolding lease_row_def [symmetric]
proof (intro exI conjI)
  let ?taken = "rows_with_ids (claim_select (ss_dialect b) n db) db" and ?picks = "take (bind_limit n) (due_rows b db)"
  have dist: "distinct (map sr_schedule_id (sd_rows db))" using ok by (simp add: sched_table_ok_def)
  note set = taken_rows(1) [OF dist, of b n]
  have len: "length ?taken = length ?picks" using taken_rows(2) [OF dist, of b n] by (rule mset_eq_length)
  show "set ?taken \<subseteq> set (sd_rows db)" by (auto simp: rows_with_ids_def)
  show "distinct ?taken" using dist by (simp add: rows_with_ids_def distinct_map)
  show "length ?taken \<le> unat n" by (simp add: len bind_limit_def)
  show "\<forall>r\<in>set ?taken. claim_free b db r" unfolding set using set_due_rows by (fastforce dest: in_set_takeD)
  show "\<forall>r\<in>set (sd_rows db). claim_free b db r \<and> r \<notin> set ?taken \<longrightarrow>
      length ?taken = bind_limit n \<and> (\<forall>r'\<in>set ?taken. sr_scheduled_for r' \<le> sr_scheduled_for r)"
    unfolding set len using untaken_row [of _ b db "bind_limit n"] by (auto simp: set_due_rows simp del: length_take)
  show "db' = db\<lparr>sd_rows := map (\<lambda>r. if r \<in> set ?taken then lease_row (now_plus b d db) r else r) (sd_rows db)\<rparr>"
    using claim by (auto simp: sched_claim_eq Let_def claim_lease_def rows_with_ids_def)
  show "res = decode_all (decode_leased b) (map (lease_row (now_plus b d db)) ?taken)"
    using claim by (simp add: sched_claim_eq Let_def)
qed

theorem sched_sql_claim_contract_witness:
  "\<exists>taken. set taken \<subseteq> set (sd_rows (sample_sched_db (Some 10) 10)) \<and> length taken \<le> unat (1 :: usize)
     \<and> (\<forall>r\<in>set taken. claim_free sample_sched_backend (sample_sched_db (Some 10) 10) r)
     \<and> fst (sched_claim_due sample_sched_backend 1 5 (sample_sched_db (Some 10) 10))
       = decode_all (decode_leased sample_sched_backend)
           (map (\<lambda>r. r\<lparr>sr_leased_until := Some (now_plus sample_sched_backend 5 (sample_sched_db (Some 10) 10)),
              sr_attempts := sr_attempts r + 1\<rparr>) taken)"
proof -
  obtain res db' where claim: "sched_claim_due sample_sched_backend 1 5 (sample_sched_db (Some 10) 10) = (res, db')" by fastforce
  show ?thesis unfolding claim fst_conv
    by (rule exE [OF sched_sql_claim_contract [OF sample_sched_db_ok claim]]) (elim conjE, intro exI conjI, assumption+)
qed

text \<open>
  C29. Pausing a schedule and resuming it releases a live lease. When a worker holds an unexpired lease
  on a due occurrence, a pause followed by a resume without a new instant makes the occurrence
  claimable again at once, so a second worker gets it while the first is still within its lease.
\<close>

theorem pause_resume_releases_lease:
  assumes ok: "sched_table_ok db" and r: "r \<in> set (sd_rows db)" "not_terminal r" "sr_scheduled_for r \<le> sd_now db"
      "sr_attempts r < sr_max_attempts r"
    and lease: "sr_leased_until r = Some l" "sd_now db < l"
    and unlocked: "sd_locked db = []" and room: "length (sd_rows db) \<le> bind_limit n"
    and db': "db' = sched_exec b (SResume (sr_schedule_id r) None) (sched_exec b (SPause (sr_schedule_id r) True) db)"
  shows "\<not> claim_free b db r \<and> sd_now db' = sd_now db
    \<and> lease_row (now_plus b d db) (r\<lparr>sr_paused := False, sr_leased_until := None\<rparr>) \<in> set (sd_rows (sched_exec b (SClaim n d) db'))"
proof -
  let ?r = "r\<lparr>sr_paused := False, sr_leased_until := None\<rparr>"
  have mem: "?r \<in> set (sd_rows db')" unfolding db' by (rule released_row [OF r(1,2)])
  have same: "sd_now db' = sd_now db" "sd_locked db' = sd_locked db" "length (sd_rows db') = length (sd_rows db)"
    by (simp_all add: db' sched_resume_def sched_set_paused_def snd_control_statement)
  have "claim_free b db' ?r"
    using r unlocked by (simp add: claim_free_def row_status_simps not_terminal_def same)
  then have "?r \<in> {q \<in> set (sd_rows db'). claim_free b db' q}" using mem by simp
  then have "sr_schedule_id ?r \<in> set (claim_select (ss_dialect b) n db')"
    using room claim_select_all [of db' n b] unfolding same by (simp only: imageI)
  then have "lease_row (now_plus b d db') ?r \<in> set (sd_rows (sched_exec b (SClaim n d) db'))"
    using claim_row_leased [OF mem] by simp
  moreover have "\<not> claim_free b db r" using lease by (simp add: claim_free_def)
  ultimately show ?thesis using same(1) by (simp add: now_plus_def)
qed

theorem pause_resume_releases_lease_witness:
  "\<not> claim_free sample_sched_backend (sample_sched_db (Some 10) 3) (sample_sched_row (Some 10))
   \<and> lease_row 8 (sample_sched_row None) \<in> set (sd_rows (sched_exec sample_sched_backend (SClaim 1 5)
       (sched_exec sample_sched_backend (SResume 7 None) (sched_exec sample_sched_backend (SPause 7 True) (sample_sched_db (Some 10) 3)))))"
proof -
  let ?r = "sample_sched_row (Some 10)" and ?db = "sample_sched_db (Some 10) 3"
  have row: "?r \<in> set (sd_rows ?db)" "not_terminal ?r" "sr_scheduled_for ?r \<le> sd_now ?db" "sr_attempts ?r < sr_max_attempts ?r"
    "sr_leased_until ?r = Some 10" "sd_now ?db < 10" "sd_locked ?db = []" "length (sd_rows ?db) \<le> bind_limit 1"
    "sr_schedule_id ?r = 7"
    by (simp_all add: sample_sched_db_def sample_sched_row_def not_terminal_def bind_limit_def)
  have "?r\<lparr>sr_paused := False, sr_leased_until := None\<rparr> = sample_sched_row None" by (simp add: sample_sched_row_def)
  moreover have "now_plus sample_sched_backend 5 ?db = 8"
    by (simp add: now_plus_def bind_interval_def from_secs_def nanos_per_sec_def sample_sched_backend_def sample_sched_db_def)
  ultimately show ?thesis
    using pause_resume_releases_lease [OF sample_sched_db_ok row(1-8) refl, of sample_sched_backend 5] by (simp add: row(9))
qed

end
