(* ===== verification/Sched_Sql_Refines.thy ===== *)
theory Sched_Sql_Refines
  imports Sched_Sql
begin

text \<open>
  The SQL schedule stores against the in-memory store. \<open>abs_sched\<close> reads a table as the map of the
  in-memory store; a call on the table is then the same call on the map, and returns the same. The
  calls on which the two backends differ are excluded by \<open>comparable\<close>: inserting an id that exists, a
  claim that skips a claimable row because another transaction has locked it, an
  acknowledgement of a schedule that was paused meanwhile, a resume that releases a lease, and instants
  or intervals the columns cannot hold exactly.
\<close>

section \<open>The table as a map\<close>

definition abs_time :: "('j, 't) sched_backend \<Rightarrow> 't \<Rightarrow> systime" where
  "abs_time b t = (case ss_read b t of Inr s \<Rightarrow> s | Inl _ \<Rightarrow> 0)"

definition abs_row :: "('j, 't) sched_backend \<Rightarrow> ('j, 't) sched_row \<Rightarrow> stored_schedule option" where
  "abs_row b r =
     (case decode_message b r of
        Inl _ \<Rightarrow> None
      | Inr msg \<Rightarrow> Some \<lparr>message = msg, max_attempts = attempts_from_i64 (sr_max_attempts r),
          attempts = attempts_from_i64 (sr_attempts r), leased_until = map_option (abs_time b) (sr_leased_until r),
          status = row_status r, last_error = sr_last_error r,
          dead_lettered_at = map_option (abs_time b) (sr_dead_lettered_at r)\<rparr>)"

definition abs_sched :: "('j, 't) sched_backend \<Rightarrow> ('j, 't) sched_db \<Rightarrow> schedule_map" where
  "abs_sched b db i = Option.bind (row_with_id i db) (abs_row b)"

text \<open>
  The SQL stores rebuild the trigger of a one-shot schedule from the instant of its occurrence, which a
  replay moves; the in-memory store keeps the trigger.
\<close>

definition restamp_message :: "scheduled_message \<Rightarrow> scheduled_message" where
  "restamp_message msg =
     (case msg_trigger msg of Delay _ \<Rightarrow> msg\<lparr>msg_trigger := Delay (scheduled_for msg)\<rparr> | Cron _ \<Rightarrow> msg)"

definition restamp_row :: "stored_schedule \<Rightarrow> stored_schedule" where
  "restamp_row r = r\<lparr>message := restamp_message (message r)\<rparr>"

definition restamp :: "schedule_map \<Rightarrow> schedule_map" where
  "restamp m = (\<lambda>i. map_option restamp_row (m i))"

section \<open>Comparable calls\<close>

text \<open>
  What is relied on of the columns: what was read is bound to the same value again, and the order of
  the column type is the order of the instants.
\<close>

definition columns_ok :: "('j, 't::linorder) sched_backend \<Rightarrow> bool" where
  "columns_ok b \<longleftrightarrow>
     (\<forall>t. \<exists>s. ss_read b t = Inr s \<and> ss_bind b s = Inr t) \<and> (\<forall>t t'. abs_time b t \<le> abs_time b t' \<longleftrightarrow> t \<le> t')"

definition exact_instant :: "('j, 't) sched_backend \<Rightarrow> systime \<Rightarrow> bool" where
  "exact_instant b s = (case ss_bind b s of Inr t \<Rightarrow> ss_read b t = Inr s | Inl _ \<Rightarrow> False)"

definition exact_interval :: "('j, 't) sched_backend \<Rightarrow> duration \<Rightarrow> ('j, 't) sched_db \<Rightarrow> bool" where
  "exact_interval b d db \<longleftrightarrow> systime_checked_add (abs_time b (sd_now db)) d = Some (abs_time b (now_plus b d db))"

definition exact_message :: "('j, 't) sched_backend \<Rightarrow> scheduled_message \<Rightarrow> bool" where
  "exact_message b msg \<longleftrightarrow>
     exact_instant b (scheduled_for msg)
     \<and> (case ss_from_slice b (payload msg) of Inr j \<Rightarrow> ss_to_vec b j = Inr (payload msg) | Inl _ \<Rightarrow> False)
     \<and> (case msg_trigger msg of Cron e \<Rightarrow> trigger_cron (ss_engine b) (cron_as_str e) = Inr (Cron e) | Delay _ \<Rightarrow> True)"

definition not_paused :: "uuid \<Rightarrow> ('j, 't) sched_db \<Rightarrow> bool" where
  "not_paused i db = (case row_with_id i db of None \<Rightarrow> True | Some r \<Rightarrow> row_status r \<noteq> Paused)"

fun comparable :: "('j, 't::linorder) sched_backend \<Rightarrow> 't sched_call \<Rightarrow> ('j, 't) sched_db \<Rightarrow> bool" where
  "comparable b (SInsert msg n) db =
     (row_with_id (schedule_id msg) db = None \<and> exact_message b msg \<and> uint n \<le> i32_max
      \<and> (case sched_new_row b msg n db of Inr r \<Rightarrow> ss_accepts b r | Inl _ \<Rightarrow> False))"
| "comparable b (SClaim n d) db =
     (unat n < 2 ^ 63 \<and> exact_interval b d db
      \<and> (supports_skip_locked (ss_dialect b) \<longrightarrow>
           list_all (\<lambda>r. eligible (sd_now db) r \<longrightarrow> sr_schedule_id r \<notin> set (sd_locked db)) (sd_rows db)))"
| "comparable b (SDelivered i l) db = (exact_instant b l \<and> not_paused i db)"
| "comparable b (SReschedule i t l) db = (exact_instant b t \<and> exact_instant b l \<and> not_paused i db)"
| "comparable b (SFailed i d e l) db =
     (exact_instant b l \<and> not_paused i db \<and> exact_interval b d db
      \<and> (ss_counts_changed b \<longrightarrow> ss_bind b l \<noteq> Inr (now_plus b d db)))"
| "comparable b (SDead i e l) db = (exact_instant b l \<and> not_paused i db)"
| "comparable b (SResume i t) db =
     (case t of
        Some t' \<Rightarrow> exact_instant b t'
      | None \<Rightarrow> case row_with_id i db of None \<Rightarrow> True | Some r \<Rightarrow> row_status r = Paused \<longrightarrow> sr_leased_until r = None)"
| "comparable b _ db = True"

text \<open>
  The call on the in-memory store. A claim and a sweep there visit all keys of the hash map, in an order
  that the map does not specify; taken is the order by due instant, the one of the SQL claim.
\<close>

fun memory_call :: "('j, 't::linorder) sched_backend \<Rightarrow> 't sched_call \<Rightarrow> ('j, 't) sched_db \<Rightarrow> store_call list" where
  "memory_call b (SInsert msg n) db = [CInsert msg n]"
| "memory_call b (SClaim n d) db =
     [CClaim (map sr_schedule_id (due_order db)) (abs_time b (sd_now db)) n d]"
| "memory_call b (SDelivered i l) db = [CDelivered i l]"
| "memory_call b (SReschedule i t l) db = [CReschedule i t l]"
| "memory_call b (SFailed i d e l) db = [CFailed (abs_time b (sd_now db)) i d e l]"
| "memory_call b (SDead i e l) db = [CDead (abs_time b (sd_now db)) i e l]"
| "memory_call b SSweep db = [CSweep (abs_time b (sd_now db)) (map sr_schedule_id (sd_rows db))]"
| "memory_call b (SCancel i) db = [CCancel i]"
| "memory_call b (SPause i p) db = [CPause i p]"
| "memory_call b (SResume i t) db = [CResume i t]"
| "memory_call b (SReplay i) db = [CReplay (abs_time b (sd_now db)) i]"
| "memory_call b _ db = []"

section \<open>Results\<close>

datatype call_result =
    RUnit "(scheduler_error, unit) result"
  | RApplied "(scheduler_error, bool) result"
  | RCount "(scheduler_error, u64) result"
  | RClaimed "(scheduler_error, leased_occurrence multiset) result"

definition claimed_set :: "(scheduler_error, leased_occurrence list) result \<Rightarrow> call_result" where
  "claimed_set r = RClaimed (rbind r (\<lambda>cl. Inr (mset (map (\<lambda>oc. oc\<lparr>lo_message := restamp_message (lo_message oc)\<rparr>) cl))))"

fun sched_results :: "('j, 't::linorder) sched_backend \<Rightarrow> 't sched_call \<Rightarrow> ('j, 't) sched_db \<Rightarrow> call_result list" where
  "sched_results b (SInsert msg n) db = [RUnit (fst (sched_insert b msg n db))]"
| "sched_results b (SClaim n d) db = [claimed_set (fst (sched_claim_due b n d db))]"
| "sched_results b (SDelivered i l) db = [RApplied (fst (sched_mark_delivered b i l db))]"
| "sched_results b (SReschedule i t l) db = [RApplied (fst (sched_reschedule b i t l db))]"
| "sched_results b (SFailed i d e l) db = [RApplied (fst (sched_mark_failed b i d e l db))]"
| "sched_results b (SDead i e l) db = [RApplied (fst (sched_mark_dead_lettered b i e l db))]"
| "sched_results b SSweep db = [RCount (fst (sched_dead_letter_exhausted b db))]"
| "sched_results b (SCancel i) db = [RUnit (fst (sched_cancel b i db))]"
| "sched_results b (SPause i p) db = [RUnit (fst (sched_set_paused b i p db))]"
| "sched_results b (SResume i t) db = [RUnit (fst (sched_resume b i t db))]"
| "sched_results b (SReplay i) db = [RUnit (fst (sched_replay b i db))]"
| "sched_results b _ db = []"

fun memory_result :: "store_call \<Rightarrow> schedule_map \<Rightarrow> call_result" where
  "memory_result (CInsert msg n) m = RUnit (fst (mem_insert msg n m))"
| "memory_result (CClaim ks now b d) m = claimed_set (fst (mem_claim_due ks now b d m))"
| "memory_result (CDelivered i l) m = RApplied (fst (mem_mark_delivered i l m))"
| "memory_result (CReschedule i t l) m = RApplied (fst (mem_reschedule i t l m))"
| "memory_result (CFailed clock i d e l) m = RApplied (fst (mem_mark_failed clock i d e l m))"
| "memory_result (CDead clock i e l) m = RApplied (fst (mem_mark_dead_lettered clock i e l m))"
| "memory_result (CSweep clock ks) m = RCount (fst (mem_dead_letter_exhausted clock ks m))"
| "memory_result (CCancel i) m = RUnit (fst (mem_cancel i m))"
| "memory_result (CPause i p) m = RUnit (fst (mem_set_paused i p m))"
| "memory_result (CResume i t) m = RUnit (fst (mem_resume i t m))"
| "memory_result (CReplay clock i) m = RUnit (fst (mem_replay clock i m))"

section \<open>Runs\<close>

fun comparable_run :: "('j, 't::linorder) sched_backend \<Rightarrow> 't sched_call list \<Rightarrow> ('j, 't) sched_db \<Rightarrow> bool" where
  "comparable_run b [] db = True"
| "comparable_run b (c # cs) db = (comparable b c db \<and> comparable_run b cs (sched_exec b c db))"

text \<open>The table and the map after the same calls, with all results of both.\<close>

fun both_run ::
  "('j, 't::linorder) sched_backend \<Rightarrow> 't sched_call list \<Rightarrow> ('j, 't) sched_db \<Rightarrow> schedule_map \<Rightarrow>
   (('j, 't) sched_db \<times> call_result list) \<times> schedule_map \<times> call_result list"
where
  "both_run b [] db m = ((db, []), m, [])"
| "both_run b (c # cs) db m =
     (let calls = memory_call b c db;
          ((db', rs), m', ms) = both_run b cs (sched_exec b c db) (fold exec calls m)
      in ((db', sched_results b c db @ rs), m', map (\<lambda>call. memory_result call m) calls @ ms))"

text \<open>In every claim and sweep of such a run the in-memory store visits each of its keys once.\<close>

fun visits_all :: "store_call \<Rightarrow> schedule_map \<Rightarrow> bool" where
  "visits_all (CClaim ks now n d) m = key_order ks m"
| "visits_all (CSweep clock ks) m = key_order ks m"
| "visits_all _ m = True"

fun visits_run :: "('j, 't::linorder) sched_backend \<Rightarrow> 't sched_call list \<Rightarrow> ('j, 't) sched_db \<Rightarrow> schedule_map \<Rightarrow> bool" where
  "visits_run b [] db m = True"
| "visits_run b (c # cs) db m =
     (list_all (\<lambda>call. visits_all call m) (memory_call b c db)
      \<and> visits_run b cs (sched_exec b c db) (fold exec (memory_call b c db) m))"

section \<open>The in-memory store does not see the instant of a delay trigger\<close>

lemma restamp_message_simps [simp]:
  "schedule_id (restamp_message msg) = schedule_id msg"
  "scheduled_for (restamp_message msg) = scheduled_for msg"
  "restamp_message (restamp_message msg) = restamp_message msg"
  "restamp_message ((restamp_message msg)\<lparr>scheduled_for := t\<rparr>) = restamp_message (msg\<lparr>scheduled_for := t\<rparr>)"
  by (simp_all add: restamp_message_def split: trigger.split)

lemma restamp_row_simps [simp]:
  "status (restamp_row r) = status r" "leased_until (restamp_row r) = leased_until r"
  "attempts (restamp_row r) = attempts r" "max_attempts (restamp_row r) = max_attempts r"
  "message (restamp_row r) = restamp_message (message r)"
  "restamp_row (restamp_row r) = restamp_row r"
  by (simp_all add: restamp_row_def)

lemma claimable_restamp [simp]: "claimable now (restamp_row r) = claimable now r"
  by (simp add: claimable_def lease_free_def)

lemma sweepable_restamp [simp]: "sweepable now (restamp_row r) = sweepable now r"
  by (simp add: sweepable_def lease_free_def)

lemma restamp_app: "restamp m i = map_option restamp_row (m i)"
  by (simp add: restamp_def)

lemma restamp_upd: "restamp (m(i \<mapsto> r)) = (restamp m)(i \<mapsto> restamp_row r)"
  by (auto simp: restamp_def)

lemma restamp_restamp [simp]: "restamp (restamp m) = restamp m"
  by (simp add: restamp_def option.map_comp comp_def)

lemma fenced_pending_restamp: "fenced_pending (restamp m) i l = map_option restamp_row (fenced_pending m i l)"
  by (simp add: fenced_pending_def restamp_def split: option.split)

lemma row_claimable_restamp [simp]: "row_claimable now (restamp m) = row_claimable now m"
  by (rule ext) (simp add: row_claimable_def restamp_def split: option.split)

lemma row_sweepable_restamp [simp]: "row_sweepable now (restamp m) = row_sweepable now m"
  by (rule ext) (simp add: row_sweepable_def restamp_def split: option.split)

lemma claim_picks_restamp [simp]: "claim_picks now n ks (restamp m) = claim_picks now n ks m"
  by (simp add: claim_picks_def)

lemma restamp_claim_row: "restamp_row (claim_row u (restamp_row r)) = restamp_row (claim_row u r)"
  by (simp add: restamp_row_def claim_row_def)

lemma restamp_claim_rows: "restamp (claim_rows u picks (restamp m)) = restamp (claim_rows u picks m)"
  by (rule ext) (simp add: restamp_def claim_rows_def option.map_comp comp_def restamp_claim_row)

lemma restamp_sweep_row: "restamp_row (sweep_row now (restamp_row r)) = restamp_row (sweep_row now r)"
  by (simp add: restamp_row_def sweep_row_def)

lemma restamp_sweep_rows: "restamp (sweep_rows now ks (restamp m)) = restamp (sweep_rows now ks m)"
  by (rule ext) (simp add: sweep_rows_def, simp add: restamp_def option.map_comp comp_def restamp_sweep_row)

lemma claimed_set_restamp:
  assumes "\<And>k. k \<in> set picks \<Longrightarrow> m k \<noteq> None"
  shows "claimed_set (Inr (claim_occurrences u picks (restamp m))) = claimed_set (Inr (claim_occurrences u picks m))"
proof -
  let ?f = "\<lambda>oc. oc\<lparr>lo_message := restamp_message (lo_message oc)\<rparr>"
  have "?f (occurrence_of u (claim_row u (the (restamp m k)))) = ?f (occurrence_of u (claim_row u (the (m k))))"
    if "k \<in> set picks" for k
    using assms [OF that] by (auto simp: restamp_def occurrence_of_def)
  then have "map ?f (claim_occurrences u picks (restamp m)) = map ?f (claim_occurrences u picks m)"
    by (simp add: claim_occurrences_def)
  then show ?thesis unfolding claimed_set_def rbind.simps by (simp only:)
qed

lemma exec_restamp:
  assumes "call_wf c"
  shows "restamp (exec c (restamp m)) = restamp (exec c m) \<and> memory_result c (restamp m) = memory_result c m"
proof (cases c)
  case (CClaim ks now n d)
  show ?thesis
  proof (cases "systime_checked_add now d")
    case (Some until)
    have "m k \<noteq> None" if "k \<in> set (claim_picks now (unat n) ks m)" for k
      using claim_picks_claimable [OF that] by auto
    then show ?thesis
      using assms CClaim Some by (simp add: mem_claim_due_eq restamp_claim_rows claimed_set_restamp)
  qed (simp add: CClaim mem_claim_due_def)
next
  case (CSweep clock ks)
  then show ?thesis using assms by (simp add: mem_dead_letter_exhausted_eq restamp_sweep_rows)
next
  case (CInsert msg n)
  then show ?thesis by (simp add: mem_insert_def restamp_upd)
next
  case (CDelivered i l)
  then show ?thesis
    by (auto simp: mem_mark_delivered_def fenced_pending_restamp restamp_upd restamp_row_def split: option.splits)
next
  case (CReschedule i t l)
  then show ?thesis
    by (auto simp: mem_reschedule_def fenced_pending_restamp restamp_upd restamp_row_def split: option.splits)
next
  case (CFailed clock i d e l)
  then show ?thesis
    by (auto simp: mem_mark_failed_def fenced_pending_restamp restamp_upd restamp_row_def split: option.splits)
next
  case (CDead clock i e l)
  then show ?thesis
    by (auto simp: mem_mark_dead_lettered_def fenced_pending_restamp restamp_upd restamp_row_def split: option.splits)
next
  case (CCancel i)
  then show ?thesis by (cases "m i") (auto simp: mem_cancel_def restamp_upd restamp_row_def restamp_app)
next
  case (CPause i p)
  then show ?thesis by (cases "m i") (auto simp: mem_set_paused_def restamp_upd restamp_row_def restamp_app)
next
  case (CResume i t)
  then show ?thesis by (cases "m i"; cases t) (auto simp: mem_resume_def restamp_upd restamp_row_def restamp_app)
next
  case (CReplay clock i)
  then show ?thesis by (cases "m i") (auto simp: mem_replay_def restamp_upd restamp_row_def restamp_app)
qed

section \<open>Reading a table\<close>

definition decodable :: "('j, 't) sched_backend \<Rightarrow> ('j, 't) sched_db \<Rightarrow> bool" where
  "decodable b db \<longleftrightarrow> (\<forall>r\<in>set (sd_rows db). is_ok (decode_message b r))"

lemma row_with_id_Some:
  "sched_table_ok db \<Longrightarrow> row_with_id i db = Some r \<longleftrightarrow> r \<in> set (sd_rows db) \<and> sr_schedule_id r = i"
proof -
  have "distinct (map sr_schedule_id rs) \<Longrightarrow>
      find (\<lambda>r. sr_schedule_id r = i) rs = Some r \<longleftrightarrow> r \<in> set rs \<and> sr_schedule_id r = i" for rs
    by (induction rs) auto
  then show "sched_table_ok db \<Longrightarrow> ?thesis" by (simp add: row_with_id_def sched_table_ok_def)
qed

lemma row_with_id_id: "row_with_id i db = Some r \<Longrightarrow> r \<in> set (sd_rows db) \<and> sr_schedule_id r = i"
  by (auto simp: row_with_id_def find_Some_iff)

lemma row_with_id_map:
  assumes "\<And>r. sr_schedule_id (g r) = sr_schedule_id r"
  shows "row_with_id i (db\<lparr>sd_rows := map g (sd_rows db)\<rparr>) = map_option g (row_with_id i db)"
proof -
  have "find (\<lambda>r. sr_schedule_id r = i) (map g rs) = map_option g (find (\<lambda>r. sr_schedule_id r = i) rs)" for rs
    by (induction rs) (simp_all add: assms)
  then show ?thesis by (simp add: row_with_id_def)
qed

lemma abs_sched_map:
  assumes "\<And>r. sr_schedule_id (g r) = sr_schedule_id r"
  shows "abs_sched b (db\<lparr>sd_rows := map g (sd_rows db)\<rparr>) i = Option.bind (row_with_id i db) (\<lambda>r. abs_row b (g r))"
  by (cases "row_with_id i db") (simp_all add: abs_sched_def row_with_id_map [of g, OF assms])

lemma abs_update_row:
  assumes "\<And>r. sr_schedule_id (f r) = sr_schedule_id r" and "\<And>r. P r \<Longrightarrow> sr_schedule_id r = i"
  shows "abs_sched b (snd (run_update b P f db)) =
    (case row_with_id i db of
       None \<Rightarrow> abs_sched b db
     | Some r \<Rightarrow> if P r then (abs_sched b db)(i := abs_row b (f r)) else abs_sched b db)"
proof
  fix j
  have "abs_sched b (snd (run_update b P f db)) j = Option.bind (row_with_id j db) (\<lambda>r. abs_row b (if P r then f r else r))"
    unfolding run_update_def snd_conv by (rule abs_sched_map) (simp add: assms(1))
  moreover have "\<not> P r" if "row_with_id j db = Some r" "j \<noteq> i" for r
    using row_with_id_id [OF that(1)] that(2) assms(2) by auto
  ultimately show "abs_sched b (snd (run_update b P f db)) j =
    (case row_with_id i db of
       None \<Rightarrow> abs_sched b db
     | Some r \<Rightarrow> if P r then (abs_sched b db)(i := abs_row b (f r)) else abs_sched b db) j"
    by (cases "j = i"; cases "row_with_id j db") (auto simp: abs_sched_def split: option.split)
qed

lemma run_update_count:
  assumes "sched_table_ok db" and "\<And>r. P r \<Longrightarrow> sr_schedule_id r = i"
  shows "0 < fst (run_update b P f db) \<longleftrightarrow>
    (\<exists>r. row_with_id i db = Some r \<and> P r \<and> (ss_counts_changed b \<longrightarrow> f r \<noteq> r))"
  using assms(2) by (auto simp: run_update_def row_with_id_Some [OF assms(1)] filter_empty_conv)

lemma decode_restamped: "decode_message b r = Inr msg \<Longrightarrow> restamp_message msg = msg"
  by (auto simp: decode_message_def build_message_def build_trigger_def trigger_delay_def trigger_cron_def restamp_message_def
      result_simps split: if_splits)

lemma abs_row_Some:
  "abs_row b r = Some R \<Longrightarrow> status R = row_status r \<and> leased_until R = map_option (abs_time b) (sr_leased_until r)
     \<and> decode_message b r = Inr (message R) \<and> restamp_row R = R"
  by (auto simp: abs_row_def restamp_row_def decode_restamped split: sum.splits)

lemma abs_row_restamped: "abs_row b r = Some R \<Longrightarrow> restamp_message (message R) = message R"
  using abs_row_Some [of b r R] decode_restamped [of b r "message R"] by simp

lemma decodable_row: "decodable b db \<Longrightarrow> row_with_id i db = Some r \<Longrightarrow> \<exists>R. abs_row b r = Some R"
  by (auto simp: decodable_def abs_row_def dest!: row_with_id_id split: sum.splits)

lemma restamp_abs: "restamp (abs_sched b db) = abs_sched b db"
proof
  fix i
  show "restamp (abs_sched b db) i = abs_sched b db i"
    by (cases "row_with_id i db"; cases "abs_row b (the (row_with_id i db))")
      (auto simp: restamp_app abs_sched_def dest: abs_row_Some)
qed

lemma exact_lease:
  assumes "columns_ok b" and "ss_bind b lease = Inr l" and "ss_read b l = Inr lease"
  shows "map_option (abs_time b) x = Some lease \<longleftrightarrow> x = Some l"
proof -
  have "t = l" if t: "abs_time b t = lease" for t
  proof -
    obtain s where "ss_read b t = Inr s" "ss_bind b s = Inr t" using assms(1) unfolding columns_ok_def by blast
    then show ?thesis using t assms(2) by (simp add: abs_time_def)
  qed
  then show ?thesis using assms(3) by (auto simp: abs_time_def)
qed

section \<open>Acknowledgements and control calls\<close>

text \<open>An acknowledgement whose effect on a row is \<open>F\<close>.\<close>

lemma fenced_simulates:
  assumes cols: "columns_ok b" and ok: "sched_table_ok db" and dec: "decodable b db"
    and exact: "exact_instant b lease" and np: "not_paused i db"
    and id: "\<And>r. sr_schedule_id (f r) = sr_schedule_id r"
    and F: "\<And>r R. not_terminal r \<Longrightarrow> abs_row b r = Some R \<Longrightarrow> abs_row b (f r) = Some (restamp_row (F R))"
    and changed: "\<And>r l. ss_counts_changed b \<Longrightarrow> ss_bind b lease = Inr l \<Longrightarrow> sr_leased_until (f r) \<noteq> Some l"
  shows "fst (fenced_statement b i lease f db) = Inr (fenced_pending (abs_sched b db) i lease \<noteq> None)
    \<and> abs_sched b (snd (fenced_statement b i lease f db)) =
      restamp (case fenced_pending (abs_sched b db) i lease of None \<Rightarrow> abs_sched b db | Some R \<Rightarrow> (abs_sched b db)(i \<mapsto> F R))"
proof -
  obtain l where l: "ss_bind b lease = Inr l" "ss_read b l = Inr lease"
    using exact by (auto simp: exact_instant_def split: sum.splits)
  have stmt: "fenced_statement b i lease f db =
      (Inr (0 < fst (run_update b (lease_fenced i l) f db)), snd (run_update b (lease_fenced i l) f db))"
    by (simp add: fenced_statement_def l case_prod_beta Let_def)
  have P: "lease_fenced i l r \<Longrightarrow> sr_schedule_id r = i" for r by (simp add: lease_fenced_def)
  show ?thesis
  proof (cases "row_with_id i db")
    case None
    then have "abs_sched b db i = None" by (simp add: abs_sched_def)
    then show ?thesis
      using None by (simp add: stmt run_update_count [OF ok P] abs_update_row [OF id P] fenced_pending_def restamp_abs)
  next
    case (Some r)
    obtain R where R: "abs_row b r = Some R" using decodable_row [OF dec Some] by blast
    have abs: "abs_sched b db i = Some R" using Some R by (simp add: abs_sched_def)
    have fence: "lease_fenced i l r \<longleftrightarrow> status R = Pending \<and> leased_until R = Some lease"
      using abs_row_Some [OF R] exact_lease [OF cols l] np Some row_with_id_id [OF Some]
      by (auto simp: lease_fenced_def not_paused_def row_status_simps)
    show ?thesis
    proof (cases "lease_fenced i l r")
      case True
      then have "ss_counts_changed b \<Longrightarrow> f r \<noteq> r" using changed l(1) by (metis lease_fenced_def)
      moreover have "abs_row b (f r) = Some (restamp_row (F R))" using F R True by (simp add: lease_fenced_def)
      ultimately show ?thesis
        using True fence Some abs
        by (simp add: stmt run_update_count [OF ok P] abs_update_row [OF id P] fenced_pending_def restamp_upd restamp_abs)
    next
      case False
      then show ?thesis
        using fence Some abs
        by (auto simp: stmt run_update_count [OF ok P] abs_update_row [OF id P] fenced_pending_def restamp_abs)
    qed
  qed
qed

text \<open>A control statement: on a row that is there it succeeds, whether or not it changed anything.\<close>

lemma control_simulates:
  assumes ok: "sched_table_ok db" and dec: "decodable b db"
    and id: "\<And>r. sr_schedule_id (f r) = sr_schedule_id r"
    and F: "\<And>r R. row_with_id i db = Some r \<Longrightarrow> abs_row b r = Some R \<Longrightarrow>
      (if P r then abs_row b (f r) else Some R) = Some (restamp_row (F R))"
  shows "fst (control_statement b i P f db) = (if abs_sched b db i = None then Inl (ScheduleNotFound i) else Inr ())
    \<and> abs_sched b (snd (control_statement b i P f db)) =
      restamp (case abs_sched b db i of None \<Rightarrow> abs_sched b db | Some R \<Rightarrow> (abs_sched b db)(i \<mapsto> F R))"
proof -
  let ?P = "\<lambda>r. sr_schedule_id r = i \<and> P r"
  have P: "?P r \<Longrightarrow> sr_schedule_id r = i" for r by simp
  have row: "row_with_id i (snd (run_update b ?P f db)) = None \<longleftrightarrow> row_with_id i db = None"
    by (auto simp: run_update_def row_with_id_map id)
  have stmt: "control_statement b i P f db =
      (if fst (run_update b ?P f db) = 0 then ensure_exists i (snd (run_update b ?P f db)) else Inr (), snd (run_update b ?P f db))"
    by (simp add: control_statement_def case_prod_beta Let_def)
  show ?thesis
  proof (cases "row_with_id i db")
    case None
    then have none: "abs_sched b db i = None" by (simp add: abs_sched_def)
    have "fst (run_update b ?P f db) = 0" using run_update_count [OF ok, of ?P i b f] None by auto
    then show ?thesis
      using None none row by (simp add: stmt ensure_exists_def abs_update_row [OF id P] restamp_abs)
  next
    case (Some r)
    obtain R where R: "abs_row b r = Some R" using decodable_row [OF dec Some] by blast
    have abs: "abs_sched b db i = Some R" using Some R by (simp add: abs_sched_def)
    have new: "(if ?P r then (abs_sched b db)(i := abs_row b (f r)) else abs_sched b db) = (abs_sched b db)(i \<mapsto> restamp_row (F R))"
      using F [OF Some R] row_with_id_id [OF Some] abs by (auto split: if_splits)
    have "ensure_exists i (snd (run_update b ?P f db)) = Inr ()" using row Some by (simp add: ensure_exists_def)
    then show ?thesis using Some abs new by (simp add: stmt abs_update_row [OF id P] restamp_upd restamp_abs)
  qed
qed

section \<open>Rows and their columns\<close>

lemma attempts_from_i64_uint: "0 \<le> n \<Longrightarrow> n \<le> i32_max \<Longrightarrow> uint (attempts_from_i64 n) = n"
  by (simp add: attempts_from_i64_def i32_max_def uint_word_of_int_eq take_bit_int_eq_self)

lemma attempts_from_i64_less:
  "0 \<le> m \<Longrightarrow> m \<le> i32_max \<Longrightarrow> 0 \<le> n \<Longrightarrow> n \<le> i32_max \<Longrightarrow> attempts_from_i64 m < attempts_from_i64 n \<longleftrightarrow> m < n"
  by (simp add: word_less_def attempts_from_i64_uint)

lemma attempts_from_i64_inc: "0 \<le> n \<Longrightarrow> n < i32_max \<Longrightarrow> attempts_from_i64 (n + 1) = attempts_from_i64 n + 1"
  by (simp add: attempts_from_i64_def i32_max_def)

lemma attempts_from_i64_budget: "uint n \<le> i32_max \<Longrightarrow> attempts_from_i64 (max_attempts_to_i32 n) = n"
  by (simp add: max_attempts_to_i32_def attempts_from_i64_def i32_max_def)

lemma attempts_from_i64_0 [simp]: "attempts_from_i64 0 = 0"
  by (simp add: attempts_from_i64_def)

lemma columns_read: "columns_ok b \<Longrightarrow> ss_read b t = Inr (abs_time b t)"
  unfolding columns_ok_def abs_time_def by (metis old.sum.simps(6))

lemma columns_le: "columns_ok b \<Longrightarrow> abs_time b t \<le> abs_time b t' \<longleftrightarrow> t \<le> t'"
  by (simp add: columns_ok_def)

text \<open>Whether a row decodes depends on its body only.\<close>

lemma build_trigger_ok: "is_ok (build_trigger eng dbg kind cron at) = is_ok (build_trigger eng dbg kind cron at')"
  by (simp add: build_trigger_def)

lemma decode_message_ok:
  assumes "columns_ok b"
  shows "is_ok (decode_message b r) \<longleftrightarrow> is_ok (ss_to_vec b (sr_payload r))
    \<and> is_ok (build_trigger (ss_engine b) (ss_debug b) (sr_trigger_kind r) (sr_cron_expr r) 0)
    \<and> is_ok (build_target (ss_debug b) (sr_target_kind r) (sr_target_routing_key r))"
proof -
  have "is_ok (build_trigger (ss_engine b) (ss_debug b) (sr_trigger_kind r) (sr_cron_expr r) 0)
      = is_ok (build_trigger (ss_engine b) (ss_debug b) (sr_trigger_kind r) (sr_cron_expr r) (abs_time b (sr_scheduled_for r)))"
    by (rule build_trigger_ok)
  then show ?thesis
    by (cases "ss_to_vec b (sr_payload r)";
        cases "build_trigger (ss_engine b) (ss_debug b) (sr_trigger_kind r) (sr_cron_expr r) (abs_time b (sr_scheduled_for r))";
        cases "build_target (ss_debug b) (sr_target_kind r) (sr_target_routing_key r)")
      (simp_all add: decode_message_def build_message_def columns_read [OF assms])
qed

lemma decode_message_body:
  "columns_ok b \<Longrightarrow> row_body r' = row_body r \<Longrightarrow> is_ok (decode_message b r') = is_ok (decode_message b r)"
  by (simp add: decode_message_ok row_body_def)

lemma abs_row_scheduled: "columns_ok b \<Longrightarrow> abs_row b r = Some R \<Longrightarrow> scheduled_for (message R) = abs_time b (sr_scheduled_for r)"
  by (auto simp: abs_row_def decode_message_def build_message_def columns_read result_simps split: sum.splits)

lemma abs_row_attempts:
  "abs_row b r = Some R \<Longrightarrow> attempts R = attempts_from_i64 (sr_attempts r) \<and> max_attempts R = attempts_from_i64 (sr_max_attempts r)"
  by (auto simp: abs_row_def split: sum.splits)

lemma lease_elapsed_free:
  "columns_ok b \<Longrightarrow> abs_row b r = Some R \<Longrightarrow> lease_elapsed now r \<longleftrightarrow> lease_free (abs_time b now) R"
  by (auto simp: lease_elapsed_def lease_free_def columns_le dest!: abs_row_Some split: option.splits)

lemma eligible_claimable:
  assumes "columns_ok b" and "abs_row b r = Some R" and "sched_row_ok r"
  shows "eligible now r \<longleftrightarrow> claimable (abs_time b now) R" and "exhausted_row now r \<longleftrightarrow> sweepable (abs_time b now) R"
proof -
  note R = abs_row_Some [OF assms(2)] abs_row_attempts [OF assms(2)] abs_row_scheduled [OF assms(1,2)]
  have less: "attempts R < max_attempts R \<longleftrightarrow> sr_attempts r < sr_max_attempts r"
    using R assms(3) by (simp add: attempts_from_i64_less sched_row_ok_def)
  show "eligible now r \<longleftrightarrow> claimable (abs_time b now) R"
    using R less lease_elapsed_free [OF assms(1,2)] assms(1) by (auto simp: eligible_def claimable_def row_status_simps columns_le)
  show "exhausted_row now r \<longleftrightarrow> sweepable (abs_time b now) R"
    using R less lease_elapsed_free [OF assms(1,2)] by (auto simp: exhausted_row_def sweepable_def row_status_simps not_less [symmetric])
qed

lemma abs_row_lease:
  assumes "abs_row b r = Some R" and "sched_row_ok r" and "eligible now r"
  shows "abs_row b (lease_row u r) = Some (claim_row (abs_time b u) R)"
proof -
  have "decode_message b (lease_row u r) = decode_message b r" "row_status (lease_row u r) = row_status r"
    by (simp_all add: decode_message_def lease_row_def row_status_def)
  moreover have "attempts_from_i64 (sr_attempts r + 1) = attempts_from_i64 (sr_attempts r) + 1"
    using assms(2,3) by (intro attempts_from_i64_inc) (auto simp: sched_row_ok_def eligible_def)
  ultimately show ?thesis
    using assms(1) by (auto simp: abs_row_def claim_row_def lease_row_def split: sum.splits)
qed

lemma decode_leased_row:
  assumes "columns_ok b" and "abs_row b r = Some R" and "sched_row_ok r" and "eligible now r"
  shows "decode_leased b (lease_row u r) = Inr (occurrence_of (abs_time b u) (claim_row (abs_time b u) R))"
proof -
  note R = abs_row_Some [OF assms(2)] abs_row_attempts [OF assms(2)]
  have "decode_message b (lease_row u r) = Inr (message R)" using R by (simp add: decode_message_def lease_row_def)
  moreover have "attempts_from_i64 (sr_attempts r + 1) = attempts R + 1"
    using assms(3,4) R by (subst attempts_from_i64_inc) (auto simp: sched_row_ok_def eligible_def)
  ultimately show ?thesis
    using R by (simp add: decode_leased_def columns_read [OF assms(1)] occurrence_of_def) (simp add: lease_row_def)
qed

lemma decode_all_ok: "(\<And>r. r \<in> set rs \<Longrightarrow> f r = Inr (h r)) \<Longrightarrow> decode_all f rs = Inr (map h rs)"
  by (induction rs) simp_all

lemma sweep_abs_row:
  "not_terminal r \<Longrightarrow> abs_row b r = Some R \<Longrightarrow>
   abs_row b (r\<lparr>sr_dead_lettered_at := Some t, sr_last_error := Some dead_letter_exhausted_message, sr_leased_until := None\<rparr>)
     = Some (sweep_row (abs_time b t) R)"
  by (auto simp: abs_row_def sweep_row_def row_status_def terminal_status_def status_with_paused_def decode_message_def
      split: sum.splits)

section \<open>Every comparable call\<close>

definition simulated :: "('j, 't::linorder) sched_backend \<Rightarrow> 't sched_call \<Rightarrow> ('j, 't) sched_db \<Rightarrow> bool" where
  "simulated b c db \<longleftrightarrow>
     sched_results b c db = map (\<lambda>call. memory_result call (abs_sched b db)) (memory_call b c db)
     \<and> abs_sched b (sched_exec b c db) = restamp (fold exec (memory_call b c db) (abs_sched b db))"

lemma table_row:
  assumes "sched_table_ok db" and "decodable b db" and "r \<in> set (sd_rows db)"
  obtains R where "abs_row b r = Some R" "abs_sched b db (sr_schedule_id r) = Some R" "sched_row_ok r"
proof -
  have row: "row_with_id (sr_schedule_id r) db = Some r" using assms(1,3) by (simp add: row_with_id_Some)
  obtain R where "abs_row b r = Some R" using decodable_row [OF assms(2) row] by blast
  then show ?thesis using row assms(1,3) by (intro that) (simp_all add: abs_sched_def sched_table_ok_def)
qed

lemma due_row:
  assumes "columns_ok b" and "sched_table_ok db" and "decodable b db" and r: "r \<in> set (due_rows b db)"
  obtains R where "abs_row b r = Some R" "abs_sched b db (sr_schedule_id r) = Some R" "claimable (abs_time b (sd_now db)) R"
    "abs_row b (lease_row u r) = Some (claim_row (abs_time b u) R)"
    "decode_leased b (lease_row u r) = Inr (occurrence_of (abs_time b u) (claim_row (abs_time b u) R))"
proof -
  have mem: "r \<in> set (sd_rows db)" and el: "eligible (sd_now db) r" using r by (auto simp: set_due_rows claim_free_eligible)
  obtain R where R: "abs_row b r = Some R" "abs_sched b db (sr_schedule_id r) = Some R" "sched_row_ok r"
    using table_row [OF assms(2,3) mem] by metis
  show ?thesis
    using that [OF R(1,2) _ abs_row_lease [OF R(1,3) el] decode_leased_row [OF assms(1) R(1,3) el]]
      eligible_claimable(1) [OF assms(1) R(1,3)] el by blast
qed

lemma abs_claim_lease:
  assumes cols: "columns_ok b" and ok: "sched_table_ok db" and dec: "decodable b db" and picks: "set picks \<subseteq> set (due_rows b db)"
  shows "abs_sched b (claim_lease u (map sr_schedule_id picks) db) =
    restamp (claim_rows (abs_time b u) (map sr_schedule_id picks) (abs_sched b db))"
proof
  fix i
  let ?ids = "map sr_schedule_id picks"
  have lhs: "abs_sched b (claim_lease u ?ids db) i =
      Option.bind (row_with_id i db) (\<lambda>r. abs_row b (if sr_schedule_id r \<in> set ?ids then lease_row u r else r))"
    unfolding claim_lease_def by (rule abs_sched_map) (simp add: lease_row_def)
  show "abs_sched b (claim_lease u ?ids db) i = restamp (claim_rows (abs_time b u) ?ids (abs_sched b db)) i"
  proof (cases "row_with_id i db")
    case None
    then show ?thesis unfolding lhs by (simp add: restamp_app claim_rows_def abs_sched_def)
  next
    case (Some r)
    then have r: "r \<in> set (sd_rows db)" "sr_schedule_id r = i" using row_with_id_id by blast+
    obtain R where R: "abs_row b r = Some R" using decodable_row [OF dec Some] by blast
    show ?thesis
    proof (cases "i \<in> set ?ids")
      case True
      then obtain q where q: "q \<in> set picks" "sr_schedule_id q = i" by auto
      then have "q \<in> set (sd_rows db)" using picks by (auto simp: set_due_rows)
      then have "q = r" using q(2) Some row_with_id_Some [OF ok] by (metis option.inject)
      then have "r \<in> set (due_rows b db)" using q(1) picks by blast
      from due_row [OF cols ok dec this, of u] have "abs_row b (lease_row u r) = Some (claim_row (abs_time b u) R)"
        using R by (metis option.inject)
      moreover have "restamp_row (claim_row t R) = claim_row t R" for t
        using abs_row_restamped [OF R] by (cases R) (simp add: restamp_row_def claim_row_def)
      ultimately show ?thesis
        using True Some R r(2) unfolding lhs by (simp add: restamp_app claim_rows_def abs_sched_def)
    next
      case False
      then show ?thesis
        using Some R r(2) abs_row_Some [OF R] unfolding lhs by (simp add: restamp_app claim_rows_def abs_sched_def)
    qed
  qed
qed

lemma decode_all_map: "decode_all f (map g rs) = decode_all (f \<circ> g) rs"
  by (induction rs) simp_all

lemma claim_simulated:
  assumes cols: "columns_ok b" and ok: "sched_table_ok db" and dec: "decodable b db" and cmp: "comparable b (SClaim n d) db"
  shows "simulated b (SClaim n d) db"
proof -
  let ?m = "abs_sched b db" and ?now = "abs_time b (sd_now db)" and ?ks = "map sr_schedule_id (due_order db)"
  define picks where "picks = take (unat n) (due_rows b db)"
  define u where "u = now_plus b d db"
  let ?occ = "\<lambda>r. occurrence_of (abs_time b u) (claim_row (abs_time b u) (the (abs_row b r)))"
  let ?rows = "rows_with_ids (map sr_schedule_id picks) db"
  have dist: "distinct (map sr_schedule_id (sd_rows db))" using ok by (simp add: sched_table_ok_def)
  have limit: "bind_limit n = unat n" using cmp by (simp add: bind_limit_def)
  have until: "systime_checked_add ?now d = Some (abs_time b u)" using cmp by (simp add: exact_interval_def u_def)
  have ids: "claim_select (ss_dialect b) n db = map sr_schedule_id picks" by (simp add: claim_select_due limit picks_def)
  have sub: "set picks \<subseteq> set (due_rows b db)" unfolding picks_def by (rule set_take_subset)
  have mset: "mset ?rows = mset picks" using taken_rows(2) [OF dist, of b n] by (simp add: ids limit picks_def)
  have row: "row_claimable ?now ?m (sr_schedule_id r) \<and> the (?m (sr_schedule_id r)) = the (abs_row b r)
      \<and> decode_leased b (lease_row u r) = Inr (?occ r)" if "r \<in> set (due_rows b db)" for r
    by (rule due_row [OF cols ok dec that, of u]) (simp add: row_claimable_def)
  have "row_claimable ?now ?m (sr_schedule_id r) \<longleftrightarrow> claim_free b db r" if "r \<in> set (due_order db)" for r
  proof -
    have r: "r \<in> set (sd_rows db)" using that by (simp add: due_order_def)
    then have "eligible (sd_now db) r \<longleftrightarrow> claim_free b db r"
      using cmp by (auto simp: list_all_iff claim_free_eligible)
    then show ?thesis using table_row [OF ok dec r] eligible_claimable(1) [OF cols] by (fastforce simp: row_claimable_def)
  qed
  then have "filter (row_claimable ?now ?m) ?ks = map sr_schedule_id (due_rows b db)"
    by (auto simp: filter_map due_rows_def intro!: arg_cong [of _ _ "map sr_schedule_id"] filter_cong)
  then have "claim_picks ?now (unat n) ?ks ?m = map sr_schedule_id picks"
    by (simp add: claim_picks_def picks_def take_map)
  then have mem: "mem_claim_due ?ks ?now n d ?m =
      (Inr (claim_occurrences (abs_time b u) (map sr_schedule_id picks) ?m), claim_rows (abs_time b u) (map sr_schedule_id picks) ?m)"
    using mem_claim_due_eq [OF distinct_due_order [OF dist] until, of n ?m] by simp
  have "decode_all (decode_leased b \<circ> lease_row u) ?rows = Inr (map ?occ ?rows)"
    using row sub mset_eq_setD [OF mset] by (intro decode_all_ok) auto
  then have fst: "fst (sched_claim_due b n d db) = Inr (map ?occ ?rows)"
    by (simp add: sched_claim_eq Let_def ids u_def decode_all_map)
  have occ: "claim_occurrences (abs_time b u) (map sr_schedule_id picks) ?m = map ?occ picks"
    using row sub by (auto simp: claim_occurrences_def)
  have "mset (map f (map ?occ ?rows)) = mset (map f (map ?occ picks))" for f :: "leased_occurrence \<Rightarrow> leased_occurrence"
    using mset by simp
  then have "sched_results b (SClaim n d) db = map (\<lambda>call. memory_result call ?m) (memory_call b (SClaim n d) db)"
    by (simp add: fst mem occ claimed_set_def del: mset_map)
  then show ?thesis
    using abs_claim_lease [OF cols ok dec sub, of u] by (simp add: simulated_def mem sched_claim_eq Let_def ids u_def)
qed

lemma sweep_simulated:
  assumes cols: "columns_ok b" and ok: "sched_table_ok db" and dec: "decodable b db"
  shows "simulated b SSweep db"
proof -
  let ?m = "abs_sched b db" and ?now = "abs_time b (sd_now db)" and ?ks = "map sr_schedule_id (sd_rows db)"
  let ?f = "\<lambda>r. r\<lparr>sr_dead_lettered_at := Some (sd_now db), sr_last_error := Some dead_letter_exhausted_message, sr_leased_until := None\<rparr>"
  have dist: "distinct ?ks" using ok by (simp add: sched_table_ok_def)
  have row: "exhausted_row (sd_now db) r \<longleftrightarrow> row_sweepable ?now ?m (sr_schedule_id r)" if "r \<in> set (sd_rows db)" for r
    by (rule table_row [OF ok dec that]) (simp add: eligible_claimable(2) [OF cols] row_sweepable_def)
  have "filter (\<lambda>r. exhausted_row (sd_now db) r \<and> (ss_counts_changed b \<longrightarrow> ?f r \<noteq> r)) (sd_rows db)
      = filter (\<lambda>r. row_sweepable ?now ?m (sr_schedule_id r)) (sd_rows db)"
  proof (rule filter_cong [OF refl])
    fix r assume "r \<in> set (sd_rows db)"
    moreover have "?f r \<noteq> r" if "exhausted_row (sd_now db) r"
    proof
      assume "?f r = r"
      then have "sr_dead_lettered_at (?f r) = sr_dead_lettered_at r" by (rule arg_cong)
      then show False using that by (simp add: exhausted_row_def not_terminal_def)
    qed
    ultimately show "(exhausted_row (sd_now db) r \<and> (ss_counts_changed b \<longrightarrow> ?f r \<noteq> r)) = row_sweepable ?now ?m (sr_schedule_id r)"
      using row by blast
  qed
  then have count: "fst (run_update b (exhausted_row (sd_now db)) ?f db) = length (filter (row_sweepable ?now ?m) ?ks)"
    by (simp add: run_update_def filter_map comp_def)
  have "abs_sched b (snd (run_update b (exhausted_row (sd_now db)) ?f db)) i = restamp (sweep_rows ?now ?ks ?m) i" for i
  proof -
    have lhs: "abs_sched b (snd (run_update b (exhausted_row (sd_now db)) ?f db)) i =
        Option.bind (row_with_id i db) (\<lambda>r. abs_row b (if exhausted_row (sd_now db) r then ?f r else r))"
      unfolding run_update_def snd_conv by (rule abs_sched_map) simp
    show ?thesis
    proof (cases "row_with_id i db")
      case None
      then show ?thesis unfolding lhs by (simp add: restamp_app sweep_rows_def abs_sched_def)
    next
      case (Some r)
      then have r: "r \<in> set (sd_rows db)" "sr_schedule_id r = i" using row_with_id_id by blast+
      obtain R where R: "abs_row b r = Some R" "?m i = Some R" using table_row [OF ok dec r(1)] r(2) by metis
      have "restamp_row (sweep_row t R) = sweep_row t R" for t
        using abs_row_restamped [OF R(1)] by (cases R) (simp add: restamp_row_def sweep_row_def)
      moreover have "not_terminal r" if "exhausted_row (sd_now db) r" using that by (simp add: exhausted_row_def)
      moreover have "i \<in> set ?ks" using r by force
      ultimately show ?thesis
        unfolding lhs using Some R r row [OF r(1)] abs_row_Some [OF R(1)] sweep_abs_row [OF _ R(1)]
        by (auto simp: restamp_app sweep_rows_def)
    qed
  qed
  then have "abs_sched b (snd (run_update b (exhausted_row (sd_now db)) ?f db)) = restamp (sweep_rows ?now ?ks ?m)" by blast
  then show ?thesis
    by (simp add: simulated_def sched_dead_letter_exhausted_def case_prod_beta Let_def mem_dead_letter_exhausted_eq [OF dist] count)
qed

lemma insert_simulated:
  assumes cols: "columns_ok b" and cmp: "comparable b (SInsert msg n) db"
  shows "simulated b (SInsert msg n) db"
    and "\<exists>r. sd_rows (sched_exec b (SInsert msg n) db) = sd_rows db @ [r] \<and> is_ok (decode_message b r)"
proof -
  obtain r where r: "sched_new_row b msg n db = Inr r" "ss_accepts b r" and none: "row_with_id (schedule_id msg) db = None"
    using cmp by (auto split: sum.splits)
  obtain j where j: "ss_from_slice b (payload msg) = Inr j" "ss_to_vec b j = Inr (payload msg)"
    using cmp by (auto simp: exact_message_def split: sum.splits)
  obtain t where t: "ss_bind b (scheduled_for msg) = Inr t" "ss_read b t = Inr (scheduled_for msg)"
    using cmp by (auto simp: exact_message_def exact_instant_def split: sum.splits)
  have "decode_message b r = Inr (restamp_message msg)"
    using r(1) j t cmp
    by (cases msg; cases "msg_trigger msg"; cases "msg_target msg")
      (auto simp: sched_new_row_def decode_message_def build_message_def build_trigger_def build_target_def trigger_columns_def
        target_columns_def exact_message_def restamp_message_def trigger_delay_def result_simps)
  then have abs: "abs_row b r = Some (restamp_row (Sched_Store.fresh_row msg n))" and dec: "is_ok (decode_message b r)"
    using r(1) cmp
    by (auto simp: abs_row_def sched_new_row_def case_prod_beta Let_def result_simps restamp_row_def Sched_Store.fresh_row_def
        attempts_from_i64_budget row_status_def terminal_status_def status_with_paused_def)
  have ex: "sched_insert b msg n db = (Inr (), db\<lparr>sd_rows := sd_rows db @ [r]\<rparr>)" using r none by (simp add: sched_insert_def)
  have id: "sr_schedule_id r = schedule_id msg" using sched_new_row_ok [OF r(1)] by simp
  have "abs_sched b (db\<lparr>sd_rows := sd_rows db @ [r]\<rparr>) = (abs_sched b db)(schedule_id msg \<mapsto> restamp_row (Sched_Store.fresh_row msg n))"
  proof
    fix i
    have "find P (xs @ [x]) = (case find P xs of None \<Rightarrow> if P x then Some x else None | Some y \<Rightarrow> Some y)"
      for P xs and x :: "('a, 'b) sched_row"
      by (induction xs) simp_all
    then show "abs_sched b (db\<lparr>sd_rows := sd_rows db @ [r]\<rparr>) i
        = ((abs_sched b db)(schedule_id msg \<mapsto> restamp_row (Sched_Store.fresh_row msg n))) i"
      using none id abs by (auto simp: abs_sched_def row_with_id_def split: option.splits)
  qed
  then show "simulated b (SInsert msg n) db"
    by (simp add: simulated_def ex mem_insert_def restamp_upd restamp_abs)
  show "\<exists>r. sd_rows (sched_exec b (SInsert msg n) db) = sd_rows db @ [r] \<and> is_ok (decode_message b r)"
    using dec by (simp add: ex)
qed

text \<open>What the statements do to a row, read as a row of the in-memory store.\<close>

lemma decode_rescheduled:
  assumes "decode_message b r = Inr msg" and "ss_read b t = Inr s" and "columns_ok b"
  shows "decode_message b (r\<lparr>sr_scheduled_for := t\<rparr>) = Inr (restamp_message (msg\<lparr>scheduled_for := s\<rparr>))"
  using assms
  by (auto simp: decode_message_def build_message_def build_trigger_def trigger_delay_def trigger_cron_def restamp_message_def
      result_simps split: if_splits)

lemma decode_message_update [simp]:
  "decode_message b (r\<lparr>sr_leased_until := x\<rparr>) = decode_message b r"
  "decode_message b (r\<lparr>sr_attempts := n\<rparr>) = decode_message b r"
  "decode_message b (r\<lparr>sr_paused := p\<rparr>) = decode_message b r"
  "decode_message b (r\<lparr>sr_last_error := e\<rparr>) = decode_message b r"
  "decode_message b (r\<lparr>sr_delivered_at := x\<rparr>) = decode_message b r"
  "decode_message b (r\<lparr>sr_cancelled_at := x\<rparr>) = decode_message b r"
  "decode_message b (r\<lparr>sr_dead_lettered_at := x\<rparr>) = decode_message b r"
  by (simp_all add: decode_message_def)

lemma abs_row_eq:
  "abs_row b r = Some R \<longleftrightarrow> decode_message b r = Inr (message R)
     \<and> max_attempts R = attempts_from_i64 (sr_max_attempts r) \<and> attempts R = attempts_from_i64 (sr_attempts r)
     \<and> leased_until R = map_option (abs_time b) (sr_leased_until r) \<and> status R = row_status r \<and> last_error R = sr_last_error r
     \<and> dead_lettered_at R = map_option (abs_time b) (sr_dead_lettered_at r)"
  by (cases R) (auto simp: abs_row_def split: sum.splits)

lemmas row_status_update = row_status_def terminal_status_def status_with_paused_def not_terminal_def

lemma abs_row_acks:
  assumes cols: "columns_ok b" and nt: "not_terminal r" and R: "abs_row b r = Some R"
  shows "abs_row b (r\<lparr>sr_delivered_at := Some t, sr_leased_until := None\<rparr>) = Some (restamp_row (deliver_row R))"
    and "ss_read b t' = Inr s \<Longrightarrow>
      abs_row b (r\<lparr>sr_scheduled_for := t', sr_attempts := 0, sr_leased_until := None, sr_last_error := None\<rparr>)
        = Some (restamp_row (reschedule_row s R))"
    and "abs_row b (r\<lparr>sr_leased_until := Some t, sr_last_error := Some e\<rparr>) = Some (restamp_row (fail_row (abs_time b t) e R))"
    and "abs_row b (r\<lparr>sr_dead_lettered_at := Some t, sr_last_error := Some e, sr_leased_until := None\<rparr>)
        = Some (restamp_row (dead_letter_row (abs_time b t) e R))"
    and "abs_row b (r\<lparr>sr_cancelled_at := Some t, sr_leased_until := None\<rparr>)
        = Some (restamp_row (R\<lparr>status := Cancelled, leased_until := None\<rparr>))"
proof -
  note dec = abs_row_restamped [OF R]
  have re: "decode_message b (r\<lparr>sr_scheduled_for := t', sr_attempts := 0, sr_leased_until := None, sr_last_error := None\<rparr>)
      = Inr (restamp_message ((message R)\<lparr>scheduled_for := s\<rparr>))" if "ss_read b t' = Inr s" for t' s
    using decode_rescheduled [OF _ that cols, of r "message R"] R by (simp add: abs_row_eq)
  show "abs_row b (r\<lparr>sr_delivered_at := Some t, sr_leased_until := None\<rparr>) = Some (restamp_row (deliver_row R))"
    "abs_row b (r\<lparr>sr_leased_until := Some t, sr_last_error := Some e\<rparr>) = Some (restamp_row (fail_row (abs_time b t) e R))"
    "abs_row b (r\<lparr>sr_dead_lettered_at := Some t, sr_last_error := Some e, sr_leased_until := None\<rparr>)
      = Some (restamp_row (dead_letter_row (abs_time b t) e R))"
    "abs_row b (r\<lparr>sr_cancelled_at := Some t, sr_leased_until := None\<rparr>)
      = Some (restamp_row (R\<lparr>status := Cancelled, leased_until := None\<rparr>))"
    using R nt dec
    by (simp_all add: abs_row_eq restamp_row_def deliver_row_def fail_row_def dead_letter_row_def row_status_update)
  show "abs_row b (r\<lparr>sr_scheduled_for := t', sr_attempts := 0, sr_leased_until := None, sr_last_error := None\<rparr>)
      = Some (restamp_row (reschedule_row s R))" if "ss_read b t' = Inr s"
    using R nt re [OF that] by (simp add: abs_row_eq restamp_row_def reschedule_row_def row_status_update)
qed

lemma delivered_simulated:
  assumes base: "columns_ok b" "sched_table_ok db" "decodable b db" and cmp: "comparable b (SDelivered i l) db"
  shows "simulated b (SDelivered i l) db"
proof -
  let ?f = "\<lambda>r. r\<lparr>sr_delivered_at := Some (sd_now db), sr_leased_until := None\<rparr>" and ?p = "fenced_pending (abs_sched b db) i l"
  have "fst (fenced_statement b i l ?f db) = Inr (?p \<noteq> None) \<and> abs_sched b (snd (fenced_statement b i l ?f db)) =
      restamp (case ?p of None \<Rightarrow> abs_sched b db | Some R \<Rightarrow> (abs_sched b db)(i \<mapsto> deliver_row R))"
    using cmp by (intro fenced_simulates base) (auto intro: abs_row_acks(1) [OF base(1)])
  then show ?thesis
    by (cases ?p) (simp_all add: simulated_def sched_mark_delivered_def mem_mark_delivered_def deliver_row_def)
qed

lemma dead_simulated:
  assumes base: "columns_ok b" "sched_table_ok db" "decodable b db" and cmp: "comparable b (SDead i e l) db"
  shows "simulated b (SDead i e l) db"
proof -
  let ?f = "\<lambda>r. r\<lparr>sr_dead_lettered_at := Some (sd_now db), sr_last_error := Some e, sr_leased_until := None\<rparr>"
  let ?p = "fenced_pending (abs_sched b db) i l" and ?now = "abs_time b (sd_now db)"
  have "fst (fenced_statement b i l ?f db) = Inr (?p \<noteq> None) \<and> abs_sched b (snd (fenced_statement b i l ?f db)) =
      restamp (case ?p of None \<Rightarrow> abs_sched b db | Some R \<Rightarrow> (abs_sched b db)(i \<mapsto> dead_letter_row ?now e R))"
    using cmp by (intro fenced_simulates base) (auto intro: abs_row_acks(4) [OF base(1)])
  then show ?thesis
    by (cases ?p) (simp_all add: simulated_def sched_mark_dead_lettered_def mem_mark_dead_lettered_def dead_letter_row_def)
qed

lemma reschedule_simulated:
  assumes base: "columns_ok b" "sched_table_ok db" "decodable b db" and cmp: "comparable b (SReschedule i s l) db"
  shows "simulated b (SReschedule i s l) db"
proof -
  obtain t where t: "ss_bind b s = Inr t" "ss_read b t = Inr s"
    using cmp by (auto simp: exact_instant_def split: sum.splits)
  let ?f = "\<lambda>r. r\<lparr>sr_scheduled_for := t, sr_attempts := 0, sr_leased_until := None, sr_last_error := None\<rparr>"
  let ?p = "fenced_pending (abs_sched b db) i l"
  have "fst (fenced_statement b i l ?f db) = Inr (?p \<noteq> None) \<and> abs_sched b (snd (fenced_statement b i l ?f db)) =
      restamp (case ?p of None \<Rightarrow> abs_sched b db | Some R \<Rightarrow> (abs_sched b db)(i \<mapsto> reschedule_row s R))"
    using cmp by (intro fenced_simulates base) (auto intro: abs_row_acks(2) [OF base(1) _ _ t(2)])
  then show ?thesis
    by (cases ?p) (simp_all add: simulated_def sched_reschedule_def mem_reschedule_def reschedule_row_def t(1))
qed

lemma failed_simulated:
  assumes base: "columns_ok b" "sched_table_ok db" "decodable b db" and cmp: "comparable b (SFailed i d e l) db"
  shows "simulated b (SFailed i d e l) db"
proof -
  let ?f = "\<lambda>r. r\<lparr>sr_leased_until := Some (now_plus b d db), sr_last_error := Some e\<rparr>"
  let ?p = "fenced_pending (abs_sched b db) i l" and ?t = "abs_time b (now_plus b d db)"
  have "fst (fenced_statement b i l ?f db) = Inr (?p \<noteq> None) \<and> abs_sched b (snd (fenced_statement b i l ?f db)) =
      restamp (case ?p of None \<Rightarrow> abs_sched b db | Some R \<Rightarrow> (abs_sched b db)(i \<mapsto> fail_row ?t e R))"
    using cmp by (intro fenced_simulates base) (auto intro: abs_row_acks(3) [OF base(1)])
  moreover have "systime_checked_add (abs_time b (sd_now db)) d = Some ?t" using cmp by (simp add: exact_interval_def)
  ultimately show ?thesis
    by (cases ?p) (simp_all add: simulated_def sched_mark_failed_def mem_mark_failed_def fail_row_def)
qed

lemma restamp_eq: "abs_row b r = Some R \<Longrightarrow> restamp_row R = R"
  using abs_row_Some by blast

lemma cancel_simulated:
  assumes base: "columns_ok b" "sched_table_ok db" "decodable b db"
  shows "simulated b (SCancel i) db"
proof -
  let ?F = "\<lambda>R. if is_terminal (status R) then R else R\<lparr>status := Cancelled, leased_until := None\<rparr>"
  let ?f = "\<lambda>r. r\<lparr>sr_cancelled_at := Some (sd_now db), sr_leased_until := None\<rparr>"
  have F: "(if not_terminal r then abs_row b (?f r) else Some R) = Some (restamp_row (?F R))" if "abs_row b r = Some R" for r R
    using abs_row_acks(5) [OF base(1) _ that] restamp_eq [OF that] abs_row_Some [OF that] by (simp add: row_status_simps)
  have "fst (control_statement b i not_terminal ?f db) = (if abs_sched b db i = None then Inl (ScheduleNotFound i) else Inr ())
      \<and> abs_sched b (snd (control_statement b i not_terminal ?f db)) =
        restamp (case abs_sched b db i of None \<Rightarrow> abs_sched b db | Some R \<Rightarrow> (abs_sched b db)(i \<mapsto> ?F R))"
    by (intro control_simulates base(2,3) F) simp_all
  then show ?thesis
    by (cases "abs_sched b db i") (simp_all add: simulated_def sched_cancel_def mem_cancel_def fun_upd_idem)
qed

lemma pause_simulated:
  assumes base: "columns_ok b" "sched_table_ok db" "decodable b db"
  shows "simulated b (SPause i p) db"
proof -
  let ?F = "\<lambda>R. if p \<and> status R = Pending then R\<lparr>status := Paused\<rparr>
    else if \<not> p \<and> status R = Paused then R\<lparr>status := Pending\<rparr> else R"
  have F: "(if True then abs_row b (r\<lparr>sr_paused := p\<rparr>) else Some R) = Some (restamp_row (?F R))" if "abs_row b r = Some R" for r R
    using that abs_row_restamped [OF that] by (auto simp: abs_row_eq restamp_row_def row_status_update)
  have "fst (control_statement b i (\<lambda>_. True) (\<lambda>r. r\<lparr>sr_paused := p\<rparr>) db)
        = (if abs_sched b db i = None then Inl (ScheduleNotFound i) else Inr ())
      \<and> abs_sched b (snd (control_statement b i (\<lambda>_. True) (\<lambda>r. r\<lparr>sr_paused := p\<rparr>) db)) =
        restamp (case abs_sched b db i of None \<Rightarrow> abs_sched b db | Some R \<Rightarrow> (abs_sched b db)(i \<mapsto> ?F R))"
    by (intro control_simulates base(2,3) F) simp_all
  then show ?thesis
    by (cases "abs_sched b db i") (simp_all add: simulated_def sched_set_paused_def mem_set_paused_def fun_upd_idem)
qed

lemma resume_simulated:
  assumes base: "columns_ok b" "sched_table_ok db" "decodable b db" and cmp: "comparable b (SResume i s) db"
  shows "simulated b (SResume i s) db"
proof (cases s)
  case None
  let ?P = "\<lambda>r. sr_paused r \<and> not_terminal r" and ?f = "\<lambda>r. r\<lparr>sr_paused := False, sr_leased_until := None\<rparr>"
  let ?F = "\<lambda>R. if status R = Paused then R\<lparr>status := Pending\<rparr> else R"
  have F: "(if ?P r then abs_row b (?f r) else Some R) = Some (restamp_row (?F R))"
    if "row_with_id i db = Some r" "abs_row b r = Some R" for r R
  proof -
    have "sr_leased_until r = None" if "?P r" using cmp None that \<open>row_with_id i db = Some r\<close> by (simp add: row_status_simps)
    then show ?thesis
      using that(2) abs_row_restamped [OF that(2)] restamp_eq [OF that(2)] row_status_simps [of r]
      by (auto simp: abs_row_eq restamp_row_def) (simp_all add: row_status_update)
  qed
  have "fst (control_statement b i ?P ?f db) = (if abs_sched b db i = None then Inl (ScheduleNotFound i) else Inr ())
      \<and> abs_sched b (snd (control_statement b i ?P ?f db)) =
        restamp (case abs_sched b db i of None \<Rightarrow> abs_sched b db | Some R \<Rightarrow> (abs_sched b db)(i \<mapsto> ?F R))"
    by (intro control_simulates base(2,3) F) simp_all
  then show ?thesis
    by (cases "abs_sched b db i") (simp_all add: None simulated_def sched_resume_def mem_resume_def fun_upd_idem)
next
  case (Some s')
  obtain t where t: "ss_bind b s' = Inr t" "ss_read b t = Inr s'"
    using cmp Some by (auto simp: exact_instant_def split: sum.splits)
  let ?P = "\<lambda>r. sr_paused r \<and> not_terminal r"
  let ?f = "\<lambda>r. r\<lparr>sr_paused := False, sr_scheduled_for := t, sr_attempts := 0, sr_last_error := None, sr_leased_until := None\<rparr>"
  let ?F = "\<lambda>R. if status R = Paused then R\<lparr>status := Pending, message := (message R)\<lparr>scheduled_for := s'\<rparr>,
      attempts := 0, last_error := None, leased_until := None\<rparr> else R"
  have F: "(if ?P r then abs_row b (?f r) else Some R) = Some (restamp_row (?F R))" if R: "abs_row b r = Some R" for r R
  proof -
    have "decode_message b (?f r) = Inr (restamp_message ((message R)\<lparr>scheduled_for := s'\<rparr>))"
      using decode_rescheduled [OF _ t(2) base(1), of "r\<lparr>sr_paused := False\<rparr>" "message R"] R by (simp add: abs_row_eq)
    then show ?thesis
      using R restamp_eq [OF R] row_status_simps [of r] by (auto simp: abs_row_eq restamp_row_def) (simp_all add: row_status_update)
  qed
  have "fst (control_statement b i ?P ?f db) = (if abs_sched b db i = None then Inl (ScheduleNotFound i) else Inr ())
      \<and> abs_sched b (snd (control_statement b i ?P ?f db)) =
        restamp (case abs_sched b db i of None \<Rightarrow> abs_sched b db | Some R \<Rightarrow> (abs_sched b db)(i \<mapsto> ?F R))"
    by (intro control_simulates base(2,3) F) simp_all
  then show ?thesis
    by (cases "abs_sched b db i") (simp_all add: Some t(1) simulated_def sched_resume_def mem_resume_def fun_upd_idem)
qed

lemma decode_snapshot_ok:
  assumes "columns_ok b" and "is_ok (decode_message b r)"
  shows "\<exists>s. decode_snapshot b r = Inr s \<and> snap_status s = row_status r"
proof -
  have "is_ok (build_trigger (ss_engine b) (ss_debug b) (sr_trigger_kind r) (sr_cron_expr r) (abs_time b (sr_scheduled_for r)))"
    using assms decode_message_ok [OF assms(1)] build_trigger_ok by blast
  then show ?thesis
    by (cases "build_trigger (ss_engine b) (ss_debug b) (sr_trigger_kind r) (sr_cron_expr r) (abs_time b (sr_scheduled_for r))")
      (simp_all add: decode_snapshot_def columns_read [OF assms(1)])
qed

lemma replay_simulated:
  assumes base: "columns_ok b" "sched_table_ok db" "decodable b db"
  shows "simulated b (SReplay i) db"
proof -
  let ?P = "\<lambda>r. sr_schedule_id r = i \<and> sr_dead_lettered_at r \<noteq> None" and ?now = "abs_time b (sd_now db)"
  let ?f = "\<lambda>r. r\<lparr>sr_scheduled_for := sd_now db, sr_attempts := 0, sr_leased_until := None, sr_last_error := None,
      sr_paused := False, sr_dead_lettered_at := None\<rparr>"
  define n db' where "n = fst (run_update b ?P ?f db)" and "db' = snd (run_update b ?P ?f db)"
  have stmt: "sched_replay b i db = (if n = 0 then
      (case fst (sched_inspect b i db') of
         Inl e \<Rightarrow> (Inl e, db')
       | Inr None \<Rightarrow> (Inl (ScheduleNotFound i), db')
       | Inr (Some s) \<Rightarrow> (Inl (NotReplayable i (snap_status s)), db')) else (Inr (), db'))"
    unfolding sched_replay_def case_prod_beta Let_def n_def db'_def by (rule refl)
  have changed: "?f r \<noteq> r" if "sr_dead_lettered_at r \<noteq> None" for r :: "('a, 'b) sched_row"
  proof
    assume "?f r = r"
    then have "sr_dead_lettered_at (?f r) = sr_dead_lettered_at r" by (rule arg_cong)
    then show False using that by simp
  qed
  have count: "0 < n \<longleftrightarrow> (\<exists>r. row_with_id i db = Some r \<and> ?P r \<and> (ss_counts_changed b \<longrightarrow> ?f r \<noteq> r))"
    unfolding n_def by (rule run_update_count [OF base(2)]) simp
  have abs: "abs_sched b db' = (case row_with_id i db of None \<Rightarrow> abs_sched b db
      | Some r \<Rightarrow> if ?P r then (abs_sched b db)(i := abs_row b (?f r)) else abs_sched b db)"
    unfolding db'_def by (rule abs_update_row) simp_all
  have row: "row_with_id i db' = map_option (\<lambda>r. if ?P r then ?f r else r) (row_with_id i db)"
    unfolding db'_def run_update_def snd_conv by (rule row_with_id_map) simp
  have goal: "simulated b (SReplay i) db"
    if "fst (sched_replay b i db) = fst (mem_replay ?now i (abs_sched b db))"
      "abs_sched b (snd (sched_replay b i db)) = restamp (snd (mem_replay ?now i (abs_sched b db)))"
    using that by (simp add: simulated_def)
  show ?thesis
  proof (cases "row_with_id i db")
    case None
    then have "n = 0" "abs_sched b db i = None" using count by (simp_all add: abs_sched_def)
    then show ?thesis
      using None row abs by (intro goal) (simp_all add: stmt sched_inspect_def mem_replay_def restamp_abs)
  next
    case (Some r)
    have r: "r \<in> set (sd_rows db)" "sr_schedule_id r = i" using row_with_id_id [OF Some] by simp_all
    obtain R where R: "abs_row b r = Some R" "abs_sched b db i = Some R" "sched_row_ok r"
      using table_row [OF base(2,3) r(1)] r(2) by metis
    note status = abs_row_Some [OF R(1), THEN conjunct1] row_status_simps(4) [of r]
    show ?thesis
    proof (cases "sr_dead_lettered_at r = None")
      case True
      have "is_ok (decode_message b r)" using R(1) by (simp add: abs_row_eq)
      then obtain s where s: "decode_snapshot b r = Inr s" "snap_status s = row_status r"
        using decode_snapshot_ok [OF base(1)] by blast
      have "n = 0" using count Some True by simp
      then show ?thesis
        using Some row abs True s R(2) status
        by (intro goal) (simp_all add: stmt sched_inspect_def mem_replay_def restamp_abs)
    next
      case False
      have "abs_row b (?f r) = Some (restamp_row (R\<lparr>status := Pending, attempts := 0, last_error := None, leased_until := None,
          dead_lettered_at := None, message := (message R)\<lparr>scheduled_for := ?now\<rparr>\<rparr>))"
        using decode_rescheduled [OF _ columns_read [OF base(1)] base(1), of r "message R" "sd_now db"] R(1,3) False
        by (simp add: abs_row_eq restamp_row_def sched_row_ok_def) (simp add: row_status_update)
      moreover have "n \<noteq> 0" using count Some False r(2) changed [OF False] by simp
      ultimately show ?thesis
        using Some abs False R(2) r(2) status by (intro goal) (simp_all add: stmt mem_replay_def restamp_upd restamp_abs)
    qed
  qed
qed

lemma call_simulated:
  assumes base: "columns_ok b" "sched_table_ok db" "decodable b db" and cmp: "comparable b c db"
  shows "simulated b c db"
proof (cases c)
  case (SClock now)
  have "abs_sched b (db\<lparr>sd_now := now\<rparr>) = abs_sched b db" by (rule ext) (simp add: abs_sched_def row_with_id_def)
  then show ?thesis by (simp add: SClock simulated_def restamp_abs)
next
  case (SLocks ids)
  have "abs_sched b (db\<lparr>sd_locked := ids\<rparr>) = abs_sched b db" by (rule ext) (simp add: abs_sched_def row_with_id_def)
  then show ?thesis by (simp add: SLocks simulated_def restamp_abs)
next
  case SInsert
  then show ?thesis using insert_simulated(1) [OF base(1)] cmp by blast
next
  case SClaim
  then show ?thesis using claim_simulated [OF base] cmp by blast
next
  case SDelivered
  then show ?thesis using delivered_simulated [OF base] cmp by blast
next
  case SReschedule
  then show ?thesis using reschedule_simulated [OF base] cmp by blast
next
  case SFailed
  then show ?thesis using failed_simulated [OF base] cmp by blast
next
  case SDead
  then show ?thesis using dead_simulated [OF base] cmp by blast
next
  case SResume
  then show ?thesis using resume_simulated [OF base] cmp by blast
next
  case SSweep
  then show ?thesis using sweep_simulated [OF base] by blast
next
  case SCancel
  then show ?thesis using cancel_simulated [OF base] by blast
next
  case SPause
  then show ?thesis using pause_simulated [OF base] by blast
next
  case SReplay
  then show ?thesis using replay_simulated [OF base] by blast
qed

lemma call_decodable:
  assumes base: "columns_ok b" "sched_table_ok db" "decodable b db" "comparable b c db"
  shows "decodable b (sched_exec b c db)"
proof (cases "\<exists>msg n. c = SInsert msg n")
  case True
  then obtain msg n where c: "c = SInsert msg n" by blast
  obtain r where "sd_rows (sched_exec b c db) = sd_rows db @ [r]" "is_ok (decode_message b r)"
    using insert_simulated(2) [OF base(1), of msg n db] base(4) unfolding c by blast
  then show ?thesis using base(3) by (auto simp: decodable_def)
next
  case False
  have "rows_step db (sched_exec b c db)" by (rule sched_exec_step [OF base(2) False])
  then obtain g where rows: "sd_rows (sched_exec b c db) = map g (sd_rows db)" and g: "\<forall>r\<in>set (sd_rows db). row_step r (g r)"
    unfolding rows_step_def by blast
  have "is_ok (decode_message b (g r))" if "r \<in> set (sd_rows db)" for r
  proof -
    have "row_body (g r) = row_body r" using g that by (simp add: row_step_def)
    from decode_message_body [OF base(1) this] show ?thesis using base(3) that by (simp add: decodable_def)
  qed
  then show ?thesis by (auto simp: decodable_def rows)
qed

section \<open>The refinement\<close>

lemma memory_call_wf: "sched_table_ok db \<Longrightarrow> call \<in> set (memory_call b c db) \<Longrightarrow> call_wf call"
  by (cases c) (auto simp: sched_table_ok_def intro: distinct_due_order)

text \<open>A step of the table against any map it refines.\<close>

lemma refined_step:
  assumes base: "columns_ok b" "sched_table_ok db" "decodable b db" "comparable b c db" and m: "abs_sched b db = restamp m"
  shows "abs_sched b (sched_exec b c db) = restamp (fold exec (memory_call b c db) m)"
    and "sched_results b c db = map (\<lambda>call. memory_result call m) (memory_call b c db)"
proof -
  note sim = call_simulated [OF base, unfolded simulated_def]
  have wf: "\<forall>call\<in>set (memory_call b c db). call_wf call" using memory_call_wf [OF base(2)] by blast
  show "sched_results b c db = map (\<lambda>call. memory_result call m) (memory_call b c db)"
    using sim wf exec_restamp [of _ m] m by simp
  consider "memory_call b c db = []" | call where "memory_call b c db = [call]" by (cases c) auto
  then show "abs_sched b (sched_exec b c db) = restamp (fold exec (memory_call b c db) m)"
    using sim wf exec_restamp [of _ m] m by cases simp_all
qed

lemma abs_sched_dom:
  assumes "sched_table_ok db" and "decodable b db"
  shows "dom (abs_sched b db) = set (map sr_schedule_id (sd_rows db))"
proof
  show "dom (abs_sched b db) \<subseteq> set (map sr_schedule_id (sd_rows db))"
    by (auto simp: abs_sched_def bind_eq_Some_conv dest!: row_with_id_id)
  show "set (map sr_schedule_id (sd_rows db)) \<subseteq> dom (abs_sched b db)"
    by (auto elim!: table_row [OF assms])
qed

lemma refined_visits:
  assumes ok: "sched_table_ok db" and dec: "decodable b db" and m: "abs_sched b db = restamp m"
  shows "list_all (\<lambda>call. visits_all call m) (memory_call b c db)"
proof -
  have "dom m = dom (restamp m)" by (auto simp: restamp_app dom_def)
  then have dom: "dom m = set (map sr_schedule_id (sd_rows db))" using abs_sched_dom [OF ok dec] m by simp
  have dist: "distinct (map sr_schedule_id (sd_rows db))" using ok by (simp add: sched_table_ok_def)
  have "set (map sr_schedule_id (due_order db)) = set (map sr_schedule_id (sd_rows db))" by (simp add: due_order_def)
  then show ?thesis using dom dist distinct_due_order [OF dist] by (cases c) (simp_all add: key_order_def del: set_map)
qed

lemma refined_run:
  "columns_ok b \<Longrightarrow> sched_table_ok db \<Longrightarrow> decodable b db \<Longrightarrow> abs_sched b db = restamp m \<Longrightarrow> comparable_run b cs db \<Longrightarrow>
   abs_sched b (fst (fst (both_run b cs db m))) = restamp (fst (snd (both_run b cs db m)))
   \<and> snd (fst (both_run b cs db m)) = snd (snd (both_run b cs db m)) \<and> visits_run b cs db m"
proof (induction cs arbitrary: db m)
  case (Cons c cs)
  let ?d = "sched_exec b c db" and ?m = "fold exec (memory_call b c db) m"
  have c: "comparable b c db" "comparable_run b cs ?d" using Cons.prems(5) by simp_all
  note step = refined_step [OF Cons.prems(1-3) c(1) Cons.prems(4)]
  note IH = Cons.IH [OF Cons.prems(1) sched_exec_ok [OF Cons.prems(2)] call_decodable [OF Cons.prems(1-3) c(1)] step(1) c(2)]
  show ?case
    unfolding both_run.simps visits_run.simps Let_def case_prod_beta fst_conv snd_conv
    using IH step(2) refined_visits [OF Cons.prems(2,3,4)] by (simp only:)
qed simp

text \<open>
  C22. The SQL stores refine the in-memory store. Over any run of comparable calls the table, read as a
  map, is what the in-memory store holds after the same calls, up to the instant shown by a one-shot
  trigger, and every call returns the same result, a claim the same set of occurrences. In its claims
  and sweeps the in-memory store visits all of its keys; of the orders its hash map may have, it is the
  one by due instant in a claim. Not comparable are: inserting an id that exists, claiming while another
  transaction holds a lock on a claimable row, acknowledging a paused schedule, a resume that releases a
  lease, and instants, intervals or payloads the columns do not hold exactly.
\<close>

theorem sched_sql_refines_memory:
  assumes cols: "columns_ok b" and comparable: "comparable_run b cs (sched_db_init now)"
    and run: "both_run b cs (sched_db_init now) Map.empty = ((db, results), m, memory_results)"
  shows "abs_sched b db = restamp m \<and> results = memory_results \<and> visits_run b cs (sched_db_init now) Map.empty"
proof -
  have init: "abs_sched b (sched_db_init now) = restamp Map.empty"
    by (rule ext) (simp add: abs_sched_def row_with_id_def sched_db_init_def restamp_def)
  have "decodable b (sched_db_init now)" by (simp add: decodable_def sched_db_init_def)
  from refined_run [OF cols sched_db_init_ok this init comparable] show ?thesis by (simp add: run)
qed

definition sample_sched_calls :: "int sched_call list" where
  "sample_sched_calls = [SInsert sample_message 3, SClaim 1 10, SDelivered 7 10]"

lemma sample_columns_ok: "columns_ok sample_sched_backend"
  by (simp add: columns_ok_def abs_time_def sample_sched_backend_def)

theorem sched_sql_refines_memory_witness:
  "\<exists>db results m. both_run sample_sched_backend sample_sched_calls (sched_db_init 0) Map.empty = ((db, results), m, results)
     \<and> abs_sched sample_sched_backend db = restamp m"
proof -
  have "comparable sample_sched_backend (SInsert sample_message 3) (sched_db_init 0)"
    by (simp add: exact_message_def exact_instant_def i32_max_def sched_new_row_def trigger_columns_def target_columns_def
        row_with_id_def sched_db_init_def sample_sched_defs)
  moreover have "comparable sample_sched_backend (SClaim 1 10)
      ((sample_sched_db None 0)\<lparr>sd_rows := [(sample_sched_row None)\<lparr>sr_attempts := 0\<rparr>]\<rparr>)"
    by (simp add: exact_interval_def systime_checked_add_def systime_max_def abs_time_def now_plus_def bind_interval_def
        from_secs_def nanos_per_sec_def sample_sched_defs)
  moreover have "comparable sample_sched_backend (SDelivered 7 10) (sample_sched_db (Some 10) 0)"
    by (simp add: exact_instant_def not_paused_def row_with_id_def row_status_update sample_sched_defs)
  ultimately have cmp: "comparable_run sample_sched_backend sample_sched_calls (sched_db_init 0)"
    by (simp add: sample_sched_calls_def sample_sched_insert sample_sched_claim del: sched_exec.simps comparable.simps)
  obtain db results m ms where run:
    "both_run sample_sched_backend sample_sched_calls (sched_db_init 0) Map.empty = ((db, results), m, ms)"
    by (metis prod.exhaust)
  from sched_sql_refines_memory [OF sample_columns_ok cmp run] run show ?thesis by blast
qed

end
