(* ===== verification/Bus_Core.thy ===== *)
theory Bus_Core
  imports Hex_Core
begin

text \<open>
  The message bus core: the errors of the bus and of envelope security, the reserved
  header namespace and the constants of the request-reply protocol, and the envelope
  (\<open>crates/hexeract-bus/src/{error,rpc_protocol,envelope}.rs\<close> and
  \<open>envelope_security/{error,protocol}.rs\<close>).

  A header map is a partial map from names to values. JSON encoding and decoding are the
  third-party crate \<open>serde_json\<close>: their results are arguments. A freshly minted UUIDv7 and
  the clock are arguments as well.
\<close>

section \<open>Errors\<close>

datatype identity_kind = IssuerKind | AudienceKind | KeyIdKind

datatype key_source_error =
    KeyUnknown
  | KeyRevoked
  | KeyUnavailable string
  | MissingSigningKey

datatype envelope_security_error =
    MissingSignature
  | MalformedSecurityHeader string
  | UnsupportedAlgorithm
  | UnknownKey
  | RevokedKey
  | AudienceMismatch
  | DestinationMismatch
  | SignatureMismatch
  | BrokerUserMismatch
  | MissingRequiredField string
  | MalformedRequiredField string
  | InvalidSecurityConfiguration string
  | FieldTooLarge
  | InvalidIdentity identity_kind
  | KeySource key_source_error

datatype metadata_limit = HeaderCount | KeyBytes | ValueBytes | TotalBytes

datatype invalid_metadata_reason = NonUtf8LongString | NonCanonicalReservedHeader

datatype bus_error =
    ReservedHeaderNamespace
  | MetadataLimitExceeded metadata_limit nat nat
  | InvalidMetadata invalid_metadata_reason
  | BusSerialization string
  | Transport string
  | Connection string bool
  | Unroutable string string nat
  | ReplyUndeliverable string string nat
  | ShutdownDrainTimedOut nat duration
  | MissingHandler string
  | TypeMismatch string string
  | PayloadTooLarge nat nat
  | InvalidTopology string
  | BusInternal string
  | EnvelopeSecurity envelope_security_error

fun is_retryable_connection :: "bus_error \<Rightarrow> bool option" where
  "is_retryable_connection (Connection _ retryable) = Some retryable"
| "is_retryable_connection _ = None"

fun is_permanent_delivery_failure :: "bus_error \<Rightarrow> bool" where
  "is_permanent_delivery_failure (MissingHandler _) = True"
| "is_permanent_delivery_failure (ReplyUndeliverable _ _ _) = True"
| "is_permanent_delivery_failure _ = False"

section \<open>Headers\<close>

definition ascii_lower :: "char \<Rightarrow> char" where
  "ascii_lower c =
     (let n = of_char c :: nat in if 65 \<le> n \<and> n \<le> 90 then char_of (n + 32) else c)"

definition reserved_header_prefix :: string where
  "reserved_header_prefix = ''x-hexeract-''"

text \<open>
  \<open>key.get(..11)\<close> fails on a short key or when byte 11 is inside a character. In the latter
  case one of the first eleven bytes is not ASCII, so the comparison fails as well.
\<close>

definition is_reserved_header :: "string \<Rightarrow> bool" where
  "is_reserved_header key \<longleftrightarrow>
     length reserved_header_prefix \<le> length key
     \<and> map ascii_lower (take (length reserved_header_prefix) key)
       = map ascii_lower reserved_header_prefix"

definition protocol_version_header :: string where
  "protocol_version_header = ''x-hexeract-protocol-version''"

definition protocol_version :: u32 where
  "protocol_version = 1"

definition request_id_header :: string where
  "request_id_header = ''x-hexeract-request-id''"

definition reply_status_header :: string where
  "reply_status_header = ''x-hexeract-reply-status''"

definition reply_status_ok :: string where
  "reply_status_ok = ''ok''"

definition reply_status_error :: string where
  "reply_status_error = ''error''"

definition reply_error_message_type :: string where
  "reply_error_message_type = ''hexeract.rpc.error''"

definition deadline_header :: string where
  "deadline_header = ''x-hexeract-deadline''"

lemmas rpc_header_defs =
  protocol_version_header_def request_id_header_def reply_status_header_def deadline_header_def

section \<open>Envelopes\<close>

type_synonym header_map = "string \<rightharpoonup> string"

record bus_envelope =
  env_message_id :: uuid
  env_message_type :: string
  env_payload :: "byte list"
  env_correlation_id :: uuid
  env_reply_to :: "string option"
  env_headers :: header_map
  env_protocol_headers :: header_map
  env_published_at :: systime

definition envelope_new ::
  "uuid \<Rightarrow> systime \<Rightarrow> string \<Rightarrow> (string, byte list) result \<Rightarrow> uuid \<Rightarrow> (bus_error, bus_envelope) result"
where
  "envelope_new fresh_id now msg_type encoded corr =
     rbind (map_err BusSerialization encoded) (\<lambda>bytes.
       Inr \<lparr>env_message_id = fresh_id, env_message_type = msg_type, env_payload = bytes,
            env_correlation_id = corr, env_reply_to = None, env_headers = Map.empty,
            env_protocol_headers = Map.empty, env_published_at = now\<rparr>)"

definition validate_application_headers :: "string list \<Rightarrow> bus_envelope \<Rightarrow> (bus_error, unit) result" where
  "validate_application_headers ks e =
     (if list_ex (\<lambda>k. env_headers e k \<noteq> None \<and> is_reserved_header k) ks
      then Inl ReservedHeaderNamespace else Inr ())"

definition envelope_with_headers ::
  "uuid \<Rightarrow> systime \<Rightarrow> string \<Rightarrow> (string, byte list) result \<Rightarrow> uuid \<Rightarrow> string list \<Rightarrow> header_map \<Rightarrow>
   (bus_error, bus_envelope) result"
where
  "envelope_with_headers fresh_id now msg_type encoded corr ks hs =
     rbind (envelope_new fresh_id now msg_type encoded corr) (\<lambda>e.
       let e' = e\<lparr>env_headers := hs\<rparr> in
       rbind (validate_application_headers ks e') (\<lambda>_. Inr e'))"

definition envelope_with_reply_to ::
  "uuid \<Rightarrow> systime \<Rightarrow> string \<Rightarrow> (string, byte list) result \<Rightarrow> uuid \<Rightarrow> string \<Rightarrow>
   (bus_error, bus_envelope) result"
where
  "envelope_with_reply_to fresh_id now msg_type encoded corr reply_to =
     rbind (envelope_new fresh_id now msg_type encoded corr) (\<lambda>e. Inr (e\<lparr>env_reply_to := Some reply_to\<rparr>))"

definition envelope_restore ::
  "uuid \<Rightarrow> string \<Rightarrow> byte list \<Rightarrow> uuid \<Rightarrow> string option \<Rightarrow> header_map \<Rightarrow> systime \<Rightarrow> bus_envelope"
where
  "envelope_restore mid mtype bytes corr reply_to hs at =
     \<lparr>env_message_id = mid, env_message_type = mtype, env_payload = bytes,
      env_correlation_id = corr, env_reply_to = reply_to, env_headers = hs,
      env_protocol_headers = Map.empty, env_published_at = at\<rparr>"

definition envelope_restore_from_transport ::
  "uuid \<Rightarrow> string \<Rightarrow> byte list \<Rightarrow> uuid \<Rightarrow> string option \<Rightarrow> header_map \<Rightarrow> header_map \<Rightarrow> systime \<Rightarrow>
   bus_envelope"
where
  "envelope_restore_from_transport mid mtype bytes corr reply_to hs phs at =
     \<lparr>env_message_id = mid, env_message_type = mtype, env_payload = bytes,
      env_correlation_id = corr, env_reply_to = reply_to, env_headers = hs,
      env_protocol_headers = phs, env_published_at = at\<rparr>"

definition header :: "bus_envelope \<Rightarrow> string \<Rightarrow> string option" where
  "header e key =
     (if is_reserved_header key then env_protocol_headers e key else env_headers e key)"

text \<open>The pairs on the wire: application headers, then protocol headers, in iteration order.\<close>

definition header_pairs :: "string list \<Rightarrow> header_map \<Rightarrow> (string \<times> string) list" where
  "header_pairs ks hs = map (\<lambda>k. (k, the (hs k))) (filter (\<lambda>k. hs k \<noteq> None) ks)"

definition wire_headers :: "string list \<Rightarrow> string list \<Rightarrow> bus_envelope \<Rightarrow> (string \<times> string) list" where
  "wire_headers hks pks e =
     header_pairs hks (env_headers e) @ header_pairs pks (env_protocol_headers e)"

definition insert_protocol_header :: "string \<Rightarrow> string \<Rightarrow> bus_envelope \<Rightarrow> bus_envelope" where
  "insert_protocol_header key val e =
     e\<lparr>env_protocol_headers := (env_protocol_headers e)(key \<mapsto> val)\<rparr>"

definition envelope_decode ::
  "string \<Rightarrow> (byte list \<Rightarrow> (string, 'm) result) \<Rightarrow> bus_envelope \<Rightarrow> (bus_error, 'm) result"
where
  "envelope_decode msg_type decode e =
     (if env_message_type e \<noteq> msg_type then Inl (TypeMismatch msg_type (env_message_type e))
      else map_err BusSerialization (decode (env_payload e)))"

section \<open>Lemmas\<close>

lemma reserved_rpc_headers [simp]:
  "is_reserved_header protocol_version_header"
  "is_reserved_header request_id_header"
  "is_reserved_header reply_status_header"
  "is_reserved_header deadline_header"
  by (simp_all add: is_reserved_header_def reserved_header_prefix_def rpc_header_defs)

lemma rpc_headers_distinct [simp]:
  "protocol_version_header \<noteq> request_id_header" "request_id_header \<noteq> protocol_version_header"
  "protocol_version_header \<noteq> reply_status_header" "reply_status_header \<noteq> protocol_version_header"
  "protocol_version_header \<noteq> deadline_header" "deadline_header \<noteq> protocol_version_header"
  "request_id_header \<noteq> reply_status_header" "reply_status_header \<noteq> request_id_header"
  "request_id_header \<noteq> deadline_header" "deadline_header \<noteq> request_id_header"
  "reply_status_header \<noteq> deadline_header" "deadline_header \<noteq> reply_status_header"
  by (simp_all add: rpc_header_defs)

lemma header_insert_protocol [simp]:
  "is_reserved_header key \<Longrightarrow> header (insert_protocol_header key val e) k =
     (if k = key then Some val else header e k)"
  by (simp add: header_def insert_protocol_header_def)

lemma insert_protocol_header_sel [simp]:
  "env_message_id (insert_protocol_header k v e) = env_message_id e"
  "env_message_type (insert_protocol_header k v e) = env_message_type e"
  "env_payload (insert_protocol_header k v e) = env_payload e"
  "env_correlation_id (insert_protocol_header k v e) = env_correlation_id e"
  "env_reply_to (insert_protocol_header k v e) = env_reply_to e"
  "env_headers (insert_protocol_header k v e) = env_headers e"
  "env_published_at (insert_protocol_header k v e) = env_published_at e"
  by (simp_all add: insert_protocol_header_def)

lemma validate_application_headers_ok:
  "key_order ks (env_headers e) \<Longrightarrow> validate_application_headers ks e = Inr () \<longleftrightarrow>
   (\<forall>k. is_reserved_header k \<longrightarrow> env_headers e k = None)"
  by (auto simp: validate_application_headers_def list_ex_iff key_order_def dom_def)

lemma reserved_case_insensitive:
  "map ascii_lower k = map ascii_lower k' \<Longrightarrow> is_reserved_header k = is_reserved_header k'"
  unfolding is_reserved_header_def by (metis length_map take_map)

section \<open>Properties\<close>

text \<open>
  The protocol namespace cannot be spoofed. An envelope built with application headers
  is refused if any of them spells a reserved name in any letter case, and in one that is
  accepted every reserved name reads as absent: no application header is ever taken for a
  protocol header.
\<close>

theorem application_headers_cannot_spoof:
  assumes "key_order ks hs" and "is_reserved_header name"
  shows "case envelope_with_headers fresh_id now msg_type (Inr bytes) corr ks hs of
      Inl err \<Rightarrow> err = ReservedHeaderNamespace \<and> (\<exists>k v. hs k = Some v \<and> is_reserved_header k)
    | Inr e \<Rightarrow>
        header e name = None
        \<and> (\<forall>k v. hs k = Some v \<longrightarrow> map ascii_lower k \<noteq> map ascii_lower name \<and> header e k = Some v)"
proof -
  let ?e = "\<lparr>env_message_id = fresh_id, env_message_type = msg_type, env_payload = bytes,
            env_correlation_id = corr, env_reply_to = None, env_headers = hs,
            env_protocol_headers = Map.empty, env_published_at = now\<rparr>"
  have res: "envelope_with_headers fresh_id now msg_type (Inr bytes) corr ks hs =
      rbind (validate_application_headers ks ?e) (\<lambda>_. Inr ?e)"
    by (simp add: envelope_with_headers_def envelope_new_def Let_def)
  show ?thesis
  proof (cases "validate_application_headers ks ?e = Inr ()")
    case True
    then have none: "\<forall>k. is_reserved_header k \<longrightarrow> hs k = None"
      using assms(1) by (simp add: validate_application_headers_ok)
    then have "\<not> is_reserved_header k" if "hs k = Some v" for k v
      using that by auto
    moreover have "map ascii_lower k \<noteq> map ascii_lower name" if "hs k = Some v" for k v
      using none that assms(2) reserved_case_insensitive [of k name] by auto
    ultimately show ?thesis
      using True assms(2) by (auto simp: res header_def)
  next
    case False
    then have "\<exists>k v. hs k = Some v \<and> is_reserved_header k"
      using assms(1) by (auto simp: validate_application_headers_ok)
    moreover have "validate_application_headers ks ?e = Inl ReservedHeaderNamespace"
      using False by (simp add: validate_application_headers_def split: if_splits)
    ultimately show ?thesis by (simp add: res)
  qed
qed

theorem application_headers_cannot_spoof_witness:
  "envelope_with_headers 1 0 ''orders.placed'' (Inr []) 2 [''X-HEXERACT-request-id'']
     [''X-HEXERACT-request-id'' \<mapsto> ''forged''] = Inl ReservedHeaderNamespace"
proof -
  let ?hs = "[''X-HEXERACT-request-id'' \<mapsto> ''forged'']"
  have "is_reserved_header ''X-HEXERACT-request-id''"
    by code_simp
  then show ?thesis
    using application_headers_cannot_spoof [of "[''X-HEXERACT-request-id'']" ?hs
        "''X-HEXERACT-request-id''" 1 0 "''orders.placed''" "[]" 2]
    by (auto simp: key_order_def split: sum.splits)
qed

end
