(* ===== verification/Env_Security.thy ===== *)
theory Env_Security
  imports Bus_Core
begin

text \<open>
  Envelope security (\<open>crates/hexeract-bus/src/envelope_security/\<close>): identities, the
  verification policy, key sources, the canonical byte representation, signing and
  verification.

  Ed25519, SHA-256 and base64 are third-party code. They are the record \<open>crypto\<close>, and what
  the code relies on of them is \<open>crypto_ok\<close>. The trait \<open>VerificationKeySource\<close> is the
  record \<open>key_source\<close> of its operations; its documented contract is the locale
  \<open>key_source_laws\<close>, interpreted for \<open>StaticKeySource\<close>. The monotonic clock is an argument.
\<close>

section \<open>Protocol constants\<close>

definition signature_header :: string where
  "signature_header = ''x-hexeract-signature''"

definition key_id_header :: string where
  "key_id_header = ''x-hexeract-key-id''"

definition issuer_header :: string where
  "issuer_header = ''x-hexeract-issuer''"

definition audience_header :: string where
  "audience_header = ''x-hexeract-audience''"

definition algorithm_header :: string where
  "algorithm_header = ''x-hexeract-algorithm''"

definition destination_header :: string where
  "destination_header = ''x-hexeract-destination''"

definition canonical_domain :: string where
  "canonical_domain = ''hexeract-envelope-v1''"

lemmas security_header_defs =
  signature_header_def key_id_header_def issuer_header_def audience_header_def
  algorithm_header_def destination_header_def

section \<open>Identities\<close>

definition max_identity_bytes :: nat where
  "max_identity_bytes = 128"

definition is_ascii_graphic :: "char \<Rightarrow> bool" where
  "is_ascii_graphic c = (let n = of_char c :: nat in 33 \<le> n \<and> n \<le> 126)"

definition validate_identity :: "string \<Rightarrow> identity_kind \<Rightarrow> (envelope_security_error, unit) result" where
  "validate_identity val kind =
     (if val \<noteq> [] \<and> length val \<le> max_identity_bytes \<and> list_all is_ascii_graphic val
      then Inr () else Inl (InvalidIdentity kind))"

definition identity_new :: "identity_kind \<Rightarrow> string \<Rightarrow> (envelope_security_error, string) result" where
  "identity_new kind val = rbind (validate_identity val kind) (\<lambda>_. Inr val)"

datatype signature_algorithm = Ed25519

fun as_wire_str :: "signature_algorithm \<Rightarrow> string" where
  "as_wire_str Ed25519 = ''ed25519''"

definition from_wire_str :: "string \<Rightarrow> (envelope_security_error, signature_algorithm) result" where
  "from_wire_str token = (if token = ''ed25519'' then Inr Ed25519 else Inl UnsupportedAlgorithm)"

record verified_principal =
  vp_issuer :: string
  vp_audience :: string
  vp_key_id :: string
  vp_algorithm :: signature_algorithm

section \<open>Policy\<close>

definition default_key_refresh_interval :: duration where
  "default_key_refresh_interval = from_secs 30"

datatype verification_policy = Required | AllowInsecureUnauthenticatedEnvelopes

fun allows_unauthenticated_envelopes :: "verification_policy \<Rightarrow> bool" where
  "allows_unauthenticated_envelopes Required = False"
| "allows_unauthenticated_envelopes AllowInsecureUnauthenticatedEnvelopes = True"

record security_config =
  policy :: verification_policy
  accepted_audiences :: "string list"
  key_refresh_interval :: duration

definition security_config_default :: security_config where
  "security_config_default =
     \<lparr>policy = Required, accepted_audiences = [], key_refresh_interval = default_key_refresh_interval\<rparr>"

datatype security_setter =
    WithPolicy verification_policy
  | WithAcceptedAudience string
  | WithKeyRefreshInterval duration

fun apply_security_setter :: "security_setter \<Rightarrow> security_config \<Rightarrow> security_config" where
  "apply_security_setter (WithPolicy p) c = c\<lparr>policy := p\<rparr>"
| "apply_security_setter (WithAcceptedAudience a) c =
     c\<lparr>accepted_audiences := accepted_audiences c @ [a]\<rparr>"
| "apply_security_setter (WithKeyRefreshInterval d) c = c\<lparr>key_refresh_interval := d\<rparr>"

definition security_config_build ::
  "security_config \<Rightarrow> (envelope_security_error, security_config) result"
where
  "security_config_build c =
     (if policy c = Required \<and> accepted_audiences c = []
      then Inl (MissingRequiredField ''accepted_audiences'')
      else if key_refresh_interval c = 0
      then Inl (InvalidSecurityConfiguration ''key_refresh_interval'')
      else Inr c)"

section \<open>Key sources\<close>

record ('s, 'vk) key_source =
  ks_verification_key :: "string \<Rightarrow> string \<Rightarrow> 's \<Rightarrow> (key_source_error, 'vk) result"
  ks_refresh :: "'s \<Rightarrow> 's"

datatype 'vk key_state = Active 'vk | Revoked

record ('vk, 'sk) static_key_source =
  verification_keys :: "string \<times> string \<rightharpoonup> 'vk key_state"
  signing_key :: "(string \<times> 'sk) option"

definition static_key_source_default :: "('vk, 'sk) static_key_source" where
  "static_key_source_default = \<lparr>verification_keys = Map.empty, signing_key = None\<rparr>"

definition with_verification_key ::
  "string \<Rightarrow> string \<Rightarrow> 'vk \<Rightarrow> ('vk, 'sk) static_key_source \<Rightarrow> ('vk, 'sk) static_key_source"
where
  "with_verification_key issuer kid key s =
     s\<lparr>verification_keys := (verification_keys s)((issuer, kid) \<mapsto> Active key)\<rparr>"

definition with_revoked_key ::
  "string \<Rightarrow> string \<Rightarrow> ('vk, 'sk) static_key_source \<Rightarrow> ('vk, 'sk) static_key_source"
where
  "with_revoked_key issuer kid s =
     s\<lparr>verification_keys := (verification_keys s)((issuer, kid) \<mapsto> Revoked)\<rparr>"

definition with_signing_key ::
  "string \<Rightarrow> 'sk \<Rightarrow> ('vk, 'sk) static_key_source \<Rightarrow> ('vk, 'sk) static_key_source"
where
  "with_signing_key kid key s = s\<lparr>signing_key := Some (kid, key)\<rparr>"

definition static_verification_key ::
  "string \<Rightarrow> string \<Rightarrow> ('vk, 'sk) static_key_source \<Rightarrow> (key_source_error, 'vk) result"
where
  "static_verification_key issuer kid s =
     (case verification_keys s (issuer, kid) of
        Some (Active key) \<Rightarrow> Inr key
      | Some Revoked \<Rightarrow> Inl KeyRevoked
      | None \<Rightarrow> Inl KeyUnknown)"

definition static_refresh :: "('vk, 'sk) static_key_source \<Rightarrow> ('vk, 'sk) static_key_source" where
  "static_refresh s = s"

definition current_signing_key ::
  "('vk, 'sk) static_key_source \<Rightarrow> (key_source_error, string \<times> 'sk) result"
where
  "current_signing_key s = ok_or (signing_key s) MissingSigningKey"

definition static_keys :: "(('vk, 'sk) static_key_source, 'vk) key_source" where
  "static_keys = \<lparr>ks_verification_key = static_verification_key, ks_refresh = static_refresh\<rparr>"

section \<open>Canonical representation\<close>

record canonical_binding =
  cb_destination :: string
  cb_issuer :: string
  cb_audience :: string
  cb_key_id :: string
  cb_algorithm :: signature_algorithm

definition push_field :: "byte list \<Rightarrow> byte list \<Rightarrow> (envelope_security_error, byte list) result" where
  "push_field bytes field =
     (if length field < 2 ^ 32 then Inr (bytes @ be_bytes 4 (length field) @ field)
      else Inl FieldTooLarge)"

fun push_optional_field ::
  "byte list \<Rightarrow> byte list option \<Rightarrow> (envelope_security_error, byte list) result"
where
  "push_optional_field bytes (Some field) = push_field (bytes @ [1]) field"
| "push_optional_field bytes None = Inr (bytes @ [0])"

definition security_headers :: "string list" where
  "security_headers =
     [signature_header, key_id_header, issuer_header, audience_header, algorithm_header,
      destination_header]"

definition is_security_header :: "string \<Rightarrow> bool" where
  "is_security_header key \<longleftrightarrow> key \<in> set security_headers"

text \<open>Byte-wise lexicographic order, on the key and then on the value.\<close>

fun bytes_less :: "string \<Rightarrow> string \<Rightarrow> bool" where
  "bytes_less _ [] = False"
| "bytes_less [] (y # ys) = True"
| "bytes_less (x # xs) (y # ys) =
     ((of_char x :: nat) < of_char y \<or> (x = y \<and> bytes_less xs ys))"

definition pair_le :: "string \<times> string \<Rightarrow> string \<times> string \<Rightarrow> bool" where
  "pair_le l r \<longleftrightarrow>
     bytes_less (fst l) (fst r) \<or> (fst l = fst r \<and> \<not> bytes_less (snd r) (snd l))"

fun push_pairs ::
  "byte list \<Rightarrow> (string \<times> string) list \<Rightarrow> (envelope_security_error, byte list) result"
where
  "push_pairs bytes [] = Inr bytes"
| "push_pairs bytes ((k, v) # pairs) =
     rbind (push_field bytes (str_bytes k)) (\<lambda>b\<^sub>1.
     rbind (push_field b\<^sub>1 (str_bytes v)) (\<lambda>b\<^sub>2. push_pairs b\<^sub>2 pairs))"

definition covered_pairs :: "string list \<Rightarrow> string list \<Rightarrow> bus_envelope \<Rightarrow> (string \<times> string) list" where
  "covered_pairs hks pks e =
     sort_by pair_le (filter (\<lambda>(k, _). \<not> is_security_header k) (wire_headers hks pks e))"

definition push_headers ::
  "byte list \<Rightarrow> string list \<Rightarrow> string list \<Rightarrow> bus_envelope \<Rightarrow>
   (envelope_security_error, byte list) result"
where
  "push_headers bytes hks pks e =
     (let pairs = covered_pairs hks pks e in
      if length pairs < 2 ^ 32 then push_pairs (bytes @ be_bytes 4 (length pairs)) pairs
      else Inl FieldTooLarge)"

definition canonical_representation ::
  "(byte list \<Rightarrow> byte list) \<Rightarrow> string list \<Rightarrow> string list \<Rightarrow> bus_envelope \<Rightarrow> canonical_binding \<Rightarrow>
   (envelope_security_error, byte list) result"
where
  "canonical_representation sha256 hks pks e b =
     (case duration_since (env_published_at e) unix_epoch of
        Inl _ \<Rightarrow> Inl (MissingRequiredField ''published_at'')
      | Inr since \<Rightarrow>
          rbind (push_field [] (str_bytes canonical_domain)) (\<lambda>x.
          rbind (push_field x (uuid_bytes (env_message_id e))) (\<lambda>x.
          rbind (push_field x (str_bytes (env_message_type e))) (\<lambda>x.
          rbind (push_field x (uuid_bytes (env_correlation_id e))) (\<lambda>x.
          rbind (push_optional_field x (map_option str_bytes (env_reply_to e))) (\<lambda>x.
          rbind (push_field x (be_bytes 8 (as_secs since))) (\<lambda>x.
          rbind (push_field x (str_bytes (cb_destination b))) (\<lambda>x.
          rbind (push_field x (str_bytes (cb_issuer b))) (\<lambda>x.
          rbind (push_field x (str_bytes (cb_audience b))) (\<lambda>x.
          rbind (push_field x (str_bytes (cb_key_id b))) (\<lambda>x.
          rbind (push_field x (str_bytes (as_wire_str (cb_algorithm b)))) (\<lambda>x.
          rbind (push_headers x hks pks e) (\<lambda>x.
          push_field x (sha256 (env_payload e)))))))))))))))"

section \<open>Signing\<close>

record ('sk, 'vk) crypto =
  cr_sha256 :: "byte list \<Rightarrow> byte list"
  cr_sign :: "'sk \<Rightarrow> byte list \<Rightarrow> byte list"
  cr_verify :: "'vk \<Rightarrow> byte list \<Rightarrow> byte list \<Rightarrow> bool"
  cr_public :: "'sk \<Rightarrow> 'vk"
  cr_signature_wf :: "byte list \<Rightarrow> bool"
  cr_base64_encode :: "byte list \<Rightarrow> string"
  cr_base64_decode :: "string \<Rightarrow> byte list option"

definition crypto_codec_ok :: "('sk, 'vk) crypto \<Rightarrow> bool" where
  "crypto_codec_ok cr \<longleftrightarrow>
     (\<forall>b. cr_base64_decode cr (cr_base64_encode cr b) = Some b)
     \<and> (\<forall>sk m. cr_signature_wf cr (cr_sign cr sk m))"

definition crypto_ok :: "('sk, 'vk) crypto \<Rightarrow> bool" where
  "crypto_ok cr \<longleftrightarrow>
     crypto_codec_ok cr \<and> (\<forall>sk m. cr_verify cr (cr_public cr sk) m (cr_sign cr sk m))"

definition sign ::
  "('sk, 'vk) crypto \<Rightarrow> string \<Rightarrow> (key_source_error, string \<times> 'sk) result \<Rightarrow> string list \<Rightarrow>
   string list \<Rightarrow> bus_envelope \<Rightarrow> string \<Rightarrow> string \<Rightarrow>
   (envelope_security_error, (string \<times> string) list) result"
where
  "sign cr issuer current hks pks e dest audience =
     rbind (map_err KeySource current) (\<lambda>(kid, sk).
       let b = \<lparr>cb_destination = dest, cb_issuer = issuer, cb_audience = audience,
                cb_key_id = kid, cb_algorithm = Ed25519\<rparr> in
       rbind (canonical_representation (cr_sha256 cr) hks pks e b) (\<lambda>representation.
         Inr [(signature_header, cr_base64_encode cr (cr_sign cr sk representation)),
              (key_id_header, kid),
              (issuer_header, issuer),
              (audience_header, audience),
              (algorithm_header, as_wire_str Ed25519),
              (destination_header, dest)]))"

section \<open>Verification\<close>

definition required_header :: "bus_envelope \<Rightarrow> string \<Rightarrow> (envelope_security_error, string) result" where
  "required_header e h = ok_or (header e h) (MalformedSecurityHeader h)"

record 's verifier_state =
  vs_keys :: 's
  vs_last_refresh :: "nat option"

definition refresh_if_due ::
  "('s, 'vk) key_source \<Rightarrow> security_config \<Rightarrow> nat \<Rightarrow> 's verifier_state \<Rightarrow> 's verifier_state"
where
  "refresh_if_due ks cfg inst st =
     (let due = (case vs_last_refresh st of
                   None \<Rightarrow> True
                 | Some previous \<Rightarrow> key_refresh_interval cfg \<le> inst - previous)
      in if due then \<lparr>vs_keys = ks_refresh ks (vs_keys st), vs_last_refresh = Some inst\<rparr> else st)"

definition resolve_key ::
  "('s, 'vk) key_source \<Rightarrow> security_config \<Rightarrow> nat \<Rightarrow> string \<Rightarrow> string \<Rightarrow> 's verifier_state \<Rightarrow>
   (envelope_security_error, 'vk) result \<times> 's verifier_state"
where
  "resolve_key ks cfg inst issuer kid st =
     (case ks_verification_key ks issuer kid (vs_keys st) of
        Inr key \<Rightarrow> (Inr key, st)
      | Inl KeyRevoked \<Rightarrow> (Inl RevokedKey, st)
      | Inl KeyUnknown \<Rightarrow> (Inl UnknownKey, refresh_if_due ks cfg inst st)
      | Inl e \<Rightarrow> (Inl (KeySource e), st))"

text \<open>The checks of \<open>verify\<close> that precede the key lookup; they read the envelope only.\<close>

definition announced ::
  "('sk, 'vk) crypto \<Rightarrow> security_config \<Rightarrow> bus_envelope \<Rightarrow> string \<Rightarrow> string \<Rightarrow>
   (envelope_security_error, canonical_binding \<times> byte list) result"
where
  "announced cr cfg e dest raw_signature =
     rbind (required_header e destination_header) (\<lambda>d.
     if d \<noteq> dest then Inl DestinationMismatch else
     rbind (rbind (required_header e issuer_header) (identity_new IssuerKind)) (\<lambda>issuer.
     rbind (rbind (required_header e audience_header) (identity_new AudienceKind)) (\<lambda>audience.
     rbind (rbind (required_header e key_id_header) (identity_new KeyIdKind)) (\<lambda>kid.
     rbind (rbind (required_header e algorithm_header) from_wire_str) (\<lambda>alg.
     if audience \<notin> set (accepted_audiences cfg) then Inl AudienceMismatch else
     rbind (ok_or (cr_base64_decode cr raw_signature) (MalformedSecurityHeader signature_header)) (\<lambda>sig.
     if \<not> cr_signature_wf cr sig then Inl (MalformedSecurityHeader signature_header) else
     Inr (\<lparr>cb_destination = dest, cb_issuer = issuer, cb_audience = audience, cb_key_id = kid,
           cb_algorithm = alg\<rparr>, sig)))))))"

definition verify ::
  "('sk, 'vk) crypto \<Rightarrow> ('s, 'vk) key_source \<Rightarrow> security_config \<Rightarrow> nat \<Rightarrow> string list \<Rightarrow>
   string list \<Rightarrow> bus_envelope \<Rightarrow> string \<Rightarrow> 's verifier_state \<Rightarrow>
   (envelope_security_error, verified_principal option) result \<times> 's verifier_state"
where
  "verify cr ks cfg inst hks pks e dest st =
     (case header e signature_header of
        None \<Rightarrow>
          (case policy cfg of
             Required \<Rightarrow> (Inl MissingSignature, st)
           | AllowInsecureUnauthenticatedEnvelopes \<Rightarrow> (Inr None, st))
      | Some raw_signature \<Rightarrow>
          (case announced cr cfg e dest raw_signature of
             Inl err \<Rightarrow> (Inl err, st)
           | Inr (b, sig) \<Rightarrow>
               (case resolve_key ks cfg inst (cb_issuer b) (cb_key_id b) st of
                  (Inl err, st') \<Rightarrow> (Inl err, st')
                | (Inr key, st') \<Rightarrow>
                    (rbind (canonical_representation (cr_sha256 cr) hks pks e b) (\<lambda>representation.
                       if cr_verify cr key representation sig
                       then Inr (Some \<lparr>vp_issuer = cb_issuer b, vp_audience = cb_audience b,
                                       vp_key_id = cb_key_id b, vp_algorithm = cb_algorithm b\<rparr>)
                       else Inl SignatureMismatch), st'))))"

section \<open>Lemmas: the canonical order of headers\<close>

lemma of_char_eq_nat: "(of_char x :: nat) = of_char y \<longleftrightarrow> x = y"
  by simp

lemma bytes_less_total: "bytes_less a b \<or> a = b \<or> bytes_less b a"
proof (induction a b rule: bytes_less.induct)
  case (3 x xs y ys)
  then show ?case
    by (cases "(of_char x :: nat) < of_char y"; cases "(of_char y :: nat) < of_char x")
      (auto simp: not_less dest: order_antisym)
qed (auto elim: bytes_less.elims(3) simp: neq_Nil_conv)

lemma bytes_less_asym: "bytes_less a b \<Longrightarrow> \<not> bytes_less b a"
  by (induction a b rule: bytes_less.induct) auto

lemma bytes_less_trans: "bytes_less a b \<Longrightarrow> bytes_less b c \<Longrightarrow> bytes_less a c"
proof (induction a b arbitrary: c rule: bytes_less.induct)
  case (2 y ys)
  then show ?case by (cases c) auto
next
  case (3 x xs y ys)
  then show ?case by (cases c) auto
qed simp

lemma bytes_not_less_trans: "\<not> bytes_less b a \<Longrightarrow> \<not> bytes_less c b \<Longrightarrow> \<not> bytes_less c a"
  using bytes_less_total [of a b] bytes_less_trans [of c a b] by blast

lemma pair_le_trans: "pair_le x y \<Longrightarrow> pair_le y z \<Longrightarrow> pair_le x z"
  unfolding pair_le_def
  using bytes_less_trans [of "fst x" "fst y" "fst z"]
    bytes_not_less_trans [of "snd y" "snd x" "snd z"] by auto

lemma pair_le_total: "total_preorder pair_le"
proof -
  have "pair_le x y \<or> pair_le y x" for x y
    using bytes_less_total [of "fst x" "fst y"] bytes_less_asym [of "snd x" "snd y"]
    by (auto simp: pair_le_def)
  then show ?thesis
    unfolding total_preorder_def using pair_le_trans by blast
qed

lemma pair_le_antisym: "pair_le a b \<Longrightarrow> pair_le b a \<Longrightarrow> a = b"
  using bytes_less_asym [of "fst a" "fst b"] bytes_less_asym [of "fst a" "fst a"]
    bytes_less_total [of "snd a" "snd b"]
  by (auto simp: pair_le_def prod_eq_iff)

lemma header_pairs_mset:
  assumes "key_order ks hs" and "key_order ks' hs"
  shows "mset (header_pairs ks hs) = mset (header_pairs ks' hs)"
proof -
  have "mset ks = mset ks'"
    using assms by (metis key_order_def set_eq_iff_mset_eq_distinct)
  then show ?thesis
    unfolding header_pairs_def by (simp add: mset_filter)
qed

lemma covered_pairs_unique:
  assumes "mset (filter (\<lambda>(k, _). \<not> is_security_header k) (wire_headers hks pks e))
    = mset (filter (\<lambda>(k, _). \<not> is_security_header k) (wire_headers hks' pks' e'))"
  shows "covered_pairs hks pks e = covered_pairs hks' pks' e'"
  unfolding covered_pairs_def
  by (rule sorted_wrt_mset_unique [where le = pair_le])
    (simp_all only: sorted_sort_by [OF pair_le_total] mset_sort_by assms pair_le_antisym)

section \<open>Lemmas: framing\<close>

definition enc :: "byte list \<Rightarrow> byte list" where
  "enc f = be_bytes 4 (length f) @ f"

fun enc_opt :: "byte list option \<Rightarrow> byte list" where
  "enc_opt None = [0]"
| "enc_opt (Some f) = 1 # enc f"

fun enc_pairs :: "(string \<times> string) list \<Rightarrow> byte list" where
  "enc_pairs [] = []"
| "enc_pairs ((k, v) # ps) = enc (str_bytes k) @ enc (str_bytes v) @ enc_pairs ps"

definition short :: "byte list \<Rightarrow> bool" where
  "short f \<longleftrightarrow> length f < 2 ^ 32"

lemma push_field_Inr: "push_field x f = Inr y \<longleftrightarrow> short f \<and> y = x @ enc f"
  by (auto simp: push_field_def enc_def short_def)

lemma push_optional_field_Inr:
  "push_optional_field x f = Inr y \<longleftrightarrow> (\<forall>g. f = Some g \<longrightarrow> short g) \<and> y = x @ enc_opt f"
  by (cases f) (auto simp: push_field_Inr)

lemma push_pairs_Inr:
  "push_pairs x ps = Inr y \<longleftrightarrow>
   (\<forall>(k, v) \<in> set ps. short (str_bytes k) \<and> short (str_bytes v)) \<and> y = x @ enc_pairs ps"
  by (induction x ps rule: push_pairs.induct) (auto simp: push_field_Inr result_simps)

lemma enc_inj:
  assumes "short f" and "short g"
  shows "enc f @ r = enc g @ s \<longleftrightarrow> f = g \<and> r = s"
proof
  assume "enc f @ r = enc g @ s"
  then have "be_bytes 4 (length f) @ (f @ r) = be_bytes 4 (length g) @ (g @ s)"
    by (simp only: enc_def append_assoc)
  moreover have "(2::nat) ^ 32 = 256 ^ 4" by simp
  ultimately have "length f = length g \<and> f @ r = g @ s"
    using assms unfolding short_def by (metis be_bytes_append_inj)
  then show "f = g \<and> r = s" by (metis append_eq_append_conv)
qed simp

lemma enc_opt_inj:
  "(\<forall>h. f = Some h \<longrightarrow> short h) \<Longrightarrow> (\<forall>h. g = Some h \<longrightarrow> short h) \<Longrightarrow>
   enc_opt f @ r = enc_opt g @ s \<longleftrightarrow> f = g \<and> r = s"
  by (cases f; cases g) (auto simp: enc_inj)

lemma enc_pairs_inj:
  assumes "length ps = length qs"
    and "\<forall>(k, v) \<in> set ps. short (str_bytes k) \<and> short (str_bytes v)"
    and "\<forall>(k, v) \<in> set qs. short (str_bytes k) \<and> short (str_bytes v)"
  shows "enc_pairs ps @ r = enc_pairs qs @ s \<longleftrightarrow> ps = qs \<and> r = s"
  using assms
proof (induction ps qs rule: list_induct2)
  case (Cons p ps q qs)
  then show ?case by (cases p; cases q) (auto simp: enc_inj)
qed simp

section \<open>Lemmas: the canonical representation\<close>

definition covered_fields :: "bus_envelope \<Rightarrow> canonical_binding \<Rightarrow> byte list list" where
  "covered_fields e b =
     [be_bytes 8 (as_secs (nat (env_published_at e))), str_bytes (cb_destination b),
      str_bytes (cb_issuer b), str_bytes (cb_audience b), str_bytes (cb_key_id b),
      str_bytes (as_wire_str (cb_algorithm b))]"

lemma canonical_Inr:
  assumes "canonical_representation sha hks pks e b = Inr y"
  shows "0 \<le> env_published_at e
    \<and> short (str_bytes (env_message_type e)) \<and> (\<forall>r. env_reply_to e = Some r \<longrightarrow> short (str_bytes r))
    \<and> list_all short (covered_fields e b)
    \<and> length (covered_pairs hks pks e) < 2 ^ 32
    \<and> (\<forall>(k, v) \<in> set (covered_pairs hks pks e). short (str_bytes k) \<and> short (str_bytes v))
    \<and> short (sha (env_payload e))
    \<and> y = enc (str_bytes canonical_domain) @ enc (uuid_bytes (env_message_id e))
        @ enc (str_bytes (env_message_type e)) @ enc (uuid_bytes (env_correlation_id e))
        @ enc_opt (map_option str_bytes (env_reply_to e))
        @ concat (map enc (covered_fields e b))
        @ be_bytes 4 (length (covered_pairs hks pks e)) @ enc_pairs (covered_pairs hks pks e)
        @ enc (sha (env_payload e))"
proof -
  obtain since where since: "duration_since (env_published_at e) unix_epoch = Inr since"
    using assms by (auto simp: canonical_representation_def split: sum.splits)
  then have "0 \<le> env_published_at e" "since = nat (env_published_at e)"
    by (simp_all add: time_simps unix_epoch_def)
  then show ?thesis
    using assms since
    by (simp add: canonical_representation_def push_field_Inr push_optional_field_Inr push_headers_def
        push_pairs_Inr result_simps Let_def covered_fields_def split: if_splits)
qed

lemma short_small [simp]:
  "short (str_bytes canonical_domain)" "short (uuid_bytes u)" "short (be_bytes 8 n)"
  "short (str_bytes (as_wire_str a))"
  by (cases a; simp add: short_def canonical_domain_def)+

text \<open>What a signature covers of an envelope and its binding.\<close>

definition covered_content ::
  "(byte list \<Rightarrow> byte list) \<Rightarrow> string list \<Rightarrow> string list \<Rightarrow> bus_envelope \<Rightarrow> canonical_binding \<Rightarrow>
   uuid \<times> string \<times> uuid \<times> string option \<times> nat \<times> canonical_binding \<times> (string \<times> string) list \<times> byte list"
where
  "covered_content sha hks pks e b =
     (env_message_id e, env_message_type e, env_correlation_id e, env_reply_to e,
      as_secs (nat (env_published_at e)), b, covered_pairs hks pks e, sha (env_payload e))"

lemma as_secs_bound: "t \<le> systime_max \<Longrightarrow> as_secs (nat t) < 256 ^ 8"
proof -
  assume "t \<le> systime_max"
  then have "nat t < 2 ^ 63 * nanos_per_sec"
    by (simp add: systime_max_def nanos_per_sec_def)
  then have "nat t div nanos_per_sec < 2 ^ 63"
    by (simp add: less_mult_imp_div_less)
  then show ?thesis by (simp add: as_secs_def)
qed

lemma covered_fields_inj:
  assumes "list_all short (covered_fields e b)" "list_all short (covered_fields e' b')"
    and "env_published_at e \<le> systime_max" "env_published_at e' \<le> systime_max"
    and "concat (map enc (covered_fields e b)) @ r = concat (map enc (covered_fields e' b')) @ s"
  shows "as_secs (nat (env_published_at e)) = as_secs (nat (env_published_at e')) \<and> b = b' \<and> r = s"
proof -
  have "be_bytes 8 (as_secs (nat (env_published_at e))) = be_bytes 8 (as_secs (nat (env_published_at e')))
      \<and> cb_destination b = cb_destination b' \<and> cb_issuer b = cb_issuer b'
      \<and> cb_audience b = cb_audience b' \<and> cb_key_id b = cb_key_id b' \<and> r = s"
    using assms(1,2,5) by (simp add: covered_fields_def enc_inj)
  moreover have "cb_algorithm b = cb_algorithm b'"
    by (cases "cb_algorithm b"; cases "cb_algorithm b'") simp
  ultimately show ?thesis
    using be_bytes_inj [of 8] as_secs_bound [OF assms(3)] as_secs_bound [OF assms(4)]
    by (metis (mono_tags, lifting) canonical_binding.equality old.unit.exhaust)
qed

lemma canonical_inj:
  assumes can: "canonical_representation sha hks pks e b = Inr y"
    and can': "canonical_representation sha hks' pks' e' b' = Inr y"
    and time: "env_published_at e \<le> systime_max" "env_published_at e' \<le> systime_max"
  shows "covered_content sha hks pks e b = covered_content sha hks' pks' e' b'"
proof -
  note c = canonical_Inr [OF can] and c' = canonical_Inr [OF can']
  let ?rest = "\<lambda>hks pks e. be_bytes 4 (length (covered_pairs hks pks e))
      @ enc_pairs (covered_pairs hks pks e) @ enc (sha (env_payload e))"
  have opt: "\<forall>h. map_option str_bytes (env_reply_to e) = Some h \<longrightarrow> short h"
    "\<forall>h. map_option str_bytes (env_reply_to e') = Some h \<longrightarrow> short h"
    using c c' by auto
  have sh: "short (str_bytes (env_message_type e))" "short (str_bytes (env_message_type e'))"
    using c c' by blast+
  have "enc (str_bytes canonical_domain) @ enc (uuid_bytes (env_message_id e))
        @ enc (str_bytes (env_message_type e)) @ enc (uuid_bytes (env_correlation_id e))
        @ enc_opt (map_option str_bytes (env_reply_to e))
        @ concat (map enc (covered_fields e b)) @ ?rest hks pks e
      = enc (str_bytes canonical_domain) @ enc (uuid_bytes (env_message_id e'))
        @ enc (str_bytes (env_message_type e')) @ enc (uuid_bytes (env_correlation_id e'))
        @ enc_opt (map_option str_bytes (env_reply_to e'))
        @ concat (map enc (covered_fields e' b')) @ ?rest hks' pks' e'"
    using c c' by argo
  then have head: "env_message_id e = env_message_id e' \<and> env_message_type e = env_message_type e'
      \<and> env_correlation_id e = env_correlation_id e'
      \<and> map_option str_bytes (env_reply_to e) = map_option str_bytes (env_reply_to e')
      \<and> concat (map enc (covered_fields e b)) @ ?rest hks pks e
        = concat (map enc (covered_fields e' b')) @ ?rest hks' pks' e'"
    by (simp add: enc_inj sh enc_opt_inj [OF opt])
  then have mid: "as_secs (nat (env_published_at e)) = as_secs (nat (env_published_at e'))"
    "b = b'" "?rest hks pks e = ?rest hks' pks' e'"
    using covered_fields_inj [of e b e' b'] c c' time by blast+
  have "(2::nat) ^ 32 = 256 ^ 4" by simp
  then have len: "length (covered_pairs hks pks e) = length (covered_pairs hks' pks' e')"
    "enc_pairs (covered_pairs hks pks e) @ enc (sha (env_payload e)) @ []
     = enc_pairs (covered_pairs hks' pks' e') @ enc (sha (env_payload e')) @ []"
    using be_bytes_append_inj [OF mid(3)] c c' by simp_all
  then have "covered_pairs hks pks e = covered_pairs hks' pks' e'"
    "enc (sha (env_payload e)) @ [] = enc (sha (env_payload e')) @ []"
    using enc_pairs_inj [OF len(1)] c c' by blast+
  moreover from this(2) have "sha (env_payload e) = sha (env_payload e')"
    using enc_inj c c' by blast
  moreover have "env_reply_to e = env_reply_to e'"
    using head by (cases "env_reply_to e"; cases "env_reply_to e'") auto
  ultimately show ?thesis
    using head mid by (simp add: covered_content_def)
qed

text \<open>The publication instant enters the representation in whole seconds.\<close>

definition epoch_secs :: "bus_envelope \<Rightarrow> nat option" where
  "epoch_secs e =
     (case duration_since (env_published_at e) unix_epoch of Inl _ \<Rightarrow> None | Inr d \<Rightarrow> Some (as_secs d))"

lemma canonical_cong:
  assumes "env_message_id e = env_message_id e'" "env_message_type e = env_message_type e'"
    "env_correlation_id e = env_correlation_id e'" "env_reply_to e = env_reply_to e'"
    "epoch_secs e = epoch_secs e'" "env_payload e = env_payload e'"
    "covered_pairs hks pks e = covered_pairs hks' pks' e'"
  shows "canonical_representation sha hks pks e b = canonical_representation sha hks' pks' e' b"
proof (cases "duration_since (env_published_at e) unix_epoch")
  case (Inl d)
  then obtain d' where "duration_since (env_published_at e') unix_epoch = Inl d'"
    using assms(5) by (auto simp: epoch_secs_def split: sum.splits)
  then show ?thesis by (simp add: canonical_representation_def Inl)
next
  case (Inr d)
  then obtain d' where "duration_since (env_published_at e') unix_epoch = Inr d'" "as_secs d' = as_secs d"
    using assms(5) by (auto simp: epoch_secs_def split: sum.splits)
  then show ?thesis
    unfolding canonical_representation_def push_headers_def by (simp only: Inr assms sum.case)
qed

section \<open>The contract of key sources\<close>

locale key_source_laws =
  fixes ks :: "('s, 'vk) key_source"
    and active :: "'s \<Rightarrow> string \<Rightarrow> string \<Rightarrow> 'vk option"
    and revoked :: "'s \<Rightarrow> string \<Rightarrow> string \<Rightarrow> bool"
  assumes found: "ks_verification_key ks i k s = Inr key \<Longrightarrow> active s i k = Some key"
    and refused: "revoked s i k \<Longrightarrow> ks_verification_key ks i k s = Inl KeyRevoked"
begin

lemma resolve_key_active:
  "resolve_key ks cfg inst i k st = (Inr key, st') \<Longrightarrow> active (vs_keys st) i k = Some key \<and> st' = st"
  by (auto simp: resolve_key_def found split: sum.splits key_source_error.splits)

lemma verify_authenticated:
  assumes "verify cr ks cfg inst hks pks e dest st = (Inr (Some p), st')"
  obtains raw sig key representation b where
    "header e signature_header = Some raw" "announced cr cfg e dest raw = Inr (b, sig)"
    "active (vs_keys st) (vp_issuer p) (vp_key_id p) = Some key"
    "\<not> revoked (vs_keys st) (vp_issuer p) (vp_key_id p)"
    "canonical_representation (cr_sha256 cr) hks pks e b = Inr representation"
    "cr_verify cr key representation sig"
    "b = \<lparr>cb_destination = dest, cb_issuer = vp_issuer p, cb_audience = vp_audience p,
          cb_key_id = vp_key_id p, cb_algorithm = vp_algorithm p\<rparr>"
proof -
  from assms obtain raw b sig where raw: "header e signature_header = Some raw"
    and ann: "announced cr cfg e dest raw = Inr (b, sig)"
    by (auto simp: verify_def split: option.splits verification_policy.splits sum.splits)
  with assms obtain key st'' where res: "resolve_key ks cfg inst (cb_issuer b) (cb_key_id b) st = (Inr key, st'')"
    by (auto simp: verify_def split: sum.splits prod.splits)
  with assms raw ann obtain rep where can: "canonical_representation (cr_sha256 cr) hks pks e b = Inr rep"
    and ok: "cr_verify cr key rep sig"
    and p: "p = \<lparr>vp_issuer = cb_issuer b, vp_audience = cb_audience b, vp_key_id = cb_key_id b,
                 vp_algorithm = cb_algorithm b\<rparr>"
    by (auto simp: verify_def result_simps split: if_splits)
  have "cb_destination b = dest"
    using ann by (auto simp: announced_def result_simps split: if_splits)
  then have "b = \<lparr>cb_destination = dest, cb_issuer = vp_issuer p, cb_audience = vp_audience p,
      cb_key_id = vp_key_id p, cb_algorithm = vp_algorithm p\<rparr>" using p by simp
  moreover have "\<not> revoked (vs_keys st) (vp_issuer p) (vp_key_id p)"
    using refused res p by (fastforce simp: resolve_key_def)
  ultimately show ?thesis
    using that raw ann resolve_key_active [OF res] can ok p by simp
qed

end

definition static_active :: "('vk, 'sk) static_key_source \<Rightarrow> string \<Rightarrow> string \<Rightarrow> 'vk option" where
  "static_active s i k =
     (case verification_keys s (i, k) of Some (Active key) \<Rightarrow> Some key | _ \<Rightarrow> None)"

definition static_revoked :: "('vk, 'sk) static_key_source \<Rightarrow> string \<Rightarrow> string \<Rightarrow> bool" where
  "static_revoked s i k \<longleftrightarrow> verification_keys s (i, k) = Some Revoked"

interpretation static: key_source_laws static_keys static_active static_revoked
  by unfold_locales
    (auto simp: static_keys_def static_verification_key_def static_active_def static_revoked_def
      split: option.splits key_state.splits)

section \<open>Signing, then verifying\<close>

lemma identity_new_valid: "validate_identity v k = Inr () \<Longrightarrow> identity_new k v = Inr v"
  by (simp add: identity_new_def)

lemma verify_signed:
  assumes cr: "crypto_codec_ok cr"
    and sound: "\<And>representation. canonical_representation (cr_sha256 cr) hks pks e
        \<lparr>cb_destination = dest, cb_issuer = issuer, cb_audience = aud, cb_key_id = kid,
         cb_algorithm = Ed25519\<rparr> = Inr representation \<Longrightarrow>
      cr_verify cr (cr_public cr sk) representation (cr_sign cr sk representation)"
    and sign: "sign cr issuer (Inr (kid, sk)) hks pks e dest aud = Inr hs"
    and same: "env_message_id e' = env_message_id e" "env_message_type e' = env_message_type e"
      "env_correlation_id e' = env_correlation_id e" "env_reply_to e' = env_reply_to e"
      "epoch_secs e' = epoch_secs e" "env_payload e' = env_payload e"
      "covered_pairs hks' pks' e' = covered_pairs hks pks e"
    and hdrs: "\<forall>(k, v) \<in> set hs. header e' k = Some v"
    and ids: "validate_identity issuer IssuerKind = Inr ()" "validate_identity aud AudienceKind = Inr ()"
      "validate_identity kid KeyIdKind = Inr ()"
    and accept: "aud \<in> set (accepted_audiences cfg)"
    and key: "ks_verification_key ks issuer kid (vs_keys st) = Inr (cr_public cr sk)"
  shows "verify cr ks cfg inst hks' pks' e' dest st =
    (Inr (Some \<lparr>vp_issuer = issuer, vp_audience = aud, vp_key_id = kid, vp_algorithm = Ed25519\<rparr>), st)"
proof -
  let ?b = "\<lparr>cb_destination = dest, cb_issuer = issuer, cb_audience = aud, cb_key_id = kid,
             cb_algorithm = Ed25519\<rparr>"
  from sign obtain rep where rep: "canonical_representation (cr_sha256 cr) hks pks e ?b = Inr rep"
    and hs: "hs = [(signature_header, cr_base64_encode cr (cr_sign cr sk rep)), (key_id_header, kid),
      (issuer_header, issuer), (audience_header, aud), (algorithm_header, ''ed25519''),
      (destination_header, dest)]"
    by (auto simp: sign_def result_simps Let_def)
  have rep': "canonical_representation (cr_sha256 cr) hks' pks' e' ?b = Inr rep"
    using rep canonical_cong [of e' e hks' pks' hks pks] same by simp
  have "announced cr cfg e' dest (cr_base64_encode cr (cr_sign cr sk rep)) = Inr (?b, cr_sign cr sk rep)"
    using hdrs accept cr identity_new_valid [OF ids(1)] identity_new_valid [OF ids(2)]
      identity_new_valid [OF ids(3)]
    by (simp add: hs announced_def required_header_def from_wire_str_def crypto_codec_ok_def)
  moreover have "header e' signature_header = Some (cr_base64_encode cr (cr_sign cr sk rep))"
    using hdrs by (simp add: hs)
  ultimately show ?thesis
    using key rep' sound [OF rep] by (simp add: verify_def resolve_key_def)
qed

section \<open>Refreshing the key source\<close>

record verify_call =
  vc_inst :: nat
  vc_hks :: "string list"
  vc_pks :: "string list"
  vc_env :: bus_envelope
  vc_dest :: string

definition verify_step ::
  "('sk, 'vk) crypto \<Rightarrow> ('s, 'vk) key_source \<Rightarrow> security_config \<Rightarrow> verify_call \<Rightarrow>
   's verifier_state \<Rightarrow> 's verifier_state"
where
  "verify_step cr ks cfg c st =
     snd (verify cr ks cfg (vc_inst c) (vc_hks c) (vc_pks c) (vc_env c) (vc_dest c) st)"

text \<open>The instants at which a sequence of verifications reloads the key source.\<close>

fun refresh_times ::
  "('sk, 'vk) crypto \<Rightarrow> ('s, 'vk) key_source \<Rightarrow> security_config \<Rightarrow> verify_call list \<Rightarrow>
   's verifier_state \<Rightarrow> nat list"
where
  "refresh_times cr ks cfg [] st = []"
| "refresh_times cr ks cfg (c # cs) st =
     (let st' = verify_step cr ks cfg c st in
      (if vs_last_refresh st' \<noteq> vs_last_refresh st then [vc_inst c] else [])
      @ refresh_times cr ks cfg cs st')"

lemma verify_step_cases:
  "verify_step cr ks cfg c st = st \<or> verify_step cr ks cfg c st = refresh_if_due ks cfg (vc_inst c) st"
  by (auto simp: verify_step_def verify_def resolve_key_def
      split: option.splits verification_policy.splits sum.splits key_source_error.splits prod.splits)

lemma refresh_times_spaced:
  assumes "0 < key_refresh_interval cfg" and "sorted (map vc_inst cs)"
    and "\<forall>c \<in> set cs. \<forall>t. vs_last_refresh st = Some t \<longrightarrow> t \<le> vc_inst c"
  shows "sorted_wrt (\<lambda>a b. a + key_refresh_interval cfg \<le> b) (refresh_times cr ks cfg cs st)
    \<and> (\<forall>t u. vs_last_refresh st = Some t \<and> u \<in> set (refresh_times cr ks cfg cs st)
         \<longrightarrow> t + key_refresh_interval cfg \<le> u)"
  using assms(2,3)
proof (induction cs arbitrary: st)
  case (Cons c cs)
  define st' where "st' = verify_step cr ks cfg c st"
  consider (keep) "vs_last_refresh st' = vs_last_refresh st"
    | (refresh) "vs_last_refresh st' = Some (vc_inst c)" "vs_last_refresh st' \<noteq> vs_last_refresh st"
        "\<forall>t. vs_last_refresh st = Some t \<longrightarrow> t + key_refresh_interval cfg \<le> vc_inst c"
    using verify_step_cases [of cr ks cfg c st] assms(1) Cons.prems(2)
    by (fastforce simp: st'_def refresh_if_due_def Let_def split: option.splits if_splits)
  then show ?case
  proof cases
    case keep
    with Cons.IH [of st'] Cons.prems show ?thesis by (simp add: st'_def [symmetric] Let_def)
  next
    case refresh
    have "\<forall>d \<in> set cs. \<forall>t. vs_last_refresh st' = Some t \<longrightarrow> t \<le> vc_inst d"
      using refresh(1) Cons.prems(1) by auto
    with Cons have "sorted_wrt (\<lambda>a b. a + key_refresh_interval cfg \<le> b) (refresh_times cr ks cfg cs st')
        \<and> (\<forall>t u. vs_last_refresh st' = Some t \<and> u \<in> set (refresh_times cr ks cfg cs st')
             \<longrightarrow> t + key_refresh_interval cfg \<le> u)" by simp
    with refresh show ?thesis
      by (fastforce simp: st'_def [symmetric] Let_def)
  qed
qed simp

lemma canonical_ok:
  assumes "0 \<le> env_published_at e"
    and "short (str_bytes (env_message_type e))" "\<forall>r. env_reply_to e = Some r \<longrightarrow> short (str_bytes r)"
    and "short (str_bytes (cb_destination b))" "short (str_bytes (cb_issuer b))"
      "short (str_bytes (cb_audience b))" "short (str_bytes (cb_key_id b))"
    and "length (covered_pairs hks pks e) < 2 ^ 32"
    and "\<forall>(k, v) \<in> set (covered_pairs hks pks e). short (str_bytes k) \<and> short (str_bytes v)"
    and "short (sha (env_payload e))"
  shows "\<exists>y. canonical_representation sha hks pks e b = Inr y"
proof -
  have field: "push_field x f = Inr (x @ enc f)" if "short f" for x f
    using that push_field_Inr by blast
  have opt: "push_optional_field x (map_option str_bytes (env_reply_to e))
      = Inr (x @ enc_opt (map_option str_bytes (env_reply_to e)))" for x
    using assms(3) by (auto simp: push_optional_field_Inr)
  have pairs: "push_pairs x (covered_pairs hks pks e) = Inr (x @ enc_pairs (covered_pairs hks pks e))" for x
    using assms(9) push_pairs_Inr by blast
  show ?thesis
    using assms by (simp add: canonical_representation_def duration_since_def unix_epoch_def field opt
        push_headers_def Let_def pairs)
qed

section \<open>Properties\<close>

definition sample_crypto :: "(unit, unit) crypto" where
  "sample_crypto =
     \<lparr>cr_sha256 = take 32, cr_sign = \<lambda>_ m. m, cr_verify = \<lambda>_ m s. s = m, cr_public = \<lambda>_. (),
      cr_signature_wf = \<lambda>_. True, cr_base64_encode = map (char_of \<circ> unat),
      cr_base64_decode = \<lambda>s. Some (str_bytes s)\<rparr>"

definition sample_envelope :: bus_envelope where
  "sample_envelope =
     \<lparr>env_message_id = 7, env_message_type = ''orders.placed'', env_payload = [1, 2],
      env_correlation_id = 8, env_reply_to = None, env_headers = [''tenant'' \<mapsto> ''a''],
      env_protocol_headers = Map.empty, env_published_at = 5\<rparr>"

definition sample_security_config :: security_config where
  "sample_security_config = security_config_default\<lparr>accepted_audiences := [''ledger'']\<rparr>"

definition sample_keys :: "(unit, unit) static_key_source" where
  "sample_keys = with_verification_key ''billing'' ''k1'' () static_key_source_default"

definition sample_binding :: canonical_binding where
  "sample_binding =
     \<lparr>cb_destination = ''q'', cb_issuer = ''billing'', cb_audience = ''ledger'', cb_key_id = ''k1'',
      cb_algorithm = Ed25519\<rparr>"

definition sample_signature :: string where
  "sample_signature =
     (case canonical_representation (take 32) [''tenant''] [] sample_envelope sample_binding of
        Inr m \<Rightarrow> map (char_of \<circ> unat) m | Inl _ \<Rightarrow> [])"

definition sample_security_headers :: header_map where
  "sample_security_headers =
     [signature_header \<mapsto> sample_signature, key_id_header \<mapsto> ''k1'', issuer_header \<mapsto> ''billing'',
      audience_header \<mapsto> ''ledger'', algorithm_header \<mapsto> ''ed25519'', destination_header \<mapsto> ''q'']"

definition sample_delivered :: bus_envelope where
  "sample_delivered = sample_envelope\<lparr>env_protocol_headers := sample_security_headers\<rparr>"

lemma sample_crypto_ok: "crypto_codec_ok sample_crypto"
proof -
  have "(word_of_nat (unat x mod 256) :: byte) = x" for x
    using unsigned_less [of x, where 'a = nat] by simp
  then show ?thesis by (simp add: crypto_codec_ok_def sample_crypto_def str_bytes_def comp_def)
qed

lemma sample_identities:
  "validate_identity ''billing'' IssuerKind = Inr ()" "validate_identity ''ledger'' AudienceKind = Inr ()"
  "validate_identity ''k1'' KeyIdKind = Inr ()"
  by code_simp+

lemma security_headers_reserved: "is_security_header k \<Longrightarrow> is_reserved_header k"
  by (auto simp: is_security_header_def security_headers_def security_header_defs
      is_reserved_header_def reserved_header_prefix_def)

lemma sample_canonical:
  assumes "short (str_bytes (cb_destination b))" "short (str_bytes (cb_issuer b))"
    "short (str_bytes (cb_audience b))" "short (str_bytes (cb_key_id b))"
  shows "\<exists>rep. canonical_representation (cr_sha256 sample_crypto) [''tenant''] [] sample_envelope b = Inr rep"
proof -
  have pairs: "covered_pairs [''tenant''] [] sample_envelope = [(''tenant'', ''a'')]"
    by (simp add: covered_pairs_def wire_headers_def header_pairs_def sample_envelope_def sort_by_def
        is_security_header_def security_headers_def security_header_defs)
  have "short (str_bytes ''tenant'')" "short (str_bytes ''a'')" "short (str_bytes ''orders.placed'')"
    "short (cr_sha256 sample_crypto [1, 2])"
    by (simp_all add: short_def sample_crypto_def)
  with assms show ?thesis
    by (intro canonical_ok) (auto simp: pairs, auto simp: sample_envelope_def)
qed

lemma covered_pairs_security:
  assumes "\<forall>k \<in> set pks. is_security_header k" and "env_headers e = env_headers e'"
  shows "covered_pairs hks pks e = covered_pairs hks [] e'"
proof -
  have "filter (\<lambda>(k, _). \<not> is_security_header k) (header_pairs pks hs) = []" for hs
    using assms(1) by (auto simp: header_pairs_def filter_empty_conv)
  then show ?thesis
    using assms(2) by (simp add: covered_pairs_def wire_headers_def header_pairs_def)
qed

lemma sample_carried: "header sample_delivered signature_header = Some sample_signature"
  by (simp add: header_def sample_delivered_def sample_security_headers_def security_headers_reserved
      is_security_header_def security_headers_def) (simp add: security_header_defs)

lemma sample_signature_bytes:
  "canonical_representation (take 32) [''tenant''] [] sample_envelope sample_binding = Inr (str_bytes sample_signature)"
proof -
  obtain m where m: "canonical_representation (take 32) [''tenant''] [] sample_envelope sample_binding = Inr m"
    using sample_canonical [of sample_binding] by (auto simp: sample_binding_def short_def sample_crypto_def)
  then have "sample_signature = cr_base64_encode sample_crypto m" by (simp add: sample_signature_def sample_crypto_def)
  then have "cr_base64_decode sample_crypto sample_signature = Some m"
    using sample_crypto_ok unfolding crypto_codec_ok_def by metis
  then show ?thesis using m by (simp add: sample_crypto_def)
qed

lemma sample_verified:
  "verify sample_crypto static_keys sample_security_config 0 [''tenant''] security_headers
     sample_delivered ''q'' \<lparr>vs_keys = sample_keys, vs_last_refresh = None\<rparr> =
   (Inr (Some \<lparr>vp_issuer = ''billing'', vp_audience = ''ledger'', vp_key_id = ''k1'',
               vp_algorithm = Ed25519\<rparr>), \<lparr>vs_keys = sample_keys, vs_last_refresh = None\<rparr>)"
proof -
  obtain rep where rep: "canonical_representation (take 32) [''tenant''] [] sample_envelope sample_binding = Inr rep"
    using sample_signature_bytes by blast
  have sign: "sign sample_crypto ''billing'' (Inr (''k1'', ())) [''tenant''] [] sample_envelope ''q'' ''ledger''
      = Inr [(signature_header, sample_signature), (key_id_header, ''k1''), (issuer_header, ''billing''),
          (audience_header, ''ledger''), (algorithm_header, ''ed25519''), (destination_header, ''q'')]"
    using rep
    by (simp add: sign_def sample_crypto_def sample_signature_def sample_binding_def)
  have sec: "\<forall>k \<in> set security_headers. is_security_header k" by (simp add: is_security_header_def)
  show ?thesis
  proof (rule verify_signed [OF _ _ sign])
    show "crypto_codec_ok sample_crypto" by (rule sample_crypto_ok)
    show "covered_pairs [''tenant''] security_headers sample_delivered
        = covered_pairs [''tenant''] [] sample_envelope"
      using sec by (rule covered_pairs_security) (simp add: sample_delivered_def)
    show "epoch_secs sample_delivered = epoch_secs sample_envelope"
      by (simp add: epoch_secs_def sample_delivered_def)
    show "\<forall>(k, v) \<in> set [(signature_header, sample_signature), (key_id_header, ''k1''),
        (issuer_header, ''billing''), (audience_header, ''ledger''), (algorithm_header, ''ed25519''),
        (destination_header, ''q'')]. header sample_delivered k = Some v"
      by (simp add: header_def sample_delivered_def sample_security_headers_def
          security_headers_reserved is_security_header_def security_headers_def)
        (simp add: security_header_defs)
  qed (use rep in \<open>simp_all add: sample_crypto_def sample_binding_def sample_delivered_def
      sample_security_config_def sample_identities static_keys_def static_verification_key_def
      sample_keys_def with_verification_key_def\<close>)
qed

text \<open>
  Determinism of the signed bytes. The canonical representation of an envelope is the
  same whatever order the two header maps are iterated in, so signer and verifier compute
  the same bytes.
\<close>

theorem canonical_deterministic:
  assumes "key_order hks (env_headers e)" "key_order hks' (env_headers e)"
    and "key_order pks (env_protocol_headers e)" "key_order pks' (env_protocol_headers e)"
  shows "canonical_representation sha hks pks e b = canonical_representation sha hks' pks' e b"
proof (rule canonical_cong)
  show "covered_pairs hks pks e = covered_pairs hks' pks' e"
    using header_pairs_mset [OF assms(1,2)] header_pairs_mset [OF assms(3,4)]
    by (intro covered_pairs_unique) (simp add: wire_headers_def)
qed simp_all

theorem canonical_deterministic_witness:
  "canonical_representation (take 32) [''tenant'', ''zone''] []
     (sample_envelope\<lparr>env_headers := [''tenant'' \<mapsto> ''a'', ''zone'' \<mapsto> ''b'']\<rparr>)
     \<lparr>cb_destination = ''q'', cb_issuer = ''i'', cb_audience = ''a'', cb_key_id = ''k'',
      cb_algorithm = Ed25519\<rparr>
   = canonical_representation (take 32) [''zone'', ''tenant''] []
     (sample_envelope\<lparr>env_headers := [''tenant'' \<mapsto> ''a'', ''zone'' \<mapsto> ''b'']\<rparr>)
     \<lparr>cb_destination = ''q'', cb_issuer = ''i'', cb_audience = ''a'', cb_key_id = ''k'',
      cb_algorithm = Ed25519\<rparr>"
  by (rule canonical_deterministic) (auto simp: key_order_def sample_envelope_def)

text \<open>
  C3. The canonical representation is injective. Two representations are equal only if the
  message id, type, correlation, reply destination, publication second, destination,
  issuer, audience, key id, algorithm, the non-security headers and the payload digest all
  agree: no byte can be moved from one field to another.
\<close>

theorem canonical_injective:
  assumes "canonical_representation sha hks pks e b = Inr y"
    and "canonical_representation sha hks' pks' e' b' = Inr y"
    and "env_published_at e \<le> systime_max" "env_published_at e' \<le> systime_max"
  shows "env_message_id e = env_message_id e' \<and> env_message_type e = env_message_type e'
    \<and> env_correlation_id e = env_correlation_id e' \<and> env_reply_to e = env_reply_to e'
    \<and> as_secs (nat (env_published_at e)) = as_secs (nat (env_published_at e'))
    \<and> b = b' \<and> covered_pairs hks pks e = covered_pairs hks' pks' e'
    \<and> sha (env_payload e) = sha (env_payload e')"
  using canonical_inj [OF assms] by (simp add: covered_content_def)

theorem canonical_injective_witness:
  "\<exists>y. canonical_representation (cr_sha256 sample_crypto) [''tenant''] [] sample_envelope
       \<lparr>cb_destination = ''ab'', cb_issuer = ''c'', cb_audience = ''x'', cb_key_id = ''k'',
        cb_algorithm = Ed25519\<rparr> = Inr y
     \<and> canonical_representation (cr_sha256 sample_crypto) [''tenant''] [] sample_envelope
       \<lparr>cb_destination = ''a'', cb_issuer = ''bc'', cb_audience = ''x'', cb_key_id = ''k'',
        cb_algorithm = Ed25519\<rparr> \<noteq> Inr y"
proof -
  let ?b = "\<lparr>cb_destination = ''ab'', cb_issuer = ''c'', cb_audience = ''x'', cb_key_id = ''k'',
        cb_algorithm = Ed25519\<rparr>"
  obtain y where y: "canonical_representation (cr_sha256 sample_crypto) [''tenant''] [] sample_envelope ?b
      = Inr y" using sample_canonical [of ?b] by (auto simp: short_def)
  have time: "env_published_at sample_envelope \<le> systime_max"
    by (simp add: sample_envelope_def systime_max_def nanos_per_sec_def)
  let ?b' = "\<lparr>cb_destination = ''a'', cb_issuer = ''bc'', cb_audience = ''x'', cb_key_id = ''k'',
        cb_algorithm = Ed25519\<rparr>"
  have "canonical_representation (cr_sha256 sample_crypto) [''tenant''] [] sample_envelope ?b' \<noteq> Inr y"
  proof
    assume "canonical_representation (cr_sha256 sample_crypto) [''tenant''] [] sample_envelope ?b' = Inr y"
    then have "?b = ?b'" using canonical_injective [OF y _ time time] by blast
    then show False by simp
  qed
  with y show ?thesis by blast
qed

text \<open>The signature an envelope carries.\<close>

definition carried_signature :: "('sk, 'vk) crypto \<Rightarrow> bus_envelope \<Rightarrow> byte list option" where
  "carried_signature cr e = Option.bind (header e signature_header) (cr_base64_decode cr)"

text \<open>
  What is relied on of signatures. \<open>circulating\<close> are the signatures that anybody may have presented to
  the verifier. The holder of the key signed the canonical bytes of the envelopes of \<open>S\<close> and nothing
  else, and none of the circulating signatures was made without the key: each verifies on signed bytes
  only.
\<close>

definition unforged ::
  "('sk, 'vk) crypto \<Rightarrow> 'vk \<Rightarrow> byte list set \<Rightarrow> (string list \<times> string list \<times> bus_envelope \<times> canonical_binding) set \<Rightarrow> bool"
where
  "unforged cr key circulating S \<longleftrightarrow>
     (\<forall>sig\<in>circulating. \<forall>representation. cr_verify cr key representation sig \<longrightarrow>
        (\<exists>(hks, pks, e, b)\<in>S. canonical_representation (cr_sha256 cr) hks pks e b = Inr representation))"

text \<open>
  C7. Authenticity. When verification names a principal, the key is active and not revoked
  for that issuer and the audience is accepted here. If moreover the signature of the delivery was not
  forged, the delivered envelope agrees with one that the key's holder signed on everything a signature
  covers: message id, type, correlation id, reply destination, publication second, the headers outside
  the security namespace, the digest of the payload, and the binding to this destination, issuer,
  audience, key id and algorithm.
\<close>

theorem verify_authentic:
  assumes "verify cr static_keys cfg inst hks pks e dest st = (Inr (Some p), st')"
    and published: "env_published_at e \<le> systime_max"
      "\<And>hks\<^sub>0 pks\<^sub>0 e\<^sub>0 b\<^sub>0. (hks\<^sub>0, pks\<^sub>0, e\<^sub>0, b\<^sub>0) \<in> S \<Longrightarrow> env_published_at e\<^sub>0 \<le> systime_max"
    and circulates: "\<And>sig. carried_signature cr e = Some sig \<Longrightarrow> sig \<in> circulating"
    and unforgeable: "\<And>key. static_active (vs_keys st) (vp_issuer p) (vp_key_id p) = Some key \<Longrightarrow>
      unforged cr key circulating S"
  shows "\<not> static_revoked (vs_keys st) (vp_issuer p) (vp_key_id p)
    \<and> static_active (vs_keys st) (vp_issuer p) (vp_key_id p) \<noteq> None
    \<and> vp_audience p \<in> set (accepted_audiences cfg)
    \<and> (\<exists>(hks\<^sub>0, pks\<^sub>0, e\<^sub>0, b\<^sub>0) \<in> S.
         b\<^sub>0 = \<lparr>cb_destination = dest, cb_issuer = vp_issuer p, cb_audience = vp_audience p,
               cb_key_id = vp_key_id p, cb_algorithm = vp_algorithm p\<rparr>
         \<and> env_message_id e\<^sub>0 = env_message_id e \<and> env_message_type e\<^sub>0 = env_message_type e
         \<and> env_correlation_id e\<^sub>0 = env_correlation_id e \<and> env_reply_to e\<^sub>0 = env_reply_to e
         \<and> as_secs (nat (env_published_at e\<^sub>0)) = as_secs (nat (env_published_at e))
         \<and> covered_pairs hks\<^sub>0 pks\<^sub>0 e\<^sub>0 = covered_pairs hks pks e
         \<and> cr_sha256 cr (env_payload e\<^sub>0) = cr_sha256 cr (env_payload e))"
  using assms(1)
proof (rule static.verify_authenticated)
  fix raw sig key representation b
  assume raw: "header e signature_header = Some raw" and ann: "announced cr cfg e dest raw = Inr (b, sig)"
    and act: "static_active (vs_keys st) (vp_issuer p) (vp_key_id p) = Some key"
    and rev: "\<not> static_revoked (vs_keys st) (vp_issuer p) (vp_key_id p)"
    and can: "canonical_representation (cr_sha256 cr) hks pks e b = Inr representation"
    and ok: "cr_verify cr key representation sig"
    and b: "b = \<lparr>cb_destination = dest, cb_issuer = vp_issuer p, cb_audience = vp_audience p,
      cb_key_id = vp_key_id p, cb_algorithm = vp_algorithm p\<rparr>"
  have "carried_signature cr e = Some sig"
    using ann raw by (auto simp: carried_signature_def announced_def result_simps split: if_splits)
  then obtain hks\<^sub>0 pks\<^sub>0 e\<^sub>0 b\<^sub>0 where S: "(hks\<^sub>0, pks\<^sub>0, e\<^sub>0, b\<^sub>0) \<in> S"
    "canonical_representation (cr_sha256 cr) hks\<^sub>0 pks\<^sub>0 e\<^sub>0 b\<^sub>0 = Inr representation"
    using unforgeable [OF act] circulates ok unfolding unforged_def by fast
  have "covered_content (cr_sha256 cr) hks\<^sub>0 pks\<^sub>0 e\<^sub>0 b\<^sub>0 = covered_content (cr_sha256 cr) hks pks e b"
    using canonical_inj [OF S(2) can published(2) [OF S(1)] published(1)] .
  moreover have "vp_audience p \<in> set (accepted_audiences cfg)"
    using ann b by (auto simp: announced_def result_simps split: if_splits)
  ultimately show ?thesis
    using rev act S(1) by (auto simp: covered_content_def b intro!: bexI [of _ "(hks\<^sub>0, pks\<^sub>0, e\<^sub>0, b\<^sub>0)"])
qed

text \<open>A sound scheme, the one delivery in circulation, and the one envelope its holder signed.\<close>

theorem verify_authentic_witness:
  "\<exists>p st'. verify sample_crypto static_keys sample_security_config 0 [''tenant''] security_headers
      sample_delivered ''q'' \<lparr>vs_keys = sample_keys, vs_last_refresh = None\<rparr> = (Inr (Some p), st')
    \<and> crypto_ok sample_crypto \<and> \<not> static_revoked sample_keys (vp_issuer p) (vp_key_id p) \<and> vp_audience p = ''ledger''
    \<and> sample_binding = \<lparr>cb_destination = ''q'', cb_issuer = vp_issuer p, cb_audience = vp_audience p,
        cb_key_id = vp_key_id p, cb_algorithm = vp_algorithm p\<rparr>"
proof -
  let ?st = "\<lparr>vs_keys = sample_keys, vs_last_refresh = None\<rparr>"
  let ?p = "\<lparr>vp_issuer = ''billing'', vp_audience = ''ledger'', vp_key_id = ''k1'', vp_algorithm = Ed25519\<rparr>"
  let ?S = "{([''tenant''], [], sample_envelope, sample_binding)}"
  have ver: "verify sample_crypto static_keys sample_security_config 0 [''tenant''] security_headers
      sample_delivered ''q'' ?st = (Inr (Some ?p), ?st)"
    by (rule sample_verified)
  have times: "env_published_at sample_delivered \<le> systime_max" "env_published_at sample_envelope \<le> systime_max"
    by (simp_all add: sample_delivered_def sample_envelope_def systime_max_def nanos_per_sec_def)
  have "carried_signature sample_crypto sample_delivered = Some (str_bytes sample_signature)"
    by (simp add: carried_signature_def sample_carried sample_crypto_def)
  moreover have "unforged sample_crypto key {str_bytes sample_signature} ?S" for key
    by (simp add: unforged_def) (simp add: sample_crypto_def sample_signature_bytes)
  moreover have "crypto_ok sample_crypto"
    using sample_crypto_ok by (simp add: crypto_ok_def sample_crypto_def)
  ultimately show ?thesis
    using verify_authentic [OF ver times(1), of ?S "{str_bytes sample_signature}"] times(2) ver by auto
qed

text \<open>
  The gate. Under the policy \<open>Required\<close> an envelope passes only with a principal; the
  anonymous outcome needs the explicit opt-out and an envelope without a signature header. A
  configuration with policy \<open>Required\<close> that \<open>build\<close> accepts has an accepted audience and a
  positive refresh interval.
\<close>

theorem verification_gate:
  assumes "security_config_build (fold apply_security_setter setters security_config_default) = Inr cfg"
    and "verify cr ks cfg inst hks pks e dest st = (Inr r, st')"
  shows "0 < key_refresh_interval cfg
    \<and> (policy cfg = Required \<longrightarrow> accepted_audiences cfg \<noteq> [] \<and> r \<noteq> None)
    \<and> (r = None \<longrightarrow> allows_unauthenticated_envelopes (policy cfg) \<and> header e signature_header = None)"
  using assms
  by (auto simp: security_config_build_def verify_def result_simps
      split: if_splits option.splits verification_policy.splits sum.splits prod.splits)

text \<open>
  Key refreshes are rate limited. However many envelopes with unknown keys arrive, two
  reloads of the key source are at least the configured interval apart.
\<close>

theorem refresh_rate_limited:
  assumes "security_config_build c = Inr cfg" and "sorted (map vc_inst calls)"
    and "vs_last_refresh st = None"
  shows "sorted_wrt (\<lambda>a b. a + key_refresh_interval cfg \<le> b) (refresh_times cr ks cfg calls st)"
proof -
  have "0 < key_refresh_interval cfg"
    using assms(1) by (auto simp: security_config_build_def split: if_splits)
  then show ?thesis using refresh_times_spaced [of cfg calls st cr ks] assms(2,3) by simp
qed

theorem verification_gate_witness:
  "let cfg = sample_security_config in
   \<exists>p st'. verify sample_crypto static_keys cfg 0 [''tenant''] security_headers sample_delivered ''q''
      \<lparr>vs_keys = sample_keys, vs_last_refresh = None\<rparr> = (Inr p, st')
    \<and> policy cfg = Required \<and> p \<noteq> None"
proof -
  have "security_config_build (fold apply_security_setter [WithAcceptedAudience ''ledger'']
      security_config_default) = Inr sample_security_config"
    by (simp add: security_config_build_def security_config_default_def sample_security_config_def
        default_key_refresh_interval_def from_secs_def nanos_per_sec_def)
  from verification_gate [OF this sample_verified] show ?thesis
    using sample_verified
    by (auto simp: Let_def sample_security_config_def security_config_default_def)
qed

theorem refresh_rate_limited_witness:
  "sorted_wrt (\<lambda>a b. a + key_refresh_interval sample_security_config \<le> b)
     (refresh_times sample_crypto static_keys sample_security_config
        [\<lparr>vc_inst = 0, vc_hks = [''tenant''], vc_pks = security_headers, vc_env = sample_delivered, vc_dest = ''q''\<rparr>,
         \<lparr>vc_inst = 3, vc_hks = [''tenant''], vc_pks = security_headers, vc_env = sample_delivered, vc_dest = ''q''\<rparr>]
        \<lparr>vs_keys = static_key_source_default, vs_last_refresh = None\<rparr>)"
  by (rule refresh_rate_limited [of sample_security_config])
    (simp_all add: security_config_build_def security_config_default_def sample_security_config_def
      default_key_refresh_interval_def from_secs_def nanos_per_sec_def)

end
