(* ===== verification/Amqp_Metadata.thy ===== *)
theory Amqp_Metadata
  imports Env_Security
begin

text \<open>
  The bounded AMQP metadata codec (\<open>crates/hexeract-bus-rabbitmq/src/metadata.rs\<close>): encoding
  of an outbound envelope's headers as a field table under limits, measuring and decoding of
  an inbound field table.

  The value type of the driver \<open>lapin\<close> is the datatype \<open>amqp_value\<close>; a field table is a map
  from keys to values, iterated in the order \<open>ks\<close>. Lengths are naturals; the saturating
  additions on \<open>usize\<close> are written out. The walk of \<open>measure_value\<close> over nested values keeps an
  explicit stack, the list \<open>pending\<close> with its top first; it terminates because each step
  removes one node of the values on the stack.
\<close>

section \<open>Values and limits\<close>

datatype amqp_value =
    AmqpBoolean bool
  | ShortShortInt int
  | ShortShortUInt nat
  | ShortInt int
  | ShortUInt nat
  | LongInt int
  | LongUInt nat
  | LongLongInt int
  | AmqpFloat u32
  | AmqpDouble u64
  | DecimalValue nat nat
  | ShortString string
  | LongString string
  | FieldArray "amqp_value list"
  | Timestamp nat
  | FieldTable "(string \<times> amqp_value) list"
  | ByteArray "byte list"
  | AmqpVoid

type_synonym field_table = "string \<rightharpoonup> amqp_value"

record metadata_limits =
  max_headers :: nat
  max_key_bytes :: nat
  max_value_bytes :: nat
  max_total_bytes :: nat

definition metadata_limits_default :: metadata_limits where
  "metadata_limits_default =
     \<lparr>max_headers = 64, max_key_bytes = 128, max_value_bytes = 8 * 1024, max_total_bytes = 32 * 1024\<rparr>"

definition usize_max :: nat where
  "usize_max = 2 ^ 64 - 1"

definition usize_saturating_add :: "nat \<Rightarrow> nat \<Rightarrow> nat" where
  "usize_saturating_add a b = min (a + b) usize_max"

fun needs_sanitized_quarantine :: "bus_error \<Rightarrow> bool" where
  "needs_sanitized_quarantine ReservedHeaderNamespace = True"
| "needs_sanitized_quarantine (MetadataLimitExceeded _ _ _) = True"
| "needs_sanitized_quarantine (InvalidMetadata _) = True"
| "needs_sanitized_quarantine (EnvelopeSecurity _) = True"
| "needs_sanitized_quarantine _ = False"

section \<open>Encoding\<close>

definition sec_pairs :: "(string \<times> string) list option \<Rightarrow> (string \<times> string) list" where
  "sec_pairs sec = (case sec of None \<Rightarrow> [] | Some hs \<Rightarrow> hs)"

definition all_headers ::
  "string list \<Rightarrow> string list \<Rightarrow> bus_envelope \<Rightarrow> (string \<times> string) list option \<Rightarrow> (string \<times> string) list"
where
  "all_headers hks pks e sec = wire_headers hks pks e @ sec_pairs sec"

text \<open>
  \<open>ShortString::try_new\<close> refuses more than 255 bytes. The driver's own error text, which the code
  appends to the reason, is left out.
\<close>

definition to_short_string :: "string \<Rightarrow> string \<Rightarrow> (bus_error, string) result" where
  "to_short_string val field =
     (if length val \<le> 255 then Inr val
      else Inl (InvalidTopology (field @ '' exceeds the AMQP short-string limit of 255 bytes'')))"

fun check_lengths ::
  "metadata_limit \<Rightarrow> nat \<Rightarrow> string list \<Rightarrow> (bus_error, unit) result"
where
  "check_lengths dim mx [] = Inr ()"
| "check_lengths dim mx (x # xs) =
     (if length x > mx then Inl (MetadataLimitExceeded dim (length x) mx) else check_lengths dim mx xs)"

fun total_header_bytes :: "nat \<Rightarrow> (string \<times> string) list \<Rightarrow> nat" where
  "total_header_bytes n [] = n"
| "total_header_bytes n ((k, v) # ps) =
     total_header_bytes (usize_saturating_add (usize_saturating_add n (length k)) (length v)) ps"

fun insert_fields :: "field_table \<Rightarrow> (string \<times> string) list \<Rightarrow> (bus_error, field_table) result" where
  "insert_fields t [] = Inr t"
| "insert_fields t ((k, v) # ps) =
     rbind (to_short_string k ''header key'') (\<lambda>k'. insert_fields (t(k' \<mapsto> LongString v)) ps)"

definition encode_headers ::
  "string list \<Rightarrow> string list \<Rightarrow> bus_envelope \<Rightarrow> metadata_limits \<Rightarrow> (string \<times> string) list option \<Rightarrow>
   (bus_error, field_table) result"
where
  "encode_headers hks pks e lim sec =
     rbind (validate_application_headers hks e) (\<lambda>_.
     let ps = all_headers hks pks e sec in
     if length ps > max_headers lim
     then Inl (MetadataLimitExceeded HeaderCount (length ps) (max_headers lim)) else
     rbind (check_lengths KeyBytes (max_key_bytes lim) (map fst ps)) (\<lambda>_.
     rbind (check_lengths ValueBytes (max_value_bytes lim) (map snd ps)) (\<lambda>_.
     let n = total_header_bytes 0 ps in
     if n > max_total_bytes lim
     then Inl (MetadataLimitExceeded TotalBytes n (max_total_bytes lim)) else
     insert_fields Map.empty ps)))"

section \<open>Measuring\<close>

text \<open>What one value contributes by itself, and the members it pushes.\<close>

fun contribution :: "amqp_value \<Rightarrow> nat \<times> amqp_value list" where
  "contribution (AmqpBoolean _) = (1, [])"
| "contribution (ShortShortInt _) = (1, [])"
| "contribution (ShortShortUInt _) = (1, [])"
| "contribution (ShortInt _) = (2, [])"
| "contribution (ShortUInt _) = (2, [])"
| "contribution (LongInt _) = (4, [])"
| "contribution (LongUInt _) = (4, [])"
| "contribution (AmqpFloat _) = (4, [])"
| "contribution (LongLongInt _) = (8, [])"
| "contribution (AmqpDouble _) = (8, [])"
| "contribution (Timestamp _) = (8, [])"
| "contribution (DecimalValue _ _) = (5, [])"
| "contribution (ShortString text) = (length text, [])"
| "contribution (LongString text) = (length text, [])"
| "contribution (ByteArray bytes) = (length bytes, [])"
| "contribution AmqpVoid = (0, [])"
| "contribution (FieldArray items) = (0, items)"
| "contribution (FieldTable fs) =
     (foldl (\<lambda>keys f. usize_saturating_add keys (length (fst f))) 0 fs, map snd fs)"

function measure_loop :: "nat \<Rightarrow> nat \<Rightarrow> amqp_value list \<Rightarrow> (bus_error, nat) result" where
  "measure_loop mx measured [] = Inr measured"
| "measure_loop mx measured (current # pending) =
     (let measured' = usize_saturating_add measured (fst (contribution current)) in
      if measured' > mx then Inl (MetadataLimitExceeded ValueBytes measured' mx)
      else measure_loop mx measured' (rev (snd (contribution current)) @ pending))"
  by pat_completeness auto

lemma size_array_members:
  "sum_list (map (\<lambda>v. Suc (size v)) xs) = size_list size xs"
  by (induction xs) simp_all

lemma size_table_members:
  "sum_list (map (\<lambda>f. Suc (size (snd f))) fs) \<le> size_list (size_prod (\<lambda>_. 0) size) fs"
  for fs :: "(string \<times> amqp_value) list"
  by (induction fs) (auto split: prod.splits)

lemma size_members:
  "sum_list (map (\<lambda>v. Suc (size v)) (snd (contribution v))) \<le> size v"
  using size_table_members by (cases v) (auto simp: size_array_members comp_def intro: le_SucI)

termination measure_loop
  by (relation "measure (\<lambda>(_, _, pending). sum_list (map (\<lambda>v. Suc (size v)) pending))")
    (simp_all add: rev_map [symmetric] le_imp_less_Suc [OF size_members])

definition measure_value :: "amqp_value \<Rightarrow> nat \<Rightarrow> (bus_error, nat) result" where
  "measure_value v mx = measure_loop mx 0 [v]"

section \<open>Decoding\<close>

text \<open>\<open>std::str::from_utf8\<close>: well-formed UTF-8, by byte values.\<close>

definition cont :: "nat \<Rightarrow> bool" where
  "cont b \<longleftrightarrow> 0x80 \<le> b \<and> b \<le> 0xBF"

fun utf8_valid :: "nat list \<Rightarrow> bool" where
  "utf8_valid [] = True"
| "utf8_valid (b # bs) =
     (if b < 0x80 then utf8_valid bs
      else if 0xC2 \<le> b \<and> b \<le> 0xDF then
        (case bs of c # r \<Rightarrow> cont c \<and> utf8_valid r | _ \<Rightarrow> False)
      else if 0xE0 \<le> b \<and> b \<le> 0xEF then
        (case bs of
           c # d # r \<Rightarrow>
             (if b = 0xE0 then 0xA0 \<le> c \<and> c \<le> 0xBF
              else if b = 0xED then 0x80 \<le> c \<and> c \<le> 0x9F else cont c)
             \<and> cont d \<and> utf8_valid r
         | _ \<Rightarrow> False)
      else if 0xF0 \<le> b \<and> b \<le> 0xF4 then
        (case bs of
           c # d # f # r \<Rightarrow>
             (if b = 0xF0 then 0x90 \<le> c \<and> c \<le> 0xBF
              else if b = 0xF4 then 0x80 \<le> c \<and> c \<le> 0x8F else cont c)
             \<and> cont d \<and> cont f \<and> utf8_valid r
         | _ \<Rightarrow> False)
      else False)"

definition is_utf8 :: "string \<Rightarrow> bool" where
  "is_utf8 s = utf8_valid (map of_char s)"

definition has_ascii_uppercase :: "string \<Rightarrow> bool" where
  "has_ascii_uppercase s = list_ex (\<lambda>c. let n = of_char c :: nat in 65 \<le> n \<and> n \<le> 90) s"

fun measure_entries ::
  "metadata_limits \<Rightarrow> field_table \<Rightarrow> nat \<Rightarrow> string list \<Rightarrow> (bus_error, nat) result"
where
  "measure_entries lim t n [] = Inr n"
| "measure_entries lim t n (k # ks) =
     (case t k of
        None \<Rightarrow> measure_entries lim t n ks
      | Some v \<Rightarrow>
          rbind (measure_value v (max_value_bytes lim)) (\<lambda>m.
          let n' = usize_saturating_add (usize_saturating_add n (length k)) m in
          if n' > max_total_bytes lim
          then Inl (MetadataLimitExceeded TotalBytes n' (max_total_bytes lim))
          else measure_entries lim t n' ks))"

fun split_entries ::
  "field_table \<Rightarrow> header_map \<times> header_map \<Rightarrow> string list \<Rightarrow> (bus_error, header_map \<times> header_map) result"
where
  "split_entries t acc [] = Inr acc"
| "split_entries t acc (k # ks) =
     (case t k of
        None \<Rightarrow> split_entries t acc ks
      | Some v \<Rightarrow>
          if is_reserved_header k \<and> has_ascii_uppercase k
          then Inl (InvalidMetadata NonCanonicalReservedHeader)
          else case v of
            LongString text \<Rightarrow>
              if \<not> is_utf8 text then Inl (InvalidMetadata NonUtf8LongString)
              else split_entries t
                (if is_reserved_header k then (fst acc, (snd acc)(k \<mapsto> text))
                 else ((fst acc)(k \<mapsto> text), snd acc)) ks
          | _ \<Rightarrow> split_entries t acc ks)"

definition decode_headers ::
  "string list \<Rightarrow> field_table option \<Rightarrow> metadata_limits \<Rightarrow> (bus_error, header_map \<times> header_map) result"
where
  "decode_headers ks table lim =
     (case table of
        None \<Rightarrow> Inr (Map.empty, Map.empty)
      | Some t \<Rightarrow>
          if length ks > max_headers lim
          then Inl (MetadataLimitExceeded HeaderCount (length ks) (max_headers lim)) else
          rbind (check_lengths KeyBytes (max_key_bytes lim) ks) (\<lambda>_.
          rbind (measure_entries lim t 0 ks) (\<lambda>_.
          split_entries t (Map.empty, Map.empty) ks)))"

section \<open>Lemmas: measuring\<close>

text \<open>The reference size: the bytes of every node of a value, with no bound and no stack.\<close>

fun own_bytes :: "amqp_value \<Rightarrow> nat" where
  "own_bytes (AmqpBoolean _) = 1"
| "own_bytes (ShortShortInt _) = 1"
| "own_bytes (ShortShortUInt _) = 1"
| "own_bytes (ShortInt _) = 2"
| "own_bytes (ShortUInt _) = 2"
| "own_bytes (LongInt _) = 4"
| "own_bytes (LongUInt _) = 4"
| "own_bytes (LongLongInt _) = 8"
| "own_bytes (AmqpFloat _) = 4"
| "own_bytes (AmqpDouble _) = 8"
| "own_bytes (DecimalValue _ _) = 1 + 4"
| "own_bytes (Timestamp _) = 8"
| "own_bytes (ShortString text) = length text"
| "own_bytes (LongString text) = length text"
| "own_bytes (ByteArray bytes) = length bytes"
| "own_bytes AmqpVoid = 0"
| "own_bytes (FieldArray _) = 0"
| "own_bytes (FieldTable fs) = sum_list (map (length \<circ> fst) fs)"

fun tree_bytes :: "amqp_value \<Rightarrow> nat" where
  "tree_bytes (FieldArray items) = sum_list (map tree_bytes items)"
| "tree_bytes (FieldTable fs) = sum_list (map (\<lambda>f. length (fst f) + tree_bytes (snd f)) fs)"
| "tree_bytes v = own_bytes v"

lemma tree_bytes_step: "tree_bytes v = own_bytes v + sum_list (map tree_bytes (snd (contribution v)))"
  by (cases v) (simp_all add: sum_list_addf comp_def)

lemma usize_saturating_add_add:
  "usize_saturating_add (usize_saturating_add a b) c = usize_saturating_add a (b + c)"
  by (simp add: usize_saturating_add_def min_def)

lemma foldl_saturating:
  "foldl (\<lambda>n x. usize_saturating_add n (f x)) (usize_saturating_add 0 a) xs =
   usize_saturating_add 0 (a + sum_list (map f xs))"
  by (induction xs arbitrary: a) (simp_all add: usize_saturating_add_add add.assoc)

lemma saturating_contribution:
  "usize_saturating_add m (fst (contribution v)) = usize_saturating_add m (own_bytes v)"
proof (cases v)
  case (FieldTable fs)
  have "usize_saturating_add 0 0 = 0"
    by (simp add: usize_saturating_add_def)
  then have "fst (contribution v) = usize_saturating_add 0 (own_bytes v)"
    using foldl_saturating [of "length \<circ> fst" 0 fs] by (simp add: FieldTable comp_def)
  then show ?thesis
    by (simp add: usize_saturating_add_def min_def)
qed simp_all

lemma measure_loop_correct:
  assumes "mx < usize_max" and "measured \<le> mx"
  shows "if measured + sum_list (map tree_bytes pending) \<le> mx
    then measure_loop mx measured pending = Inr (measured + sum_list (map tree_bytes pending))
    else \<exists>a. mx < a \<and> measure_loop mx measured pending = Inl (MetadataLimitExceeded ValueBytes a mx)"
  using assms
proof (induction mx measured pending rule: measure_loop.induct)
  case (2 mx measured current pending)
  let ?m = "usize_saturating_add measured (own_bytes current)"
  show ?case
  proof (cases "?m > mx")
    case True
    then have "measured + own_bytes current > mx"
      by (simp add: usize_saturating_add_def)
    then show ?thesis
      using True by (simp add: saturating_contribution tree_bytes_step [of current])
  next
    case False
    then have "?m = measured + own_bytes current"
      using 2(2) by (simp add: usize_saturating_add_def min_def split: if_splits)
    then show ?thesis
      using 2(1) [OF refl] False 2(2)
      by (simp add: saturating_contribution tree_bytes_step [of current] rev_map [symmetric] add.assoc
          split: if_splits)
  qed
qed simp

lemma measure_string [simp]:
  "measure_value (LongString text) mx =
     (let n = usize_saturating_add 0 (length text) in
      if n > mx then Inl (MetadataLimitExceeded ValueBytes n mx) else Inr n)"
  by (simp add: measure_value_def Let_def)

section \<open>Lemmas: the codec\<close>

lemma check_lengths_ok: "check_lengths dim mx xs = Inr () \<longleftrightarrow> (\<forall>x \<in> set xs. length x \<le> mx)"
  by (induction xs) auto

lemma check_lengths_err:
  "check_lengths dim mx xs = Inl err \<Longrightarrow>
   \<exists>x \<in> set xs. length x > mx \<and> err = MetadataLimitExceeded dim (length x) mx"
  by (induction xs) (auto split: if_splits)

definition pair_bytes :: "string \<times> string \<Rightarrow> nat" where
  "pair_bytes p = length (fst p) + length (snd p)"

lemma total_header_bytes_eq:
  "total_header_bytes (usize_saturating_add 0 n) ps = usize_saturating_add 0 (n + sum_list (map pair_bytes ps))"
  by (induction ps arbitrary: n) (auto simp: usize_saturating_add_add pair_bytes_def add.assoc)

lemma total_header_bytes_0:
  "total_header_bytes 0 ps = usize_saturating_add 0 (sum_list (map pair_bytes ps))"
  using total_header_bytes_eq [of 0 ps] by (simp add: usize_saturating_add_def)

definition table_of :: "(string \<times> string) list \<Rightarrow> field_table" where
  "table_of ps = (\<lambda>k. map_option LongString (map_of ps k))"

lemma dom_table_of: "dom (table_of ps) = fst ` set ps"
  unfolding dom_map_of_conv_image_fst [symmetric] by (auto simp: table_of_def dom_def)

lemma insert_fields_Inr:
  assumes "insert_fields t ps = Inr t'" "distinct (map fst ps)"
  shows "t' = t ++ table_of ps"
  using assms
proof (induction ps arbitrary: t)
  case (Cons p ps)
  obtain k v where p: "p = (k, v)" by (cases p)
  have "map_of ps k = None"
    using Cons.prems(2) by (simp add: p map_of_eq_None_iff)
  moreover have "t' = t(k \<mapsto> LongString v) ++ table_of ps"
    using Cons.prems by (intro Cons.IH) (auto simp: p to_short_string_def fun_upd_def split: if_splits)
  ultimately show ?case
    by (auto simp: p table_of_def map_add_def fun_eq_iff split: option.splits)
qed (simp add: table_of_def map_add_def)

lemma insert_fields_ok: "\<forall>p \<in> set ps. length (fst p) \<le> 255 \<Longrightarrow> \<exists>t'. insert_fields t ps = Inr t'"
  by (induction ps arbitrary: t) (auto simp: to_short_string_def)

lemma encode_headers_ok:
  assumes "validate_application_headers hks e = Inr ()" "length (all_headers hks pks e sec) \<le> max_headers lim"
    and "\<forall>p \<in> set (all_headers hks pks e sec).
      length (fst p) \<le> min 255 (max_key_bytes lim) \<and> length (snd p) \<le> max_value_bytes lim"
    and "sum_list (map pair_bytes (all_headers hks pks e sec)) \<le> max_total_bytes lim"
  shows "\<exists>t. encode_headers hks pks e lim sec = Inr t"
proof -
  have "check_lengths KeyBytes (max_key_bytes lim) (map fst (all_headers hks pks e sec)) = Inr ()"
    "check_lengths ValueBytes (max_value_bytes lim) (map snd (all_headers hks pks e sec)) = Inr ()"
    "\<exists>t. insert_fields Map.empty (all_headers hks pks e sec) = Inr t"
    using assms(3) by (auto simp: check_lengths_ok intro: insert_fields_ok)
  moreover have "total_header_bytes 0 (all_headers hks pks e sec) \<le> max_total_bytes lim"
    using assms(4) by (simp add: total_header_bytes_0 usize_saturating_add_def)
  ultimately show ?thesis
    using assms(1,2) by (auto simp: encode_headers_def Let_def)
qed

lemma split_entries_table:
  assumes "\<forall>k \<in> set ks. \<exists>v. map_of ps k = Some v \<and> is_utf8 v \<and> (is_reserved_header k \<longrightarrow> \<not> has_ascii_uppercase k)"
  shows "split_entries (table_of ps) (a, p) ks =
    Inr (\<lambda>k. if k \<in> set ks \<and> \<not> is_reserved_header k then map_of ps k else a k,
         \<lambda>k. if k \<in> set ks \<and> is_reserved_header k then map_of ps k else p k)"
  using assms
proof (induction ks arbitrary: a p)
  case (Cons k ks)
  then obtain v where "map_of ps k = Some v" "is_utf8 v" "is_reserved_header k \<longrightarrow> \<not> has_ascii_uppercase k"
    by auto
  then show ?case
    using Cons by (auto simp: table_of_def fun_eq_iff)
qed simp

lemma measure_entries_table:
  assumes "\<forall>k \<in> set ks. \<exists>v. map_of ps k = Some v \<and> length v \<le> max_value_bytes lim"
    and "usize_saturating_add 0 (n + sum_list (map (\<lambda>k. pair_bytes (k, the (map_of ps k))) ks)) \<le> max_total_bytes lim"
  shows "\<exists>n'. measure_entries lim (table_of ps) (usize_saturating_add 0 n) ks = Inr n'"
  using assms
proof (induction ks arbitrary: n)
  case (Cons k ks)
  then obtain v where v: "map_of ps k = Some v" "length v \<le> max_value_bytes lim"
    by auto
  have sat: "usize_saturating_add (usize_saturating_add (usize_saturating_add 0 n) (length k))
      (usize_saturating_add 0 (length v)) = usize_saturating_add 0 (n + (length k + length v))"
    by (auto simp: usize_saturating_add_def min_def)
  have le: "usize_saturating_add 0 (n + (length k + length v)) \<le> max_total_bytes lim"
    using Cons.prems(2) v(1) by (auto simp: usize_saturating_add_def min_def pair_bytes_def split: if_splits)
  have "\<exists>n'. measure_entries lim (table_of ps) (usize_saturating_add 0 (n + (length k + length v))) ks = Inr n'"
    using Cons.prems v(1) by (intro Cons.IH) (auto simp: pair_bytes_def add.assoc)
  moreover have "usize_saturating_add 0 (length v) \<le> max_value_bytes lim"
    using v(2) by (simp add: usize_saturating_add_def)
  ultimately show ?case
    using v(1) le by (simp add: table_of_def sat not_less)
qed simp

lemma map_of_header_pairs:
  "key_order ks hs \<Longrightarrow> map_of (header_pairs ks hs) k = hs k"
proof (cases "hs k")
  case None
  then show ?thesis
    by (auto simp: header_pairs_def map_of_eq_None_iff)
next
  case (Some v)
  moreover assume "key_order ks hs"
  ultimately have "(k, v) \<in> set (header_pairs ks hs)" "distinct (map fst (header_pairs ks hs))"
    by (auto simp: header_pairs_def key_order_def comp_def intro!: image_eqI)
  then show ?thesis using Some by simp
qed

lemma fst_header_pairs: "key_order ks hs \<Longrightarrow> map fst (header_pairs ks hs) = ks"
  by (auto simp: header_pairs_def key_order_def comp_def filter_id_conv)

text \<open>The headers a signer and an application hand to the encoder.\<close>

definition canonical_key :: "string \<Rightarrow> bool" where
  "canonical_key k \<longleftrightarrow> is_reserved_header k \<and> \<not> has_ascii_uppercase k"

definition headers_wf ::
  "string list \<Rightarrow> string list \<Rightarrow> bus_envelope \<Rightarrow> (string \<times> string) list option \<Rightarrow> bool"
where
  "headers_wf hks pks e sec \<longleftrightarrow>
     key_order hks (env_headers e) \<and> key_order pks (env_protocol_headers e)
     \<and> distinct (map fst (sec_pairs sec)) \<and> set pks \<inter> fst ` set (sec_pairs sec) = {}
     \<and> (\<forall>k \<in> set pks \<union> fst ` set (sec_pairs sec). canonical_key k)
     \<and> (\<forall>(k, v) \<in> set (all_headers hks pks e sec). is_utf8 v)"

lemma all_headers_wf:
  assumes wf: "headers_wf hks pks e sec" and ok: "validate_application_headers hks e = Inr ()"
  shows "distinct (map fst (all_headers hks pks e sec))"
    and "map_of (all_headers hks pks e sec) k =
      (if is_reserved_header k
       then (env_protocol_headers e ++ map_of (sec_pairs sec)) k else env_headers e k)"
    and "is_reserved_header k \<Longrightarrow> env_headers e k = None"
    and "\<not> is_reserved_header k \<Longrightarrow> (env_protocol_headers e ++ map_of (sec_pairs sec)) k = None"
proof -
  have app: "\<forall>k. is_reserved_header k \<longrightarrow> env_headers e k = None"
    using wf ok by (simp add: headers_wf_def validate_application_headers_ok)
  have ord: "key_order hks (env_headers e)" "key_order pks (env_protocol_headers e)"
    and prot: "\<forall>k \<in> set pks \<union> fst ` set (sec_pairs sec). is_reserved_header k"
    and disj: "set pks \<inter> fst ` set (sec_pairs sec) = {}" "distinct (map fst (sec_pairs sec))"
    using wf by (auto simp: headers_wf_def canonical_key_def)
  have "k \<in> set hks \<Longrightarrow> \<not> is_reserved_header k" for k
    using app ord(1) by (auto simp: key_order_def dom_def)
  then show "distinct (map fst (all_headers hks pks e sec))"
    using ord prot disj
    by (auto simp: all_headers_def wire_headers_def fst_header_pairs key_order_def)
  have keys: "dom (env_protocol_headers e) = set pks"
    using ord(2) by (simp add: key_order_def)
  have none: "env_protocol_headers e k = None \<and> map_of (sec_pairs sec) k = None" if "\<not> is_reserved_header k"
    using that prot keys by (auto simp: map_of_eq_None_iff dom_def)
  have "map_of (sec_pairs sec) k = None" if "env_protocol_headers e k = Some v" for v
    using that disj(1) keys by (auto simp: map_of_eq_None_iff)
  then show "map_of (all_headers hks pks e sec) k =
      (if is_reserved_header k
       then (env_protocol_headers e ++ map_of (sec_pairs sec)) k else env_headers e k)"
    using app none keys ord
    by (auto simp: all_headers_def wire_headers_def map_of_append map_add_def map_of_header_pairs
        split: option.splits)
  show "is_reserved_header k \<Longrightarrow> env_headers e k = None"
    using app by simp
  show "\<not> is_reserved_header k \<Longrightarrow> (env_protocol_headers e ++ map_of (sec_pairs sec)) k = None"
    using none by (simp add: map_add_def)
qed

lemma encode_headers_Inr:
  assumes "headers_wf hks pks e sec" "encode_headers hks pks e lim sec = Inr t"
  shows "t = table_of (all_headers hks pks e sec)"
    and "validate_application_headers hks e = Inr ()"
    and "length (all_headers hks pks e sec) \<le> max_headers lim"
    and "\<forall>(k, v) \<in> set (all_headers hks pks e sec).
      length k \<le> max_key_bytes lim \<and> length v \<le> max_value_bytes lim"
    and "usize_saturating_add 0 (sum_list (map pair_bytes (all_headers hks pks e sec))) \<le> max_total_bytes lim"
proof -
  have enc: "validate_application_headers hks e = Inr ()
    \<and> length (all_headers hks pks e sec) \<le> max_headers lim
    \<and> check_lengths KeyBytes (max_key_bytes lim) (map fst (all_headers hks pks e sec)) = Inr ()
    \<and> check_lengths ValueBytes (max_value_bytes lim) (map snd (all_headers hks pks e sec)) = Inr ()
    \<and> total_header_bytes 0 (all_headers hks pks e sec) \<le> max_total_bytes lim
    \<and> insert_fields Map.empty (all_headers hks pks e sec) = Inr t"
    using assms(2) by (auto simp: encode_headers_def result_simps Let_def split: if_splits)
  then show "validate_application_headers hks e = Inr ()"
    "length (all_headers hks pks e sec) \<le> max_headers lim"
    "\<forall>(k, v) \<in> set (all_headers hks pks e sec). length k \<le> max_key_bytes lim \<and> length v \<le> max_value_bytes lim"
    "usize_saturating_add 0 (sum_list (map pair_bytes (all_headers hks pks e sec))) \<le> max_total_bytes lim"
    by (auto simp: check_lengths_ok total_header_bytes_0)
  show "t = table_of (all_headers hks pks e sec)"
    using enc insert_fields_Inr [of Map.empty "all_headers hks pks e sec" t] all_headers_wf(1) [OF assms(1)]
    by auto
qed

lemma sum_list_mset_cong: "mset xs = mset ys \<Longrightarrow> sum_list (map f xs) = sum_list (map f ys)"
  for f :: "'a \<Rightarrow> nat"
  by (metis mset_map sum_mset_sum_list)

lemma decode_encoded:
  assumes wf: "headers_wf hks pks e sec" and enc: "encode_headers hks pks e lim sec = Inr t"
    and ks: "key_order ks t"
  shows "decode_headers ks (Some t) lim =
    Inr (env_headers e, env_protocol_headers e ++ map_of (sec_pairs sec))"
proof -
  let ?ps = "all_headers hks pks e sec"
  note e = encode_headers_Inr [OF wf enc]
  note w = all_headers_wf [OF wf e(2)]
  have keys: "set ks = fst ` set ?ps"
    using ks by (simp add: e(1) key_order_def dom_table_of)
  have perm: "mset ks = mset (map fst ?ps)"
    using keys w(1) ks by (intro set_eq_iff_mset_eq_distinct [THEN iffD1]) (auto simp: key_order_def)
  have val: "\<exists>v. map_of ?ps k = Some v \<and> length v \<le> max_value_bytes lim \<and> length k \<le> max_key_bytes lim
      \<and> is_utf8 v \<and> (is_reserved_header k \<longrightarrow> \<not> has_ascii_uppercase k)" if mem: "k \<in> set ks" for k
  proof -
    obtain v where v: "(k, v) \<in> set ?ps" using mem keys by auto
    moreover have "k \<in> set hks \<union> set pks \<union> fst ` set (sec_pairs sec)"
      using v by (force simp: all_headers_def wire_headers_def header_pairs_def)
    moreover have "k \<notin> set hks" if "is_reserved_header k"
      using w(3) [OF that] wf by (auto simp: headers_wf_def key_order_def)
    moreover have "is_utf8 v" "\<forall>k \<in> set pks \<union> fst ` set (sec_pairs sec). canonical_key k"
      using wf v by (auto simp: headers_wf_def)
    moreover have "map_of ?ps k = Some v" "length v \<le> max_value_bytes lim" "length k \<le> max_key_bytes lim"
      using v w(1) e(4) by auto
    ultimately show ?thesis
      by (auto simp: canonical_key_def)
  qed
  have "map (\<lambda>p. pair_bytes (fst p, the (map_of ?ps (fst p)))) ?ps = map pair_bytes ?ps"
    using w(1) by (intro map_cong) auto
  then have "sum_list (map (\<lambda>k. pair_bytes (k, the (map_of ?ps k))) ks) = sum_list (map pair_bytes ?ps)"
    using sum_list_mset_cong [OF perm, of "\<lambda>k. pair_bytes (k, the (map_of ?ps k))"]
    by (simp only: map_map comp_def)
  then have "\<exists>n'. measure_entries lim t 0 ks = Inr n'"
    using measure_entries_table [of ks ?ps lim 0] e(5) val by (auto simp: e(1) usize_saturating_add_def)
  moreover have "split_entries t (Map.empty, Map.empty) ks =
      Inr (env_headers e, env_protocol_headers e ++ map_of (sec_pairs sec))"
  proof -
    have "split_entries t (Map.empty, Map.empty) ks =
      Inr (\<lambda>k. if k \<in> set ks \<and> \<not> is_reserved_header k then map_of ?ps k else None,
           \<lambda>k. if k \<in> set ks \<and> is_reserved_header k then map_of ?ps k else None)"
      unfolding e(1) by (rule split_entries_table) (use val in blast)
    moreover have out: "k \<notin> set ks \<Longrightarrow> map_of ?ps k = None" for k
      using keys by (auto simp: map_of_eq_None_iff)
    have "(if k \<in> set ks \<and> \<not> is_reserved_header k then map_of ?ps k else None) = env_headers e k" for k
      using w(2) [of k] w(3) [of k] out [of k] by (cases "is_reserved_header k"; cases "k \<in> set ks") auto
    moreover have "(if k \<in> set ks \<and> is_reserved_header k then map_of ?ps k else None)
        = (env_protocol_headers e ++ map_of (sec_pairs sec)) k" for k
      using w(2) [of k] w(4) [of k] out [of k]
      by (cases "is_reserved_header k"; cases "k \<in> set ks") (auto simp: map_add_def)
    ultimately show ?thesis by (simp only:)
  qed
  moreover have "length ks \<le> max_headers lim"
    using e(3) perm by (metis length_map size_mset)
  moreover have "check_lengths KeyBytes (max_key_bytes lim) ks = Inr ()"
    using val by (auto simp: check_lengths_ok)
  ultimately show ?thesis
    by (auto simp: decode_headers_def)
qed

section \<open>Properties\<close>

text \<open>
  C39. Measuring a header value computes its size. The walk over an explicit stack ends for
  every value, however deeply nested, and agrees with the recursive sum of the bytes of its
  nodes: the value is accepted exactly if that sum is within the limit, and then the result
  is the sum; otherwise the limit error is returned with a size above the limit.
\<close>

theorem measure_value_correct:
  assumes "mx < usize_max"
  shows "if tree_bytes v \<le> mx then measure_value v mx = Inr (tree_bytes v)
    else \<exists>a. mx < a \<and> measure_value v mx = Inl (MetadataLimitExceeded ValueBytes a mx)"
  using measure_loop_correct [of mx 0 "[v]"] assms by (simp add: measure_value_def del: measure_loop.simps)

theorem measure_value_correct_witness:
  "measure_value (FieldArray [LongString ''abc'', FieldTable [(''k'', LongUInt 7)]]) 8 = Inr 8"
  using measure_value_correct [of 8 "FieldArray [LongString ''abc'', FieldTable [(''k'', LongUInt 7)]]"]
  by (simp add: usize_max_def)

text \<open>
  C38. Metadata round trip. What the encoder accepts the decoder returns: for an envelope whose
  protocol and security headers are in canonical lower case, decoding the encoded field table
  under the same limits gives back the application headers and, apart from them, the protocol
  headers together with the security headers, whatever order the tables are iterated in.
\<close>

theorem metadata_roundtrip:
  assumes "headers_wf hks pks e sec" and "encode_headers hks pks e lim sec = Inr t"
    and "key_order ks t"
  shows "decode_headers ks (Some t) lim =
    Inr (env_headers e, env_protocol_headers e ++ map_of (sec_pairs sec))"
  using assms by (rule decode_encoded)

definition plain_envelope :: bus_envelope where
  "plain_envelope = envelope_restore_from_transport 1 ''orders.placed'' [] 2 None
     [''tenant'' \<mapsto> ''acme''] [deadline_header \<mapsto> ''12''] 0"

theorem metadata_roundtrip_witness:
  "\<exists>t. encode_headers [''tenant''] [deadline_header] plain_envelope metadata_limits_default
      (Some [(key_id_header, ''k1'')]) = Inr t
    \<and> decode_headers [deadline_header, ''tenant'', key_id_header] (Some t) metadata_limits_default =
      Inr ([''tenant'' \<mapsto> ''acme''], [deadline_header \<mapsto> ''12'', key_id_header \<mapsto> ''k1''])"
proof -
  have str: "is_utf8 ''acme''" "is_utf8 ''12''" "is_utf8 ''k1''" "\<not> is_reserved_header ''tenant''"
    "\<not> has_ascii_uppercase deadline_header" "\<not> has_ascii_uppercase key_id_header"
    by code_simp+
  have res: "is_reserved_header key_id_header"
    by (simp add: security_headers_reserved is_security_header_def security_headers_def)
  have neq: "deadline_header \<noteq> key_id_header" "deadline_header \<noteq> ''tenant''" "key_id_header \<noteq> ''tenant''"
    by (simp_all add: deadline_header_def key_id_header_def)
  have wf: "headers_wf [''tenant''] [deadline_header] plain_envelope (Some [(key_id_header, ''k1'')])"
    using str res neq
    by (simp add: headers_wf_def key_order_def plain_envelope_def envelope_restore_from_transport_def
        canonical_key_def sec_pairs_def all_headers_def wire_headers_def header_pairs_def)
  have enc: "encode_headers [''tenant''] [deadline_header] plain_envelope metadata_limits_default
      (Some [(key_id_header, ''k1'')]) =
    Inr [''tenant'' \<mapsto> LongString ''acme'', deadline_header \<mapsto> LongString ''12'', key_id_header \<mapsto> LongString ''k1'']"
    using str
    by (simp add: encode_headers_def plain_envelope_def envelope_restore_from_transport_def
        validate_application_headers_def sec_pairs_def all_headers_def wire_headers_def header_pairs_def
        metadata_limits_default_def usize_saturating_add_def usize_max_def to_short_string_def)
      (simp add: deadline_header_def key_id_header_def)
  show ?thesis
    using metadata_roundtrip [OF wf enc, of "[deadline_header, ''tenant'', key_id_header]"] enc neq
    by (auto simp: key_order_def plain_envelope_def envelope_restore_from_transport_def sec_pairs_def)
qed

end
