(* ===== verification/Amqp_Delivery.thy ===== *)
theory Amqp_Delivery
  imports Amqp_Metadata
begin

text \<open>
  What crosses the broker: the AMQP properties built from an envelope, publishing with one
  retry across a channel recovery, publisher confirms, and the envelope rebuilt from a
  delivery (\<open>crates/hexeract-bus-rabbitmq/src/{transport,confirm,envelope_security}.rs\<close> and
  the decoding part of \<open>worker.rs\<close>).

  The driver \<open>lapin\<close> and the crate \<open>uuid\<close> are third-party code. Properties are the record
  \<open>basic_properties\<close>; what the driver answers to one publish attempt is a \<open>publish_attempt\<close>;
  printing and parsing of UUIDs is the record \<open>uuid_codec\<close>, with \<open>uuid_codec_ok\<close> for what is
  relied on. The clock and freshly minted identifiers are arguments.
\<close>

section \<open>Identifiers and authentication\<close>

record uuid_codec =
  uc_parse :: "string \<Rightarrow> uuid option"
  uc_show :: "uuid \<Rightarrow> string"

definition uuid_codec_ok :: "uuid_codec \<Rightarrow> bool" where
  "uuid_codec_ok uc \<longleftrightarrow> (\<forall>u. uc_parse uc (uc_show uc u) = Some u)"

section \<open>Properties\<close>

record basic_properties =
  bp_content_type :: "string option"
  bp_content_encoding :: "string option"
  bp_headers :: "field_table option"
  bp_delivery_mode :: "nat option"
  bp_priority :: "nat option"
  bp_correlation_id :: "string option"
  bp_reply_to :: "string option"
  bp_expiration :: "string option"
  bp_message_id :: "string option"
  bp_timestamp :: "nat option"
  bp_kind :: "string option"
  bp_user_id :: "string option"
  bp_app_id :: "string option"
  bp_cluster_id :: "string option"

definition basic_properties_default :: basic_properties where
  "basic_properties_default =
     \<lparr>bp_content_type = None, bp_content_encoding = None, bp_headers = None, bp_delivery_mode = None,
      bp_priority = None, bp_correlation_id = None, bp_reply_to = None, bp_expiration = None,
      bp_message_id = None, bp_timestamp = None, bp_kind = None, bp_user_id = None,
      bp_app_id = None, bp_cluster_id = None\<rparr>"

definition json_content_type :: string where
  "json_content_type = ''application/json''"

fun opt_short_string :: "string option \<Rightarrow> string \<Rightarrow> (bus_error, string option) result" where
  "opt_short_string None field = Inr None"
| "opt_short_string (Some val) field = rbind (to_short_string val field) (\<lambda>s. Inr (Some s))"

definition published_at_secs :: "systime \<Rightarrow> nat" where
  "published_at_secs t =
     as_secs (case duration_since t unix_epoch of Inl _ \<Rightarrow> 0 | Inr d \<Rightarrow> d)"

definition envelope_to_properties ::
  "uuid_codec \<Rightarrow> string list \<Rightarrow> string list \<Rightarrow> bus_envelope \<Rightarrow> metadata_limits \<Rightarrow>
   (string \<times> string) list option \<Rightarrow> string option \<Rightarrow> (bus_error, basic_properties) result"
where
  "envelope_to_properties uc hks pks e lim sec user =
     rbind (encode_headers hks pks e lim sec) (\<lambda>headers.
     rbind (to_short_string (env_message_type e) ''message type'') (\<lambda>kind.
     let properties = basic_properties_default
       \<lparr>bp_message_id := Some (uc_show uc (env_message_id e)),
        bp_correlation_id := Some (uc_show uc (env_correlation_id e)),
        bp_content_type := Some json_content_type,
        bp_kind := Some kind,
        bp_delivery_mode := Some 2,
        bp_timestamp := Some (published_at_secs (env_published_at e)),
        bp_headers := Some headers\<rparr> in
     rbind (opt_short_string (env_reply_to e) ''reply_to'') (\<lambda>reply_to.
     rbind (opt_short_string user ''user id'') (\<lambda>user_id.
     Inr (properties\<lparr>bp_reply_to := reply_to, bp_user_id := user_id\<rparr>)))))"

section \<open>Confirms\<close>

datatype confirmation =
    ConfAck "(string \<times> nat) option"
  | ConfNack "(string \<times> nat) option"
  | NotRequested

fun confirmation_to_result :: "confirmation \<Rightarrow> string \<Rightarrow> string \<Rightarrow> (bus_error, unit) result" where
  "confirmation_to_result (ConfAck None) ctx rk = Inr ()"
| "confirmation_to_result (ConfAck (Some (reply_text, code))) ctx rk = Inl (Unroutable rk reply_text code)"
| "confirmation_to_result (ConfNack (Some (reply_text, code))) ctx rk = Inl (Unroutable rk reply_text code)"
| "confirmation_to_result (ConfNack None) ctx rk = Inl (Transport (ctx @ '' nacked by the broker''))"
| "confirmation_to_result NotRequested ctx rk =
     Inl (BusInternal (ctx @ '' completed without publisher confirms enabled''))"

section \<open>Publishing\<close>

record ('sk, 'vk) outbound_security =
  os_issuer :: string
  os_audience :: string
  os_current_key :: "(key_source_error, string \<times> 'sk) result"
  os_crypto :: "('sk, 'vk) crypto"
  os_binds_issuer_to_broker_user :: bool

definition outbound_sign ::
  "('sk, 'vk) outbound_security \<Rightarrow> string list \<Rightarrow> string list \<Rightarrow> bus_envelope \<Rightarrow> string \<Rightarrow>
   (envelope_security_error, (string \<times> string) list) result"
where
  "outbound_sign s hks pks e dest =
     sign (os_crypto s) (os_issuer s) (os_current_key s) hks pks e dest (os_audience s)"

definition broker_user_id :: "('sk, 'vk) outbound_security \<Rightarrow> string option" where
  "broker_user_id s = (if os_binds_issuer_to_broker_user s then Some (os_issuer s) else None)"

record ('sk, 'vk) amqp_transport =
  tr_exchange :: string
  tr_metadata_limits :: metadata_limits
  tr_envelope_security :: "('sk, 'vk) outbound_security option"
  tr_confirms :: bool

text \<open>One \<open>basic_publish\<close>: what is sent, and what the driver answers at each await.\<close>

record publication =
  pub_exchange :: string
  pub_routing_key :: string
  pub_mandatory :: bool
  pub_payload :: "byte list"
  pub_properties :: basic_properties

record publish_attempt =
  pa_acquire :: "(bus_error, unit) result"
  pa_outcome :: "(string, confirmation) result"
  pa_recovery :: "(string, unit) result"

function publish_with_recovery ::
  "(nat \<Rightarrow> publish_attempt) \<Rightarrow> publication \<Rightarrow> bool \<Rightarrow> nat \<Rightarrow> (bus_error, confirmation) result \<times> publication list"
where
  "publish_with_recovery att p recovered n =
     (case pa_acquire (att n) of
        Inl err \<Rightarrow> (Inl err, [])
      | Inr _ \<Rightarrow>
          (case pa_outcome (att n) of
             Inr confirmation \<Rightarrow> (Inr confirmation, [p])
           | Inl err \<Rightarrow>
               if recovered then (Inl (Transport err), [p])
               else (case pa_recovery (att n) of
                       Inr _ \<Rightarrow> (let (r, ps) = publish_with_recovery att p True (Suc n) in (r, p # ps))
                     | Inl err' \<Rightarrow> (Inl (Transport err'), [p]))))"
  by pat_completeness auto
termination publish_with_recovery
  by (relation "measure (\<lambda>(_, _, recovered, _). if recovered then 0 else 1)") auto

declare publish_with_recovery.simps [simp del]

text \<open>Signing and encoding, once, before the publish loop.\<close>

definition prepare_publication ::
  "uuid_codec \<Rightarrow> string list \<Rightarrow> string list \<Rightarrow> ('sk, 'vk) amqp_transport \<Rightarrow> string \<Rightarrow> bus_envelope \<Rightarrow>
   (bus_error, publication) result"
where
  "prepare_publication uc hks pks tr rk e =
     rbind (case tr_envelope_security tr of
              None \<Rightarrow> Inr None
            | Some s \<Rightarrow> rbind (map_err EnvelopeSecurity (outbound_sign s hks pks e rk)) (\<lambda>hs. Inr (Some hs)))
       (\<lambda>sec.
     rbind (envelope_to_properties uc hks pks e (tr_metadata_limits tr) sec
              (case tr_envelope_security tr of None \<Rightarrow> None | Some s \<Rightarrow> broker_user_id s)) (\<lambda>properties.
     rbind (to_short_string (tr_exchange tr) ''exchange name'') (\<lambda>exchange.
     rbind (to_short_string rk ''routing key'') (\<lambda>routing_key.
     Inr \<lparr>pub_exchange = exchange, pub_routing_key = routing_key, pub_mandatory = tr_confirms tr,
          pub_payload = env_payload e, pub_properties = properties\<rparr>))))"

definition publish_envelope ::
  "uuid_codec \<Rightarrow> (nat \<Rightarrow> publish_attempt) \<Rightarrow> string list \<Rightarrow> string list \<Rightarrow> ('sk, 'vk) amqp_transport \<Rightarrow>
   string \<Rightarrow> bus_envelope \<Rightarrow> (bus_error, uuid) result \<times> publication list"
where
  "publish_envelope uc att hks pks tr rk e =
     (case prepare_publication uc hks pks tr rk e of
        Inl err \<Rightarrow> (Inl err, [])
      | Inr p \<Rightarrow>
          (let (r, sent) = publish_with_recovery att p False 0 in
           (rbind r (\<lambda>confirmation.
            rbind (if tr_confirms tr then confirmation_to_result confirmation ''publish'' rk else Inr ()) (\<lambda>_.
            Inr (env_message_id e))), sent)))"

definition publish_raw ::
  "uuid_codec \<Rightarrow> (nat \<Rightarrow> publish_attempt) \<Rightarrow> systime \<Rightarrow> ('sk, 'vk) amqp_transport \<Rightarrow>
   string \<Rightarrow> uuid \<Rightarrow> string \<Rightarrow> byte list \<Rightarrow> (bus_error, unit) result \<times> publication list"
where
  "publish_raw uc att now tr rk mid mtype bytes =
     (let (r, sent) = publish_envelope uc att [] [] tr rk
            (envelope_restore mid mtype bytes mid None Map.empty now)
      in (rbind r (\<lambda>_. Inr ()), sent))"

section \<open>Decoding a delivery\<close>

datatype required_envelope_fields = Lenient | Strict

definition derive_required_envelope_fields :: "verification_policy option \<Rightarrow> required_envelope_fields" where
  "derive_required_envelope_fields sec =
     (case sec of
        None \<Rightarrow> Lenient
      | Some p \<Rightarrow> if allows_unauthenticated_envelopes p then Lenient else Strict)"

text \<open>The two identifier properties are read by the same code.\<close>

definition identifier_property ::
  "uuid_codec \<Rightarrow> bool \<Rightarrow> uuid \<Rightarrow> string \<Rightarrow> string option \<Rightarrow> (bus_error, uuid) result"
where
  "identifier_property uc strict fresh_id field prop =
     (case prop of
        Some raw \<Rightarrow>
          (case uc_parse uc raw of
             Some u \<Rightarrow> Inr u
           | None \<Rightarrow>
               if strict then Inl (EnvelopeSecurity (MalformedRequiredField field)) else Inr fresh_id)
      | None \<Rightarrow> if strict then Inl (EnvelopeSecurity (MissingRequiredField field)) else Inr fresh_id)"

definition delivery_to_envelope ::
  "uuid_codec \<Rightarrow> uuid \<Rightarrow> uuid \<Rightarrow> systime \<Rightarrow> string list \<Rightarrow> basic_properties \<Rightarrow> byte list \<Rightarrow> nat \<Rightarrow>
   metadata_limits \<Rightarrow> required_envelope_fields \<Rightarrow> (bus_error, bus_envelope) result"
where
  "delivery_to_envelope uc fresh_mid fresh_cid now ks props payload max_payload lim required =
     (if length payload > max_payload then Inl (PayloadTooLarge (length payload) max_payload) else
      rbind (decode_headers ks (bp_headers props) lim) (\<lambda>(headers, protocol_headers).
      let strict = (protocol_headers signature_header \<noteq> None \<or> required = Strict) in
      rbind (identifier_property uc strict fresh_mid ''message_id'' (bp_message_id props)) (\<lambda>mid.
      rbind (identifier_property uc strict fresh_cid ''correlation_id'' (bp_correlation_id props)) (\<lambda>cid.
      rbind (ok_or (bp_kind props) (InvalidTopology
        ''rabbitmq delivery missing AMQP `type` property (envelope message_type)'')) (\<lambda>mtype.
      rbind (case bp_timestamp props of
               Some secs \<Rightarrow>
                 ok_or (systime_checked_add unix_epoch (from_secs secs))
                   (EnvelopeSecurity (MalformedRequiredField ''published_at''))
             | None \<Rightarrow>
                 if strict then Inl (EnvelopeSecurity (MissingRequiredField ''published_at''))
                 else Inr now) (\<lambda>at.
      Inr (envelope_restore_from_transport mid mtype payload cid (bp_reply_to props)
             headers protocol_headers at)))))))"

fun authentication_from_verification ::
  "'i option \<Rightarrow> verified_principal option \<Rightarrow> publisher_authentication"
where
  "authentication_from_verification _ (Some p) = Authenticated (vp_issuer p)"
| "authentication_from_verification (Some _) None = WaivedUnsigned"
| "authentication_from_verification None None = NotEnforced"

section \<open>Lemmas: publishing\<close>

lemma publish_with_recovery_sent:
  "length (snd (publish_with_recovery att p recovered n)) \<le> (if recovered then 1 else 2)
   \<and> set (snd (publish_with_recovery att p recovered n)) \<subseteq> {p}"
proof -
  have one: "length (snd (publish_with_recovery att p True n)) \<le> 1
      \<and> set (snd (publish_with_recovery att p True n)) \<subseteq> {p}" for n
    by (subst (1 2) publish_with_recovery.simps) (auto split: sum.splits)
  show ?thesis
  proof (cases recovered)
    case True
    then show ?thesis using one by simp
  next
    case False
    then show ?thesis
      using one [of "Suc n"]
      by (subst (1 2) publish_with_recovery.simps) (auto split: sum.splits prod.splits)
  qed
qed

lemma to_short_string_Inr: "to_short_string val field = Inr s \<longleftrightarrow> length val \<le> 255 \<and> s = val"
  by (auto simp: to_short_string_def)

lemma opt_short_string_Inr:
  "opt_short_string val field = Inr s \<Longrightarrow> s = val"
  by (cases val) (auto simp: to_short_string_Inr result_simps)

lemma envelope_to_properties_Inr:
  assumes "envelope_to_properties uc hks pks e lim sec user = Inr props"
  obtains t where "encode_headers hks pks e lim sec = Inr t" "bp_headers props = Some t"
    "bp_message_id props = Some (uc_show uc (env_message_id e))"
    "bp_correlation_id props = Some (uc_show uc (env_correlation_id e))"
    "bp_kind props = Some (env_message_type e)" "bp_reply_to props = env_reply_to e"
    "bp_user_id props = user" "bp_timestamp props = Some (published_at_secs (env_published_at e))"
    "bp_delivery_mode props = Some 2"
  using assms
  by (auto simp: envelope_to_properties_def result_simps Let_def to_short_string_Inr basic_properties_default_def
      dest!: opt_short_string_Inr)

lemma publish_envelope_sent:
  "set (snd (publish_envelope uc att hks pks tr rk e)) \<subseteq>
     (case prepare_publication uc hks pks tr rk e of Inl _ \<Rightarrow> {} | Inr p \<Rightarrow> {p})"
proof (cases "prepare_publication uc hks pks tr rk e")
  case (Inr p)
  then show ?thesis
    using publish_with_recovery_sent [of att p False 0] by (auto simp: publish_envelope_def split: prod.splits)
qed (simp add: publish_envelope_def)

lemma prepare_publication_Inr:
  assumes "prepare_publication uc hks pks tr rk e = Inr p" "tr_envelope_security tr = Some s"
  obtains hs where "outbound_sign s hks pks e rk = Inr hs"
    "envelope_to_properties uc hks pks e (tr_metadata_limits tr) (Some hs) (broker_user_id s) = Inr (pub_properties p)"
    "pub_payload p = env_payload e" "pub_routing_key p = rk"
  using assms by (auto simp: prepare_publication_def result_simps to_short_string_Inr)

section \<open>Lemmas: from publisher to consumer\<close>

lemma published_at_restored:
  assumes "0 \<le> env_published_at e" "env_published_at e \<le> systime_max"
  obtains at where
    "systime_checked_add unix_epoch (from_secs (published_at_secs (env_published_at e))) = Some at"
    "duration_since at unix_epoch = Inr (from_secs (published_at_secs (env_published_at e)))"
    "epoch_secs (x\<lparr>env_published_at := at\<rparr>) = epoch_secs e"
proof -
  let ?d = "nat (env_published_at e)"
  have secs: "published_at_secs (env_published_at e) = ?d div nanos_per_sec"
    using assms(1) by (simp add: published_at_secs_def duration_since_def unix_epoch_def as_secs_def)
  have "?d div nanos_per_sec * nanos_per_sec \<le> ?d" by simp
  then have "int (?d div nanos_per_sec * nanos_per_sec) \<le> systime_max"
    using assms by linarith
  then have "systime_checked_add unix_epoch (from_secs (published_at_secs (env_published_at e)))
      = Some (int (?d div nanos_per_sec * nanos_per_sec))"
    by (simp add: systime_checked_add_def unix_epoch_def from_secs_def secs)
  then show ?thesis
    using assms(1) that
    by (auto simp: duration_since_def unix_epoch_def from_secs_def secs epoch_secs_def as_secs_def
        of_nat_mult [symmetric] simp del: of_nat_mult)
qed

lemma security_values:
  assumes "sign cr issuer (Inr (kid, sk)) hks pks e dest aud = Inr hs"
  obtains sig where "hs = [(signature_header, cr_base64_encode cr sig), (key_id_header, kid),
      (issuer_header, issuer), (audience_header, aud), (algorithm_header, ''ed25519''),
      (destination_header, dest)]"
  using assms by (auto simp: sign_def result_simps Let_def)

lemma utf8_ascii: "list_all (\<lambda>n. n < 0x80) bs \<Longrightarrow> utf8_valid bs"
  by (induction bs) auto

lemma identity_utf8: "validate_identity val kind = Inr () \<Longrightarrow> is_utf8 val"
  unfolding is_utf8_def
  by (rule utf8_ascii)
    (auto simp: validate_identity_def is_ascii_graphic_def list_all_iff Let_def split: if_splits)

lemma security_header_names:
  "distinct [signature_header, key_id_header, issuer_header, audience_header, algorithm_header, destination_header]"
  "is_security_header k \<Longrightarrow> canonical_key k"
proof -
  show "distinct [signature_header, key_id_header, issuer_header, audience_header, algorithm_header, destination_header]"
    by (simp add: security_header_defs)
  have "\<not> has_ascii_uppercase signature_header" "\<not> has_ascii_uppercase key_id_header"
    "\<not> has_ascii_uppercase issuer_header" "\<not> has_ascii_uppercase audience_header"
    "\<not> has_ascii_uppercase algorithm_header" "\<not> has_ascii_uppercase destination_header"
    by code_simp+
  then show "is_security_header k \<Longrightarrow> canonical_key k"
    by (auto simp: canonical_key_def security_headers_reserved is_security_header_def security_headers_def)
qed

lemma covered_pairs_delivered:
  assumes "key_order hks (env_headers e)" "key_order pks (env_protocol_headers e)"
    and "key_order hks' (env_headers e')" "key_order pks' (env_protocol_headers e')"
    and "env_headers e' = env_headers e" "env_protocol_headers e' = env_protocol_headers e ++ map_of hs"
    and "\<forall>k \<in> set pks. \<not> is_security_header k" "\<forall>k \<in> fst ` set hs. is_security_header k"
    and "distinct (map fst hs)"
  shows "covered_pairs hks' pks' e' = covered_pairs hks pks e"
proof (rule covered_pairs_unique)
  let ?plain = "filter (\<lambda>(k, _). \<not> is_security_header k)"
  have disj: "set pks \<inter> fst ` set hs = {}"
    using assms(7,8) by blast
  have ord: "key_order (pks @ map fst hs) (env_protocol_headers e')"
    using assms(2,9) disj by (auto simp: key_order_def assms(6) dom_map_of_conv_image_fst)
  have "map_of hs k = None" if "k \<in> set pks" for k
    using that disj by (auto simp: map_of_eq_None_iff)
  then have "header_pairs pks (env_protocol_headers e') = header_pairs pks (env_protocol_headers e)"
    unfolding header_pairs_def assms(6) map_add_def by (intro map_cong filter_cong) auto
  moreover have "?plain (header_pairs (map fst hs) m) = []" for m
    using assms(8) by (auto simp: header_pairs_def filter_empty_conv)
  ultimately have "?plain (header_pairs (pks @ map fst hs) (env_protocol_headers e'))
      = ?plain (header_pairs pks (env_protocol_headers e))"
    by (simp add: header_pairs_def)
  then have "mset (?plain (header_pairs pks' (env_protocol_headers e')))
      = mset (?plain (header_pairs pks (env_protocol_headers e)))"
    using header_pairs_mset [OF assms(4) ord] by (metis mset_filter)
  moreover have "mset (header_pairs hks' (env_headers e')) = mset (header_pairs hks (env_headers e))"
    using header_pairs_mset [of hks' "env_headers e" hks] assms(1,3,5) by simp
  ultimately show "mset (?plain (wire_headers hks' pks' e')) = mset (?plain (wire_headers hks pks e))"
    by (simp add: wire_headers_def mset_filter)
qed

text \<open>
  What the types of the configuration guarantee of an outbound security: validated identities, a
  current key, sound signatures, and base64 output that is a string.
\<close>

definition outbound_security_ok :: "('sk, 'vk) outbound_security \<Rightarrow> string \<Rightarrow> 'sk \<Rightarrow> bool" where
  "outbound_security_ok s kid sk \<longleftrightarrow>
     crypto_ok (os_crypto s) \<and> (\<forall>b. is_utf8 (cr_base64_encode (os_crypto s) b))
     \<and> os_current_key s = Inr (kid, sk)
     \<and> validate_identity (os_issuer s) IssuerKind = Inr ()
     \<and> validate_identity (os_audience s) AudienceKind = Inr ()
     \<and> validate_identity kid KeyIdKind = Inr ()"

lemma headers_wf_signed:
  assumes wf: "headers_wf hks pks e None" "\<forall>k \<in> set pks. \<not> is_security_header k"
    and s: "outbound_security_ok s kid sk" "outbound_sign s hks pks e rk = Inr hs" "is_utf8 rk"
  shows "headers_wf hks pks e (Some hs)" "distinct (map fst hs)" "\<forall>k \<in> fst ` set hs. is_security_header k"
    "\<forall>(k, v) \<in> set hs. map_of hs k = Some v \<and> is_reserved_header k" "fst ` set hs = set security_headers"
proof -
  obtain sig where hs: "hs = [(signature_header, cr_base64_encode (os_crypto s) sig), (key_id_header, kid),
      (issuer_header, os_issuer s), (audience_header, os_audience s), (algorithm_header, ''ed25519''),
      (destination_header, rk)]"
    using s security_values [of "os_crypto s" "os_issuer s" kid sk hks pks e rk "os_audience s" hs]
    by (auto simp: outbound_sign_def outbound_security_ok_def)
  show dist: "distinct (map fst hs)"
    using security_header_names(1) by (simp add: hs)
  show "fst ` set hs = set security_headers"
    by (simp add: hs security_headers_def)
  show sec: "\<forall>k \<in> fst ` set hs. is_security_header k"
    by (simp add: hs is_security_header_def security_headers_def)
  have "is_utf8 ''ed25519''" by code_simp
  moreover have "is_utf8 (os_issuer s)" "is_utf8 (os_audience s)" "is_utf8 kid"
    "is_utf8 (cr_base64_encode (os_crypto s) sig)"
    using s(1) by (auto simp: outbound_security_ok_def intro: identity_utf8)
  ultimately have "\<forall>(k, v) \<in> set hs. is_utf8 v"
    using s(3) by (simp add: hs)
  moreover have "set pks \<inter> fst ` set hs = {}"
    using sec wf(2) by blast
  moreover have "\<forall>k \<in> fst ` set hs. canonical_key k"
    using sec security_header_names(2) by blast
  ultimately show "headers_wf hks pks e (Some hs)"
    using wf(1) dist by (auto simp: headers_wf_def sec_pairs_def all_headers_def)
  show "\<forall>(k, v) \<in> set hs. map_of hs k = Some v \<and> is_reserved_header k"
    using dist sec security_header_names(2) by (auto simp: canonical_key_def)
qed

lemma delivered_envelope:
  assumes uc: "uuid_codec_ok uc" and wf: "headers_wf hks pks e sec"
    and props: "envelope_to_properties uc hks pks e lim sec user = Inr props"
    and at: "0 \<le> env_published_at e" "env_published_at e \<le> systime_max"
    and len: "length (env_payload e) \<le> max_payload"
    and ks: "key_order ks (the (bp_headers props))"
  obtains at where
    "delivery_to_envelope uc f\<^sub>1 f\<^sub>2 now ks props (env_payload e) max_payload lim req =
      Inr (e\<lparr>env_protocol_headers := env_protocol_headers e ++ map_of (sec_pairs sec), env_published_at := at\<rparr>)"
    "epoch_secs (e\<lparr>env_protocol_headers := env_protocol_headers e ++ map_of (sec_pairs sec),
       env_published_at := at\<rparr>) = epoch_secs e"
proof -
  let ?x = "e\<lparr>env_protocol_headers := env_protocol_headers e ++ map_of (sec_pairs sec)\<rparr>"
  obtain t where t: "encode_headers hks pks e lim sec = Inr t" "bp_headers props = Some t"
    "bp_message_id props = Some (uc_show uc (env_message_id e))"
    "bp_correlation_id props = Some (uc_show uc (env_correlation_id e))"
    "bp_kind props = Some (env_message_type e)" "bp_reply_to props = env_reply_to e"
    "bp_timestamp props = Some (published_at_secs (env_published_at e))"
    using props by (rule envelope_to_properties_Inr)
  obtain at' where at': "systime_checked_add unix_epoch (from_secs (published_at_secs (env_published_at e))) = Some at'"
    "epoch_secs (?x\<lparr>env_published_at := at'\<rparr>) = epoch_secs e"
    using at by (rule published_at_restored [where x = ?x])
  have "decode_headers ks (Some t) lim =
      Inr (env_headers e, env_protocol_headers e ++ map_of (sec_pairs sec))"
    using wf t(1) by (rule decode_encoded) (use ks t(2) in simp)
  then have "delivery_to_envelope uc f\<^sub>1 f\<^sub>2 now ks props (env_payload e) max_payload lim req =
      Inr (?x\<lparr>env_published_at := at'\<rparr>)"
    using uc len t(2-) at'(1)
    by (simp add: delivery_to_envelope_def identifier_property_def uuid_codec_ok_def
        envelope_restore_from_transport_def)
  then show ?thesis using at'(2) by (rule that)
qed

lemma confirmation_ok: "confirmation_to_result c ctx rk = Inr () \<longleftrightarrow> c = ConfAck None"
  by (cases "(c, ctx, rk)" rule: confirmation_to_result.cases) auto

lemma publish_with_recovery_ok:
  assumes "fst (publish_with_recovery att p recovered n) = Inr c"
  shows "\<exists>i \<in> {n, Suc n}. pa_outcome (att i) = Inr c
    \<and> snd (publish_with_recovery att p recovered n) = replicate (Suc (i - n)) p"
proof -
  have one: "pa_outcome (att n) = Inr c \<and> snd (publish_with_recovery att p True n) = [p]"
    if "fst (publish_with_recovery att p True n) = Inr c" for n
    using that by (auto simp: publish_with_recovery.simps [of att p True n] split: sum.splits)
  show ?thesis
    using assms one [of n] one [of "Suc n"]
    by (cases recovered) (auto simp: publish_with_recovery.simps [of att p False n]
        split: sum.splits prod.splits)
qed

section \<open>Properties\<close>

text \<open>
  A successful publish with confirms means the broker has the message. The result is the
  message identifier only if the last attempt was acknowledged with nothing returned, the
  message was sent at most twice, and both times the very same message: properties and
  signature are computed once, before the first attempt.
\<close>

theorem publish_success_confirmed:
  assumes "tr_confirms tr" and "fst (publish_envelope uc att hks pks tr rk e) = Inr mid"
  shows "mid = env_message_id e \<and>
    (\<exists>p i. prepare_publication uc hks pks tr rk e = Inr p \<and> i \<le> 1 \<and> pa_outcome (att i) = Inr (ConfAck None)
       \<and> snd (publish_envelope uc att hks pks tr rk e) = replicate (Suc i) p)"
proof -
  obtain p where p: "prepare_publication uc hks pks tr rk e = Inr p"
    using assms(2) by (cases "prepare_publication uc hks pks tr rk e") (auto simp: publish_envelope_def)
  obtain c where c: "fst (publish_with_recovery att p False 0) = Inr c" "confirmation_to_result c ''publish'' rk = Inr ()"
    and mid: "mid = env_message_id e"
    using assms p by (auto simp: publish_envelope_def result_simps split: prod.splits)
  obtain i where "i \<in> {0, Suc 0}" "pa_outcome (att i) = Inr c"
    "snd (publish_with_recovery att p False 0) = replicate (Suc i) p"
    using publish_with_recovery_ok [OF c(1)] unfolding diff_zero by blast
  then show ?thesis
    using c(2) p mid by (auto simp: confirmation_ok publish_envelope_def split: prod.splits)
qed

text \<open>
  C4. A signed message verifies at its destination. Whatever a signing transport hands to the
  broker for a routing key decodes, under the same limits, to an envelope with the identifiers,
  type, payload, reply destination and application headers that were published, and the
  verifier of that destination accepts it and names the issuer, audience and key of the signer,
  in whatever order the header maps are iterated.
\<close>

theorem signed_publish_verifies:
  assumes uc: "uuid_codec_ok uc" and wf: "headers_wf hks pks e None" "\<forall>k \<in> set pks. \<not> is_security_header k"
    and tr: "tr_envelope_security tr = Some s" "outbound_security_ok s kid sk" "is_utf8 rk"
    and at: "0 \<le> env_published_at e" "env_published_at e \<le> systime_max"
    and sent: "p \<in> set (snd (publish_envelope uc att hks pks tr rk e))"
    and len: "length (pub_payload p) \<le> max_payload"
    and ks: "key_order ks (the (bp_headers (pub_properties p)))"
    and accept: "os_audience s \<in> set (accepted_audiences cfg)"
    and key: "ks_verification_key src (os_issuer s) kid (vs_keys st) = Inr (cr_public (os_crypto s) sk)"
  shows "\<exists>e'. delivery_to_envelope uc f\<^sub>1 f\<^sub>2 now ks (pub_properties p) (pub_payload p) max_payload
        (tr_metadata_limits tr) req = Inr e'
    \<and> env_message_id e' = env_message_id e \<and> env_correlation_id e' = env_correlation_id e
    \<and> env_message_type e' = env_message_type e \<and> env_payload e' = env_payload e
    \<and> env_reply_to e' = env_reply_to e \<and> env_headers e' = env_headers e
    \<and> dom (env_protocol_headers e') = dom (env_protocol_headers e) \<union> set security_headers
    \<and> (\<forall>hks' pks'. key_order hks' (env_headers e') \<and> key_order pks' (env_protocol_headers e') \<longrightarrow>
         verify (os_crypto s) src cfg inst hks' pks' e' rk st =
           (Inr (Some \<lparr>vp_issuer = os_issuer s, vp_audience = os_audience s, vp_key_id = kid,
                       vp_algorithm = Ed25519\<rparr>), st))"
proof -
  have "prepare_publication uc hks pks tr rk e = Inr p"
    using sent publish_envelope_sent [of uc att hks pks tr rk e] by (auto split: sum.splits)
  then obtain hs where hs: "outbound_sign s hks pks e rk = Inr hs"
    and props: "envelope_to_properties uc hks pks e (tr_metadata_limits tr) (Some hs) (broker_user_id s)
      = Inr (pub_properties p)" and load: "pub_payload p = env_payload e"
    using tr(1) by (rule prepare_publication_Inr)
  note signed = headers_wf_signed [OF wf tr(2) hs tr(3)]
  let ?prot = "env_protocol_headers e ++ map_of (sec_pairs (Some hs))"
  obtain at where del: "delivery_to_envelope uc f\<^sub>1 f\<^sub>2 now ks (pub_properties p) (env_payload e) max_payload
      (tr_metadata_limits tr) req = Inr (e\<lparr>env_protocol_headers := ?prot, env_published_at := at\<rparr>)"
    and secs: "epoch_secs (e\<lparr>env_protocol_headers := ?prot, env_published_at := at\<rparr>) = epoch_secs e"
    by (rule delivered_envelope [OF uc signed(1) props at _ ks]) (use len load in auto)
  let ?e' = "e\<lparr>env_protocol_headers := ?prot, env_published_at := at\<rparr>"
  have ok: "crypto_ok (os_crypto s)" "os_current_key s = Inr (kid, sk)"
    and ids: "validate_identity (os_issuer s) IssuerKind = Inr ()"
      "validate_identity (os_audience s) AudienceKind = Inr ()" "validate_identity kid KeyIdKind = Inr ()"
    using tr(2) by (auto simp: outbound_security_ok_def)
  have ver: "verify (os_crypto s) src cfg inst hks' pks' ?e' rk st =
      (Inr (Some \<lparr>vp_issuer = os_issuer s, vp_audience = os_audience s, vp_key_id = kid,
                  vp_algorithm = Ed25519\<rparr>), st)"
    if ord: "key_order hks' (env_headers ?e')" "key_order pks' (env_protocol_headers ?e')" for hks' pks'
  proof (rule verify_signed [where hks = hks and pks = pks and e = e and hs = hs])
    show "covered_pairs hks' pks' ?e' = covered_pairs hks pks e"
      by (rule covered_pairs_delivered [where hs = hs])
        (use ord wf signed in \<open>auto simp: headers_wf_def sec_pairs_def\<close>)
    show "\<forall>(k, v) \<in> set hs. header ?e' k = Some v"
      using signed(4) by (auto simp: header_def sec_pairs_def)
    show "sign (os_crypto s) (os_issuer s) (Inr (kid, sk)) hks pks e rk (os_audience s) = Inr hs"
      using hs ok(2) by (simp add: outbound_sign_def)
  qed (use ok(1) ids accept key secs in \<open>auto simp: crypto_ok_def\<close>)
  have "dom (env_protocol_headers ?e') = dom (env_protocol_headers e) \<union> set security_headers"
    using signed(5) by (auto simp: sec_pairs_def dom_map_of_conv_image_fst)
  then show ?thesis
    using del ver load by auto
qed

text \<open>A concrete transport, for the witnesses.\<close>

definition decimal_codec :: uuid_codec where
  "decimal_codec = \<lparr>uc_parse = map_option word_of_nat \<circ> parse_digits, uc_show = show_nat \<circ> unat\<rparr>"

definition hex_encode :: "byte list \<Rightarrow> string" where
  "hex_encode bs = concat (map (\<lambda>b. [char_of (97 + unat b div 16), char_of (97 + unat b mod 16)]) bs)"

fun hex_decode :: "string \<Rightarrow> byte list" where
  "hex_decode (a # b # cs) = word_of_nat ((of_char a - 97) * 16 + (of_char b - 97)) # hex_decode cs"
| "hex_decode _ = []"

definition wire_crypto :: "(unit, unit) crypto" where
  "wire_crypto = sample_crypto
     \<lparr>cr_sign := \<lambda>_ m. be_bytes 8 (length m), cr_verify := \<lambda>_ m s. s = be_bytes 8 (length m),
      cr_base64_encode := hex_encode, cr_base64_decode := \<lambda>s. Some (hex_decode s)\<rparr>"

definition wire_security :: "(unit, unit) outbound_security" where
  "wire_security = \<lparr>os_issuer = ''billing'', os_audience = ''ledger'', os_current_key = Inr (''k1'', ()),
     os_crypto = wire_crypto, os_binds_issuer_to_broker_user = False\<rparr>"

definition wire_transport :: "(unit, unit) amqp_transport" where
  "wire_transport = \<lparr>tr_exchange = [], tr_metadata_limits = metadata_limits_default,
     tr_envelope_security = Some wire_security, tr_confirms = True\<rparr>"

definition flaky_broker :: "nat \<Rightarrow> publish_attempt" where
  "flaky_broker n = \<lparr>pa_acquire = Inr (),
     pa_outcome = (if n = 0 then Inl ''channel closed'' else Inr (ConfAck None)), pa_recovery = Inr ()\<rparr>"

lemma decimal_codec_ok: "uuid_codec_ok decimal_codec"
  by (simp add: uuid_codec_ok_def decimal_codec_def)

lemma byte_split: "unat (b :: byte) div 16 < 16" "unat b mod 16 < 16"
proof -
  have "unat b < 256"
    using unsigned_less [of b, where 'a = nat] by simp
  then show "unat b div 16 < 16" by (simp add: less_mult_imp_div_less)
qed simp

lemma hex_roundtrip: "hex_decode (hex_encode bs) = bs"
proof (induction bs)
  case (Cons b bs)
  have "(of_char (char_of (97 + unat b div 16) :: char) :: nat) = 97 + unat b div 16"
    "(of_char (char_of (97 + unat b mod 16) :: char) :: nat) = 97 + unat b mod 16"
    using byte_split [of b] by (simp_all add: of_char_of)
  then show ?case
    using Cons by (simp add: hex_encode_def)
qed (simp add: hex_encode_def)

lemma hex_utf8: "is_utf8 (hex_encode bs)"
proof -
  have "(97 + unat b div 16) mod 256 < 128" "(97 + unat b mod 16) mod 256 < 128" for b :: byte
    using byte_split [of b] by auto
  then show ?thesis
    unfolding is_utf8_def by (intro utf8_ascii) (auto simp: hex_encode_def list_all_iff of_char_of)
qed

lemma wire_security_ok: "outbound_security_ok wire_security ''k1'' ()"
  using hex_utf8 sample_identities
  by (simp add: outbound_security_ok_def wire_security_def crypto_ok_def crypto_codec_ok_def wire_crypto_def
      sample_crypto_def hex_roundtrip)

lemma length_hex [simp]: "length (hex_encode bs) = 2 * length bs"
  by (induction bs) (simp_all add: hex_encode_def)

lemma wire_wf:
  "headers_wf [''tenant''] [] sample_envelope None" "\<not> is_reserved_header ''tenant''"
  "validate_application_headers [''tenant''] sample_envelope = Inr ()"
proof -
  have "is_utf8 ''a''" by code_simp
  then show "headers_wf [''tenant''] [] sample_envelope None"
    by (simp add: headers_wf_def key_order_def sample_envelope_def sec_pairs_def all_headers_def
        wire_headers_def header_pairs_def)
  show "\<not> is_reserved_header ''tenant''" by code_simp
  then show "validate_application_headers [''tenant''] sample_envelope = Inr ()"
    by (simp add: validate_application_headers_def)
qed

lemma wire_prepared: "\<exists>p. prepare_publication decimal_codec [''tenant''] [] wire_transport ''q'' sample_envelope = Inr p
    \<and> key_order (''tenant'' # security_headers) (the (bp_headers (pub_properties p))) \<and> pub_payload p = [1, 2]"
proof -
  let ?b = "\<lparr>cb_destination = ''q'', cb_issuer = ''billing'', cb_audience = ''ledger'', cb_key_id = ''k1'',
             cb_algorithm = Ed25519\<rparr>"
  obtain rep where rep: "canonical_representation (cr_sha256 wire_crypto) [''tenant''] [] sample_envelope ?b = Inr rep"
    using sample_canonical [of ?b] by (auto simp: short_def wire_crypto_def)
  let ?hs = "[(signature_header, hex_encode (be_bytes 8 (length rep))), (key_id_header, ''k1''),
      (issuer_header, ''billing''), (audience_header, ''ledger''), (algorithm_header, ''ed25519''),
      (destination_header, ''q'')]"
  have sign: "outbound_sign wire_security [''tenant''] [] sample_envelope ''q'' = Inr ?hs"
    using rep by (simp add: outbound_sign_def sign_def wire_security_def, simp add: wire_crypto_def)
  have all: "all_headers [''tenant''] [] sample_envelope (Some ?hs) = (''tenant'', ''a'') # ?hs"
    by (simp add: all_headers_def wire_headers_def header_pairs_def sec_pairs_def sample_envelope_def)
  have "\<exists>t. encode_headers [''tenant''] [] sample_envelope metadata_limits_default (Some ?hs) = Inr t"
    by (rule encode_headers_ok)
      (simp_all only: all wire_wf(3), simp_all add: metadata_limits_default_def pair_bytes_def security_header_defs)
  then obtain t where t: "encode_headers [''tenant''] [] sample_envelope metadata_limits_default (Some ?hs) = Inr t"
    by blast
  have utf: "is_utf8 ''q''" by code_simp
  have "headers_wf [''tenant''] [] sample_envelope (Some ?hs)"
    by (rule headers_wf_signed [OF wire_wf(1) _ wire_security_ok sign utf]) simp
  then have "dom t = set (''tenant'' # security_headers)"
    by (simp only: encode_headers_Inr(1) [OF _ t] dom_table_of all) (simp add: security_headers_def)
  then have "key_order (''tenant'' # security_headers) t"
    using security_header_names(1) by (simp add: key_order_def, simp add: security_headers_def security_header_defs)
  then show ?thesis
    using sign t
    by (simp add: prepare_publication_def wire_transport_def envelope_to_properties_def to_short_string_def
        sample_envelope_def broker_user_id_def wire_security_def)
qed

lemma flaky_publish:
  assumes "prepare_publication decimal_codec [''tenant''] [] wire_transport ''q'' sample_envelope = Inr p"
  shows "publish_envelope decimal_codec flaky_broker [''tenant''] [] wire_transport ''q'' sample_envelope = (Inr 7, [p, p])"
proof -
  have "publish_with_recovery flaky_broker p False 0 = (Inr (ConfAck None), [p, p])"
    by (simp add: publish_with_recovery.simps [of flaky_broker p False 0]
        publish_with_recovery.simps [of flaky_broker p True "Suc 0"] flaky_broker_def)
  then show ?thesis
    using assms by (simp add: publish_envelope_def sample_envelope_def)
qed

theorem publish_success_confirmed_witness:
  "length (snd (publish_envelope decimal_codec flaky_broker [''tenant''] [] wire_transport ''q'' sample_envelope)) = 2
   \<and> pa_outcome (flaky_broker 1) = Inr (ConfAck None)"
proof -
  obtain p where "prepare_publication decimal_codec [''tenant''] [] wire_transport ''q'' sample_envelope = Inr p"
    using wire_prepared by blast
  then have pub: "publish_envelope decimal_codec flaky_broker [''tenant''] [] wire_transport ''q'' sample_envelope
      = (Inr 7, [p, p])"
    by (rule flaky_publish)
  have "tr_confirms wire_transport" by (simp add: wire_transport_def)
  then show ?thesis
    using publish_success_confirmed [of wire_transport decimal_codec flaky_broker "[''tenant'']" "[]" "''q''"
        sample_envelope 7] pub
    by (auto simp: flaky_broker_def)
qed

theorem signed_publish_verifies_witness:
  "\<exists>p ks e'. p \<in> set (snd (publish_envelope decimal_codec flaky_broker [''tenant''] [] wire_transport ''q'' sample_envelope))
    \<and> delivery_to_envelope decimal_codec 1 2 9 ks (pub_properties p) (pub_payload p) 1024 metadata_limits_default Strict
        = Inr e'
    \<and> env_message_id e' = 7
    \<and> fst (verify wire_crypto static_keys sample_security_config 0 [''tenant''] security_headers e' ''q''
        \<lparr>vs_keys = sample_keys, vs_last_refresh = None\<rparr>)
      = Inr (Some \<lparr>vp_issuer = ''billing'', vp_audience = ''ledger'', vp_key_id = ''k1'', vp_algorithm = Ed25519\<rparr>)"
proof -
  obtain p where prep: "prepare_publication decimal_codec [''tenant''] [] wire_transport ''q'' sample_envelope = Inr p"
    "key_order (''tenant'' # security_headers) (the (bp_headers (pub_properties p)))" "pub_payload p = [1, 2]"
    using wire_prepared by blast
  have mem: "p \<in> set (snd (publish_envelope decimal_codec flaky_broker [''tenant''] [] wire_transport ''q'' sample_envelope))"
    using flaky_publish [OF prep(1)] by simp
  have utf: "is_utf8 ''q''" by code_simp
  have tr: "tr_envelope_security wire_transport = Some wire_security" "tr_metadata_limits wire_transport = metadata_limits_default"
    by (simp_all add: wire_transport_def)
  have "\<exists>e'. delivery_to_envelope decimal_codec 1 2 9 (''tenant'' # security_headers) (pub_properties p) (pub_payload p) 1024
        (tr_metadata_limits wire_transport) Strict = Inr e' \<and> env_message_id e' = env_message_id sample_envelope
      \<and> env_correlation_id e' = env_correlation_id sample_envelope
      \<and> env_message_type e' = env_message_type sample_envelope \<and> env_payload e' = env_payload sample_envelope
      \<and> env_reply_to e' = env_reply_to sample_envelope \<and> env_headers e' = env_headers sample_envelope
      \<and> dom (env_protocol_headers e') = dom (env_protocol_headers sample_envelope) \<union> set security_headers
      \<and> (\<forall>hks' pks'. key_order hks' (env_headers e') \<and> key_order pks' (env_protocol_headers e') \<longrightarrow>
          verify (os_crypto wire_security) static_keys sample_security_config 0 hks' pks' e' ''q''
            \<lparr>vs_keys = sample_keys, vs_last_refresh = None\<rparr> =
          (Inr (Some \<lparr>vp_issuer = os_issuer wire_security, vp_audience = os_audience wire_security, vp_key_id = ''k1'',
                       vp_algorithm = Ed25519\<rparr>), \<lparr>vs_keys = sample_keys, vs_last_refresh = None\<rparr>))"
    by (rule signed_publish_verifies [OF decimal_codec_ok wire_wf(1) _ tr(1) wire_security_ok utf _ _ mem])
      (use prep in \<open>simp_all add: sample_envelope_def systime_max_def nanos_per_sec_def wire_security_def
        sample_security_config_def static_keys_def static_verification_key_def sample_keys_def
        with_verification_key_def wire_crypto_def\<close>)
  then obtain e' where e': "delivery_to_envelope decimal_codec 1 2 9 (''tenant'' # security_headers) (pub_properties p)
        (pub_payload p) 1024 metadata_limits_default Strict = Inr e'" "env_message_id e' = 7"
      "env_headers e' = [''tenant'' \<mapsto> ''a'']" "dom (env_protocol_headers e') = set security_headers"
      "\<forall>hks' pks'. key_order hks' (env_headers e') \<and> key_order pks' (env_protocol_headers e') \<longrightarrow>
          verify wire_crypto static_keys sample_security_config 0 hks' pks' e' ''q''
            \<lparr>vs_keys = sample_keys, vs_last_refresh = None\<rparr> =
          (Inr (Some \<lparr>vp_issuer = ''billing'', vp_audience = ''ledger'', vp_key_id = ''k1'',
                       vp_algorithm = Ed25519\<rparr>), \<lparr>vs_keys = sample_keys, vs_last_refresh = None\<rparr>)"
    by (auto simp: sample_envelope_def wire_security_def tr)
  have "key_order [''tenant''] (env_headers e')" "key_order security_headers (env_protocol_headers e')"
    using security_header_names(1) by (simp_all add: key_order_def e' security_headers_def)
  then show ?thesis
    using mem e'(1,2,5) by (intro exI [of _ p] exI [of _ "''tenant'' # security_headers"] exI [of _ e']) simp
qed

end
