(* ===== verification/Rpc_Protocol.thy ===== *)
theory Rpc_Protocol
  imports Amqp_Delivery
begin

text \<open>
  The rules of the request-reply protocol that need no state
  (\<open>crates/hexeract-bus/src/{deadline,rpc_protocol,reply_acceptance,reply_destination,
  reply_authentication,remote_error,transport_refusal,reply_rejection_kind}.rs\<close>): absolute
  deadlines and their reading, the acceptance of a reply, the validation of a reply
  destination, and the public categories of a failure.

  A \<open>Deadline\<close> is its instant on the wall clock, a \<open>LocalDeadline\<close> its instant on the monotonic
  clock (nanoseconds); both clocks are arguments. Decoding an error payload is \<open>serde_json\<close>,
  the argument \<open>dec\<close>.
\<close>

section \<open>Deadlines\<close>

definition max_deadline_horizon :: duration where
  "max_deadline_horizon = from_secs 3600"

definition clock_skew_tolerance :: duration where
  "clock_skew_tolerance = from_secs 1"

datatype deadline_violation = Unreadable | BeyondHorizon

datatype deadline_reading =
    DeadlineAbsent
  | DeadlineLive nat
  | DeadlineExpired
  | DeadlineInvalid deadline_violation

definition deadline_from_wall_clock :: "systime \<Rightarrow> duration \<Rightarrow> systime" where
  "deadline_from_wall_clock now timeout =
     (case systime_checked_add now timeout of Some t \<Rightarrow> t | None \<Rightarrow> now)"

definition deadline_within_horizon :: "systime \<Rightarrow> duration \<Rightarrow> systime option" where
  "deadline_within_horizon now timeout =
     (if timeout \<le> max_deadline_horizon then Some (deadline_from_wall_clock now timeout) else None)"

definition deadline_from_unix_millis :: "int \<Rightarrow> (deadline_violation, systime) result" where
  "deadline_from_unix_millis millis =
     (let offset = from_millis (nat \<bar>millis\<bar>) in
      ok_or (if 0 \<le> millis then systime_checked_add unix_epoch offset
             else systime_checked_sub unix_epoch offset) Unreadable)"

definition deadline_to_unix_millis :: "systime \<Rightarrow> int" where
  "deadline_to_unix_millis d =
     (case duration_since d unix_epoch of
        Inr since \<Rightarrow> if as_millis since < 2 ^ 63 then int (as_millis since) else 2 ^ 63 - 1
      | Inl before \<Rightarrow> if as_millis before < 2 ^ 63 then - int (as_millis before) else - (2 ^ 63))"

definition local_deadline_after :: "nat \<Rightarrow> duration \<Rightarrow> nat" where
  "local_deadline_after inst remaining = inst + remaining"

definition local_deadline_remaining :: "nat \<Rightarrow> nat \<Rightarrow> duration option" where
  "local_deadline_remaining inst d = (if inst \<le> d then Some (d - inst) else None)"

definition local_deadline_is_expired :: "nat \<Rightarrow> nat \<Rightarrow> bool" where
  "local_deadline_is_expired inst d \<longleftrightarrow> local_deadline_remaining inst d = None"

definition deadline_anchor :: "systime \<Rightarrow> nat \<Rightarrow> systime \<Rightarrow> deadline_reading" where
  "deadline_anchor now inst d =
     (if (case systime_checked_add now max_deadline_horizon of None \<Rightarrow> True | Some horizon \<Rightarrow> d > horizon)
      then DeadlineInvalid BeyondHorizon
      else case systime_checked_add d clock_skew_tolerance of
             None \<Rightarrow> DeadlineInvalid BeyondHorizon
           | Some tolerated \<Rightarrow>
               (case duration_since tolerated now of
                  Inr remaining \<Rightarrow> DeadlineLive (local_deadline_after inst remaining)
                | Inl _ \<Rightarrow> DeadlineExpired))"

definition deadline_from_str :: "string \<Rightarrow> (deadline_violation, systime) result" where
  "deadline_from_str val = rbind (ok_or (parse_i64 val) Unreadable) deadline_from_unix_millis"

definition deadline_display :: "systime \<Rightarrow> string" where
  "deadline_display d = show_int (deadline_to_unix_millis d)"

definition read_protocol_version :: "bus_envelope \<Rightarrow> u32 option" where
  "read_protocol_version e =
     (case header e protocol_version_header of None \<Rightarrow> None | Some raw \<Rightarrow> parse_u32 raw)"

definition read_deadline :: "bus_envelope \<Rightarrow> systime \<Rightarrow> nat \<Rightarrow> deadline_reading" where
  "read_deadline e now inst =
     (case header e deadline_header of
        None \<Rightarrow> DeadlineAbsent
      | Some raw \<Rightarrow>
          (case deadline_from_str raw of
             Inr d \<Rightarrow> deadline_anchor now inst d
           | Inl violation \<Rightarrow> DeadlineInvalid violation))"

section \<open>Acceptance of a reply\<close>

datatype reply_rejection_kind =
    Undecodable | Orphaned | UnauthenticatedKind | InvalidReply | Duplicate | Late

datatype reply_rejection =
    MissingVersion
  | UnsupportedVersion u32
  | MissingStatus
  | UnknownStatus
  | UnexpectedType
  | Unauthenticated
  | UndecodableErrorPayload
  | IdentityMismatch

fun rejection_kind :: "reply_rejection \<Rightarrow> reply_rejection_kind" where
  "rejection_kind Unauthenticated = UnauthenticatedKind"
| "rejection_kind MissingVersion = InvalidReply"
| "rejection_kind (UnsupportedVersion _) = InvalidReply"
| "rejection_kind MissingStatus = InvalidReply"
| "rejection_kind UnknownStatus = InvalidReply"
| "rejection_kind UnexpectedType = InvalidReply"
| "rejection_kind UndecodableErrorPayload = InvalidReply"
| "rejection_kind IdentityMismatch = InvalidReply"

datatype transport_refusal = RefusedUnauthenticated

fun refusal_rejection :: "transport_refusal \<Rightarrow> reply_rejection" where
  "refusal_rejection RefusedUnauthenticated = Unauthenticated"

datatype remote_error_type = RemoteInternal | RemoteMalformed | RemoteUnavailable | RemoteUnsupported | RemoteExpired

record remote_error_payload =
  rep_error_type :: remote_error_type
  rep_request_id :: uuid

definition accepts :: "string \<Rightarrow> bus_envelope \<Rightarrow> (reply_rejection, unit) result" where
  "accepts reply_type e =
     (case read_protocol_version e of
        None \<Rightarrow> Inl MissingVersion
      | Some version \<Rightarrow>
          if version \<noteq> protocol_version then Inl (UnsupportedVersion version)
          else case header e reply_status_header of
            None \<Rightarrow> Inl MissingStatus
          | Some status \<Rightarrow>
              if status = reply_status_ok
              then (if env_message_type e = reply_type then Inr () else Inl UnexpectedType)
              else if status = reply_status_error
              then (if env_message_type e = reply_error_message_type then Inr () else Inl UnexpectedType)
              else Inl UnknownStatus)"

definition accepts_error_identity ::
  "(byte list \<Rightarrow> remote_error_payload option) \<Rightarrow> bus_envelope \<Rightarrow> uuid \<Rightarrow> (reply_rejection, unit) result"
where
  "accepts_error_identity dec e expected =
     (if header e reply_status_header \<noteq> Some reply_status_error then Inr ()
      else case dec (env_payload e) of
             None \<Rightarrow> Inl UndecodableErrorPayload
           | Some payload \<Rightarrow> if rep_request_id payload = expected then Inr () else Inl IdentityMismatch)"

section \<open>Authentication, destinations, failures\<close>

datatype reply_authentication =
    ReplyNotEnforced
  | ReplyWaivedUnsigned
  | ReplyAuthenticated verified_principal

fun reply_auth_from_verification :: "verified_principal option \<Rightarrow> reply_authentication" where
  "reply_auth_from_verification (Some p) = ReplyAuthenticated p"
| "reply_auth_from_verification None = ReplyWaivedUnsigned"

fun publisher_auth_of_reply :: "reply_authentication \<Rightarrow> publisher_authentication" where
  "publisher_auth_of_reply ReplyNotEnforced = NotEnforced"
| "publisher_auth_of_reply ReplyWaivedUnsigned = WaivedUnsigned"
| "publisher_auth_of_reply (ReplyAuthenticated p) = Authenticated (vp_issuer p)"

datatype reply_destination_error = DestinationEmpty | TooLong | IllegalCharacter | OutsideReplyNamespace

text \<open>
  \<open>char::is_control\<close> on the UTF-8 bytes: U+0000 to U+001F and U+007F are one byte; U+0080 to U+009F
  are the byte C2 and their own value.
\<close>

fun has_control :: "nat list \<Rightarrow> bool" where
  "has_control [] = False"
| "has_control (b # bs) =
     (b < 32 \<or> b = 127 \<or> (b = 0xC2 \<and> (case bs of c # _ \<Rightarrow> 0x80 \<le> c \<and> c \<le> 0x9F | [] \<Rightarrow> False))
      \<or> has_control bs)"

definition reply_destination_parse :: "string \<Rightarrow> (reply_destination_error, string) result" where
  "reply_destination_parse raw =
     (if raw = [] then Inl DestinationEmpty
      else if length raw > 255 then Inl TooLong
      else if has_control (map of_char raw) then Inl IllegalCharacter
      else Inr raw)"

fun remote_error_from_bus_error :: "bus_error \<Rightarrow> remote_error_type" where
  "remote_error_from_bus_error ReservedHeaderNamespace = RemoteMalformed"
| "remote_error_from_bus_error (MetadataLimitExceeded _ _ _) = RemoteMalformed"
| "remote_error_from_bus_error (InvalidMetadata _) = RemoteMalformed"
| "remote_error_from_bus_error (BusSerialization _) = RemoteMalformed"
| "remote_error_from_bus_error (TypeMismatch _ _) = RemoteMalformed"
| "remote_error_from_bus_error (PayloadTooLarge _ _) = RemoteMalformed"
| "remote_error_from_bus_error (EnvelopeSecurity _) = RemoteMalformed"
| "remote_error_from_bus_error (Connection _ _) = RemoteUnavailable"
| "remote_error_from_bus_error (Transport _) = RemoteUnavailable"
| "remote_error_from_bus_error (Unroutable _ _ _) = RemoteUnavailable"
| "remote_error_from_bus_error (ReplyUndeliverable _ _ _) = RemoteUnavailable"
| "remote_error_from_bus_error (BusInternal _) = RemoteInternal"
| "remote_error_from_bus_error (MissingHandler _) = RemoteInternal"
| "remote_error_from_bus_error (InvalidTopology _) = RemoteInternal"
| "remote_error_from_bus_error (ShutdownDrainTimedOut _ _) = RemoteInternal"

section \<open>Lemmas\<close>

lemma parse_version_one: "parse_u32 (show_nat (unat protocol_version)) = Some protocol_version"
proof -
  have "unat protocol_version < 2 ^ 32" by (simp add: protocol_version_def)
  then show ?thesis by (subst parse_u32_show_nat) simp_all
qed

text \<open>The instant a peer reads: whole milliseconds, rounded towards the epoch.\<close>

definition millis_trunc :: "systime \<Rightarrow> systime" where
  "millis_trunc d = (if 0 \<le> d then int (as_millis (nat d) * nanos_per_milli)
     else - int (as_millis (nat (- d)) * nanos_per_milli))"

lemma millis_trunc_close:
  "0 \<le> d \<Longrightarrow> millis_trunc d \<le> d \<and> d < millis_trunc d + int nanos_per_milli"
proof -
  assume "0 \<le> d"
  let ?n = "nat d div nanos_per_milli * nanos_per_milli"
  have "?n \<le> nat d" by simp
  moreover have "nat d < ?n + nanos_per_milli"
    by (metis add.commute div_mult_mod_eq mod_less_divisor nanos_pos(2) nat_add_left_cancel_less)
  ultimately have "int ?n \<le> d" "d < int ?n + int nanos_per_milli"
    using \<open>0 \<le> d\<close> by linarith+
  then show ?thesis
    using \<open>0 \<le> d\<close> unfolding millis_trunc_def as_millis_def by simp
qed

lemma deadline_wire:
  assumes "systime_min \<le> d" "d \<le> systime_max" "\<bar>d\<bar> < 2 ^ 63 * int nanos_per_milli"
  shows "deadline_from_str (deadline_display d) = Inr (millis_trunc d)"
proof -
  have small: "as_millis (nat \<bar>d\<bar>) < 2 ^ 63"
  proof -
    have "nat \<bar>d\<bar> < 2 ^ 63 * nanos_per_milli" using assms(3) by (simp add: nat_less_iff)
    then show ?thesis by (simp add: as_millis_def less_mult_imp_div_less)
  qed
  have le: "as_millis n * nanos_per_milli \<le> n" for n
    by (simp add: as_millis_def)
  show ?thesis
  proof (cases "0 \<le> d")
    case True
    let ?m = "as_millis (nat d)"
    have ms: "deadline_to_unix_millis d = int ?m"
      using True small by (simp add: deadline_to_unix_millis_def duration_since_def unix_epoch_def)
    have bound: "int ?m < 2 ^ 63"
      using small True by simp
    have "parse_i64 (show_int (int ?m)) = Some (int ?m)"
      using bound by (intro parse_i64_show_int) auto
    moreover have "int (?m * nanos_per_milli) \<le> systime_max"
      using le [of "nat d"] assms(2) True by linarith
    ultimately show ?thesis
      using True by (simp add: deadline_from_str_def deadline_display_def ms deadline_from_unix_millis_def
          from_millis_def systime_checked_add_def unix_epoch_def millis_trunc_def)
  next
    case False
    let ?m = "as_millis (nat (- d))"
    have ms: "deadline_to_unix_millis d = - int ?m"
      using False small by (simp add: deadline_to_unix_millis_def duration_since_def unix_epoch_def)
    have bound: "int ?m < 2 ^ 63"
      using small False by simp
    have "parse_i64 (show_int (- int ?m)) = Some (- int ?m)"
      using bound by (intro parse_i64_show_int) auto
    moreover have "systime_min \<le> - int (?m * nanos_per_milli)"
      using le [of "nat (- d)"] assms(1) False by linarith
    ultimately show ?thesis
      using False
      by (cases "?m = 0") (simp_all add: deadline_from_str_def deadline_display_def ms deadline_from_unix_millis_def
          from_millis_def systime_checked_add_def systime_checked_sub_def unix_epoch_def millis_trunc_def
          systime_max_def nanos_per_sec_def)
  qed
qed

section \<open>Properties\<close>

text \<open>
  C37. Caller and responder agree on a deadline. A deadline the caller publishes is read back as the
  instant \<open>w\<close>, the same to the millisecond, whatever the clock of the responder shows. It is refused as
  beyond the horizon exactly when \<open>w\<close> is more than the horizon ahead of that clock, which takes a clock
  that lags behind the caller's by more than the timeout leaves of the horizon; it is expired once the
  tolerated second after \<open>w\<close> has passed; and otherwise the rest of that time, and nothing else, is
  anchored on the responder's monotonic clock.
\<close>

theorem deadline_agreement:
  assumes "deadline_within_horizon now timeout = Some d"
    and "header e deadline_header = Some (deadline_display d)"
    and clocks: "0 \<le> now" "now \<le> 2 ^ 62 * int nanos_per_milli" "0 \<le> now'" "now' \<le> 2 ^ 62 * int nanos_per_milli"
  shows "\<exists>w. now + int timeout - int nanos_per_milli < w \<and> w \<le> now + int timeout
    \<and> (now - now' \<le> int max_deadline_horizon - int timeout \<longrightarrow> w \<le> now' + int max_deadline_horizon)
    \<and> read_deadline e now' inst =
      (if now' + int max_deadline_horizon < w then DeadlineInvalid BeyondHorizon
       else if now' \<le> w + int clock_skew_tolerance
       then DeadlineLive (inst + nat (w + int clock_skew_tolerance - now')) else DeadlineExpired)"
proof -
  have t: "timeout \<le> max_deadline_horizon" and d: "d = deadline_from_wall_clock now timeout"
    using assms(1) by (simp_all add: deadline_within_horizon_def split: if_splits)
  have hor: "int max_deadline_horizon = 3600000000000" "int clock_skew_tolerance = 1000000000"
    "int nanos_per_milli = 1000000" "systime_max = 2 ^ 63 * 1000000000 - 1" "systime_min = - (2 ^ 63) * 1000000000"
    by (simp_all add: max_deadline_horizon_def clock_skew_tolerance_def from_secs_def nanos_per_sec_def
        nanos_per_milli_def systime_max_def systime_min_def)
  have sum: "now + int timeout \<le> now + int max_deadline_horizon"
    using t by linarith
  have dd: "d = now + int timeout"
    using sum clocks hor by (simp add: d deadline_from_wall_clock_def systime_checked_add_def)
  have wire: "deadline_from_str (deadline_display d) = Inr (millis_trunc d)"
    using sum clocks hor by (intro deadline_wire) (simp_all add: dd)
  have close: "millis_trunc d \<le> d" "d < millis_trunc d + int nanos_per_milli"
    using millis_trunc_close [of d] clocks by (simp_all add: dd)
  have h: "systime_checked_add now' max_deadline_horizon = Some (now' + int max_deadline_horizon)"
    using clocks hor by (simp add: systime_checked_add_def)
  have k: "systime_checked_add (millis_trunc d) clock_skew_tolerance = Some (millis_trunc d + int clock_skew_tolerance)"
    using clocks hor sum close dd by (simp add: systime_checked_add_def)
  have "deadline_anchor now' inst (millis_trunc d) =
      (if now' + int max_deadline_horizon < millis_trunc d then DeadlineInvalid BeyondHorizon
       else if now' \<le> millis_trunc d + int clock_skew_tolerance
       then DeadlineLive (inst + nat (millis_trunc d + int clock_skew_tolerance - now')) else DeadlineExpired)"
    by (simp add: deadline_anchor_def h k duration_since_def local_deadline_after_def)
  then have "read_deadline e now' inst =
      (if now' + int max_deadline_horizon < millis_trunc d then DeadlineInvalid BeyondHorizon
       else if now' \<le> millis_trunc d + int clock_skew_tolerance
       then DeadlineLive (inst + nat (millis_trunc d + int clock_skew_tolerance - now')) else DeadlineExpired)"
    using assms(2) wire by (simp add: read_deadline_def)
  then show ?thesis
    using close dd by (intro exI [of _ "millis_trunc d"]) auto
qed

theorem deadline_agreement_witness:
  "\<exists>w. read_deadline (insert_protocol_header deadline_header (deadline_display 5000000)
      sample_envelope) 500000 7 = DeadlineLive (7 + nat (w + 1000000000 - 500000)) \<and> w \<le> 5000000 \<and> 4000000 < w"
proof -
  let ?e = "insert_protocol_header deadline_header (deadline_display 5000000) sample_envelope"
  have "deadline_within_horizon 1000000 4000000 = Some 5000000"
    by (simp add: deadline_within_horizon_def max_deadline_horizon_def from_secs_def nanos_per_sec_def
        deadline_from_wall_clock_def systime_checked_add_def systime_max_def)
  moreover have "header ?e deadline_header = Some (deadline_display 5000000)"
    by simp
  ultimately obtain w where "1000000 + int 4000000 - int nanos_per_milli < w" "w \<le> 1000000 + int 4000000"
    "read_deadline ?e 500000 7 = (if 500000 + int max_deadline_horizon < w then DeadlineInvalid BeyondHorizon
       else if 500000 \<le> w + int clock_skew_tolerance
       then DeadlineLive (7 + nat (w + int clock_skew_tolerance - 500000)) else DeadlineExpired)"
    using deadline_agreement [of 1000000 4000000 5000000 ?e 500000 7] by (auto simp: nanos_per_milli_def)
  then show ?thesis
    by (intro exI [of _ w])
      (simp add: nanos_per_milli_def clock_skew_tolerance_def max_deadline_horizon_def from_secs_def nanos_per_sec_def)
qed

end
