(* ===== verification/Rpc_Registry.thy ===== *)
theory Rpc_Registry
  imports Rpc_Protocol "HOL-Library.AList"
begin

text \<open>
  The rendezvous between callers and reply deliveries
  (\<open>crates/hexeract-bus/src/{slot_retirement,request_registry}.rs\<close>): the bounded memory of retired
  identities, the slot table with its counters, and every operation on it.

  The two hash maps are association lists with distinct keys. A \<open>oneshot\<close> channel is an entry
  of \<open>rg_channels\<close>: the sender is held by a slot, the receiver by the \<open>PendingReply\<close>, both as the
  channel's number; a slot that is dropped without sending closes its channel. Every operation
  runs under the one mutex of the registry, so it is one step (\<open>resolve\<close> releases it just before it
  sends, with no suspension in between); the order in which
  \<open>drain\<close> empties the slot table is an argument. UUID parsing and JSON are arguments as before.
\<close>

section \<open>Retired identities\<close>

datatype slot_retirement = Resolved | Abandoned

record retired_slots =
  rt_entries :: "(uuid \<times> slot_retirement) list"
  rt_order :: "uuid list"
  rt_capacity :: nat

definition retired_new :: "nat \<Rightarrow> retired_slots" where
  "retired_new capacity = \<lparr>rt_entries = [], rt_order = [], rt_capacity = capacity\<rparr>"

text \<open>\<open>while order.len() >= capacity\<close>: pop the oldest identity and forget it.\<close>

fun evict :: "nat \<Rightarrow> uuid list \<Rightarrow> (uuid \<times> slot_retirement) list \<Rightarrow> uuid list \<times> (uuid \<times> slot_retirement) list" where
  "evict capacity [] entries = ([], entries)"
| "evict capacity (oldest # order) entries =
     (if capacity \<le> length (oldest # order) then evict capacity order (AList.delete oldest entries)
      else (oldest # order, entries))"

definition retired_record :: "uuid \<Rightarrow> slot_retirement \<Rightarrow> retired_slots \<Rightarrow> retired_slots" where
  "retired_record rid why r =
     (if rt_capacity r = 0 then r
      else if map_of (rt_entries r) rid \<noteq> None then r\<lparr>rt_entries := AList.update rid why (rt_entries r)\<rparr>
      else let (order, entries) = evict (rt_capacity r) (rt_order r) (rt_entries r)
           in r\<lparr>rt_order := order @ [rid], rt_entries := AList.update rid why entries\<rparr>)"

definition retired_lookup :: "uuid \<Rightarrow> retired_slots \<Rightarrow> slot_retirement option" where
  "retired_lookup rid r = map_of (rt_entries r) rid"

section \<open>The registry\<close>

datatype channel =
    ChWaiting
  | ChDelivered bus_envelope reply_authentication
  | ChClosed

record slot =
  sl_expectation :: string
  sl_sender :: nat
  sl_last_rejection :: "reply_rejection option"
  sl_rejected_deliveries :: u32

record reply_counters =
  rc_undecodable :: u64
  rc_orphaned :: u64
  rc_unauthenticated :: u64
  rc_invalid :: u64
  rc_duplicate :: u64
  rc_late :: u64

record request_registry =
  rg_slots :: "(uuid \<times> slot) list"
  rg_retired :: retired_slots
  rg_closed :: bool
  rg_counters :: reply_counters
  rg_max_in_flight :: nat
  rg_channels :: "nat \<Rightarrow> channel"
  rg_next_channel :: nat

datatype register_rejection = AtCapacity | RegistryClosed | SlotOccupied

record pending_reply =
  pr_request_id :: uuid
  pr_receiver :: nat

definition default_max_in_flight :: nat where
  "default_max_in_flight = 1024"

definition registry_new :: "nat \<Rightarrow> request_registry" where
  "registry_new max_in_flight =
     \<lparr>rg_slots = [], rg_retired = retired_new max_in_flight, rg_closed = False,
      rg_counters = \<lparr>rc_undecodable = 0, rc_orphaned = 0, rc_unauthenticated = 0, rc_invalid = 0,
                     rc_duplicate = 0, rc_late = 0\<rparr>,
      rg_max_in_flight = max_in_flight, rg_channels = \<lambda>_. ChWaiting, rg_next_channel = 0\<rparr>"

definition readable_request_id :: "uuid_codec \<Rightarrow> bus_envelope \<Rightarrow> uuid option" where
  "readable_request_id uc e =
     (case header e request_id_header of None \<Rightarrow> None | Some raw \<Rightarrow> uc_parse uc raw)"

fun record_rejection_kind :: "reply_rejection_kind \<Rightarrow> reply_counters \<Rightarrow> reply_counters" where
  "record_rejection_kind Undecodable c = c\<lparr>rc_undecodable := rc_undecodable c + 1\<rparr>"
| "record_rejection_kind Orphaned c = c\<lparr>rc_orphaned := rc_orphaned c + 1\<rparr>"
| "record_rejection_kind UnauthenticatedKind c = c\<lparr>rc_unauthenticated := rc_unauthenticated c + 1\<rparr>"
| "record_rejection_kind InvalidReply c = c\<lparr>rc_invalid := rc_invalid c + 1\<rparr>"
| "record_rejection_kind Duplicate c = c\<lparr>rc_duplicate := rc_duplicate c + 1\<rparr>"
| "record_rejection_kind Late c = c\<lparr>rc_late := rc_late c + 1\<rparr>"

definition count_kind :: "reply_rejection_kind \<Rightarrow> request_registry \<Rightarrow> request_registry" where
  "count_kind k g = g\<lparr>rg_counters := record_rejection_kind k (rg_counters g)\<rparr>"

definition registry_len :: "request_registry \<Rightarrow> nat" where
  "registry_len g = length (rg_slots g)"

definition register ::
  "uuid \<Rightarrow> string \<Rightarrow> request_registry \<Rightarrow> (register_rejection, pending_reply) result \<times> request_registry"
where
  "register rid expectation g =
     (if rg_closed g then (Inl RegistryClosed, g)
      else if map_of (rg_slots g) rid \<noteq> None then (Inl SlotOccupied, g)
      else if rg_max_in_flight g \<le> registry_len g then (Inl AtCapacity, g)
      else let c = rg_next_channel g in
        (Inr \<lparr>pr_request_id = rid, pr_receiver = c\<rparr>,
         g\<lparr>rg_slots := AList.update rid \<lparr>sl_expectation = expectation, sl_sender = c, sl_last_rejection = None,
                                          sl_rejected_deliveries = 0\<rparr> (rg_slots g),
           rg_next_channel := Suc c, rg_channels := (rg_channels g)(c := ChWaiting)\<rparr>))"

definition reject_slot :: "uuid \<Rightarrow> reply_rejection \<Rightarrow> request_registry \<Rightarrow> request_registry" where
  "reject_slot rid rejection g =
     (case map_of (rg_slots g) rid of
        None \<Rightarrow> g
      | Some s \<Rightarrow> g\<lparr>rg_slots := AList.update rid
            (s\<lparr>sl_last_rejection := Some rejection,
               sl_rejected_deliveries := u32_saturating_inc (sl_rejected_deliveries s)\<rparr>) (rg_slots g)\<rparr>)"

definition resolve ::
  "uuid_codec \<Rightarrow> (byte list \<Rightarrow> remote_error_payload option) \<Rightarrow> bus_envelope \<Rightarrow>
   (transport_refusal, reply_authentication) result \<Rightarrow> request_registry \<Rightarrow> request_registry"
where
  "resolve uc dec e authentication g =
     (case authentication of
        Inl refusal \<Rightarrow>
          (let rejection = refusal_rejection refusal;
               g' = count_kind (rejection_kind rejection) g
           in case readable_request_id uc e of
                Some rid \<Rightarrow> reject_slot rid rejection g'
              | None \<Rightarrow> g')
      | Inr auth \<Rightarrow>
          (case readable_request_id uc e of
             None \<Rightarrow> count_kind Orphaned g
           | Some rid \<Rightarrow>
               (case map_of (rg_slots g) rid of
                  None \<Rightarrow>
                    (case retired_lookup rid (rg_retired g) of
                       Some Resolved \<Rightarrow> count_kind Duplicate g
                     | Some Abandoned \<Rightarrow> count_kind Late g
                     | None \<Rightarrow> count_kind Orphaned g)
                | Some s \<Rightarrow>
                    (case rbind (accepts (sl_expectation s) e) (\<lambda>_. accepts_error_identity dec e rid) of
                       Inl rejection \<Rightarrow> count_kind (rejection_kind rejection) (reject_slot rid rejection g)
                     | Inr _ \<Rightarrow>
                         g\<lparr>rg_slots := AList.delete rid (rg_slots g),
                           rg_retired := retired_record rid Resolved (rg_retired g),
                           rg_channels := (rg_channels g)(sl_sender s := ChDelivered e auth)\<rparr>))))"

definition record_undecodable :: "request_registry \<Rightarrow> request_registry" where
  "record_undecodable g = count_kind Undecodable g"

text \<open>Draining: the slots leave in the order \<open>ks\<close>, each closing its channel.\<close>

fun abandon_slots :: "uuid list \<Rightarrow> request_registry \<Rightarrow> request_registry" where
  "abandon_slots [] g = g"
| "abandon_slots (rid # ks) g =
     abandon_slots ks
       (case map_of (rg_slots g) rid of
          None \<Rightarrow> g
        | Some s \<Rightarrow> g\<lparr>rg_slots := AList.delete rid (rg_slots g),
                     rg_retired := retired_record rid Abandoned (rg_retired g),
                     rg_channels := (rg_channels g)(sl_sender s := ChClosed)\<rparr>)"

definition drain :: "uuid list \<Rightarrow> request_registry \<Rightarrow> request_registry" where
  "drain ks g = abandon_slots ks g"

definition registry_close :: "uuid list \<Rightarrow> request_registry \<Rightarrow> request_registry" where
  "registry_close ks g = abandon_slots ks (g\<lparr>rg_closed := True\<rparr>)"

definition registry_remove :: "uuid \<Rightarrow> request_registry \<Rightarrow> request_registry" where
  "registry_remove rid g =
     (case map_of (rg_slots g) rid of
        None \<Rightarrow> g
      | Some s \<Rightarrow> g\<lparr>rg_slots := AList.delete rid (rg_slots g),
                   rg_retired := retired_record rid Abandoned (rg_retired g),
                   rg_channels := (rg_channels g)(sl_sender s := ChClosed)\<rparr>)"

definition pending_last_rejection :: "pending_reply \<Rightarrow> request_registry \<Rightarrow> reply_rejection option" where
  "pending_last_rejection p g =
     (case map_of (rg_slots g) (pr_request_id p) of None \<Rightarrow> None | Some s \<Rightarrow> sl_last_rejection s)"

definition pending_rejected_deliveries :: "pending_reply \<Rightarrow> request_registry \<Rightarrow> u32" where
  "pending_rejected_deliveries p g =
     (case map_of (rg_slots g) (pr_request_id p) of None \<Rightarrow> 0 | Some s \<Rightarrow> sl_rejected_deliveries s)"

text \<open>\<open>wait\<close>: nothing yet, the reply, or a closed channel.\<close>

definition pending_wait ::
  "pending_reply \<Rightarrow> request_registry \<Rightarrow> (bus_envelope \<times> reply_authentication) option option"
where
  "pending_wait p g =
     (case rg_channels g (pr_receiver p) of
        ChWaiting \<Rightarrow> None
      | ChDelivered e auth \<Rightarrow> Some (Some (e, auth))
      | ChClosed \<Rightarrow> Some None)"

definition pending_drop :: "pending_reply \<Rightarrow> request_registry \<Rightarrow> request_registry" where
  "pending_drop p g = registry_remove (pr_request_id p) g"

section \<open>Calls on the registry\<close>

datatype registry_call =
    CallRegister uuid string
  | CallResolve bus_envelope "(transport_refusal, reply_authentication) result"
  | CallUndecodable
  | CallDrain "uuid list"
  | CallClose "uuid list"
  | CallDrop pending_reply

fun registry_exec ::
  "uuid_codec \<Rightarrow> (byte list \<Rightarrow> remote_error_payload option) \<Rightarrow> registry_call \<Rightarrow> request_registry \<Rightarrow> request_registry"
where
  "registry_exec uc dec (CallRegister rid expectation) g = snd (register rid expectation g)"
| "registry_exec uc dec (CallResolve e auth) g = resolve uc dec e auth g"
| "registry_exec uc dec CallUndecodable g = record_undecodable g"
| "registry_exec uc dec (CallDrain ks) g = drain ks g"
| "registry_exec uc dec (CallClose ks) g = registry_close ks g"
| "registry_exec uc dec (CallDrop p) g = pending_drop p g"

text \<open>The order given to \<open>drain\<close> and \<open>close\<close> enumerates the slots.\<close>

fun call_wf :: "registry_call \<Rightarrow> request_registry \<Rightarrow> bool" where
  "call_wf (CallDrain ks) g = (distinct ks \<and> set ks = fst ` set (rg_slots g))"
| "call_wf (CallClose ks) g = (distinct ks \<and> set ks = fst ` set (rg_slots g))"
| "call_wf _ g = True"

fun registry_run ::
  "uuid_codec \<Rightarrow> (byte list \<Rightarrow> remote_error_payload option) \<Rightarrow> registry_call list \<Rightarrow> request_registry \<Rightarrow>
   request_registry option"
where
  "registry_run uc dec [] g = Some g"
| "registry_run uc dec (c # cs) g =
     (if call_wf c g then registry_run uc dec cs (registry_exec uc dec c g) else None)"

section \<open>The contract: an abstract rendezvous\<close>

text \<open>
  What a registry promises, without its representation: a partial map of pending requests, the
  state of every channel handed out, and a capacity. Emptying it does not depend on any order.
\<close>

record rendezvous =
  rv_pending :: "uuid \<rightharpoonup> (string \<times> nat)"
  rv_channels :: "nat \<Rightarrow> channel"
  rv_issued :: nat
  rv_closed :: bool
  rv_capacity :: nat

definition rendezvous_of :: "request_registry \<Rightarrow> rendezvous" where
  "rendezvous_of g =
     \<lparr>rv_pending = (\<lambda>rid. map_option (\<lambda>s. (sl_expectation s, sl_sender s)) (map_of (rg_slots g) rid)),
      rv_channels = rg_channels g, rv_issued = rg_next_channel g, rv_closed = rg_closed g,
      rv_capacity = rg_max_in_flight g\<rparr>"

definition rv_settle :: "uuid \<Rightarrow> channel \<Rightarrow> rendezvous \<Rightarrow> rendezvous" where
  "rv_settle rid x r =
     (case rv_pending r rid of
        None \<Rightarrow> r
      | Some (_, c) \<Rightarrow> r\<lparr>rv_pending := (rv_pending r)(rid := None), rv_channels := (rv_channels r)(c := x)\<rparr>)"

definition rv_abandon_all :: "rendezvous \<Rightarrow> rendezvous" where
  "rv_abandon_all r =
     r\<lparr>rv_pending := Map.empty,
       rv_channels := (\<lambda>c. if c \<in> snd ` ran (rv_pending r) then ChClosed else rv_channels r c)\<rparr>"

fun rv_exec ::
  "uuid_codec \<Rightarrow> (byte list \<Rightarrow> remote_error_payload option) \<Rightarrow> registry_call \<Rightarrow> rendezvous \<Rightarrow> rendezvous"
where
  "rv_exec uc dec (CallRegister rid expectation) r =
     (if rv_closed r \<or> rv_pending r rid \<noteq> None \<or> rv_capacity r \<le> card (dom (rv_pending r)) then r
      else r\<lparr>rv_pending := (rv_pending r)(rid \<mapsto> (expectation, rv_issued r)), rv_issued := Suc (rv_issued r),
             rv_channels := (rv_channels r)(rv_issued r := ChWaiting)\<rparr>)"
| "rv_exec uc dec (CallResolve e auth) r =
     (case (auth, readable_request_id uc e) of
        (Inr a, Some rid) \<Rightarrow>
          (case rv_pending r rid of
             Some (expectation, _) \<Rightarrow>
               if accepts expectation e = Inr () \<and> accepts_error_identity dec e rid = Inr ()
               then rv_settle rid (ChDelivered e a) r else r
           | None \<Rightarrow> r)
      | _ \<Rightarrow> r)"
| "rv_exec uc dec CallUndecodable r = r"
| "rv_exec uc dec (CallDrain ks) r = rv_abandon_all r"
| "rv_exec uc dec (CallClose ks) r = (rv_abandon_all r)\<lparr>rv_closed := True\<rparr>"
| "rv_exec uc dec (CallDrop p) r = rv_settle (pr_request_id p) ChClosed r"

section \<open>Lemmas: the memory of retired identities\<close>

definition retired_wf :: "retired_slots \<Rightarrow> bool" where
  "retired_wf r \<longleftrightarrow> distinct (rt_order r) \<and> set (rt_order r) = dom (map_of (rt_entries r))
     \<and> distinct (map fst (rt_entries r)) \<and> length (rt_order r) \<le> rt_capacity r"

lemma evict_spec:
  assumes "0 < capacity" "length order \<le> capacity"
  shows "evict capacity order entries =
    (if length order < capacity then (order, entries) else (tl order, AList.delete (hd order) entries))"
  using assms by (cases order; cases "tl order") auto

lemma retired_record_wf:
  assumes "retired_wf r" shows "retired_wf (retired_record rid why r)"
proof (cases "rt_capacity r = 0 \<or> map_of (rt_entries r) rid \<noteq> None")
  case True
  then show ?thesis
    using assms by (auto simp: retired_record_def retired_wf_def update_conv' distinct_update)
next
  case False
  then have cap: "0 < rt_capacity r" and new: "rid \<notin> set (rt_order r)"
    using assms by (auto simp: retired_wf_def dom_def)
  obtain order entries where ev: "evict (rt_capacity r) (rt_order r) (rt_entries r) = (order, entries)"
    by (cases "evict (rt_capacity r) (rt_order r) (rt_entries r)")
  have "distinct order \<and> set order = dom (map_of entries) \<and> distinct (map fst entries)
      \<and> length order < rt_capacity r \<and> rid \<notin> set order"
  proof (cases "length (rt_order r) < rt_capacity r")
    case True
    then show ?thesis
      using ev assms cap new by (simp add: evict_spec retired_wf_def)
  next
    case full: False
    then obtain o\<^sub>1 os where os: "rt_order r = o\<^sub>1 # os"
      using cap by (cases "rt_order r") auto
    then have "order = os \<and> entries = AList.delete o\<^sub>1 (rt_entries r)"
      using ev assms cap full by (simp add: evict_spec retired_wf_def)
    moreover have "dom (map_of (rt_entries r)) = insert o\<^sub>1 (set os)" "distinct (o\<^sub>1 # os)"
      "distinct (map fst (rt_entries r))" "length (o\<^sub>1 # os) \<le> rt_capacity r"
      using assms os by (auto simp: retired_wf_def)
    ultimately show ?thesis
      using new os by (auto simp: delete_conv' distinct_delete)
  qed
  then show ?thesis
    using False by (auto simp: retired_record_def ev retired_wf_def update_conv' distinct_update)
qed

lemma retired_record_capacity [simp]: "rt_capacity (retired_record rid why r) = rt_capacity r"
  by (auto simp: retired_record_def split: prod.splits)

lemma retired_record_lookup:
  assumes "retired_wf r" "0 < rt_capacity r"
  shows "retired_lookup rid (retired_record rid why r) = Some why"
  using assms by (auto simp: retired_record_def retired_lookup_def update_conv' split: prod.splits)

text \<open>How many retirements of other identities an identity survives.\<close>

definition remaining_window :: "uuid \<Rightarrow> retired_slots \<Rightarrow> nat" where
  "remaining_window rid r = rt_capacity r - length (rt_order r) + length (takeWhile (\<lambda>x. x \<noteq> rid) (rt_order r))"

lemma retired_record_other:
  assumes wf: "retired_wf r" and mem: "retired_lookup rid r = Some why" and neq: "other \<noteq> rid"
    and room: "0 < remaining_window rid r"
  shows "retired_lookup rid (retired_record other w r) = Some why
    \<and> remaining_window rid r \<le> Suc (remaining_window rid (retired_record other w r))"
proof -
  have rid: "rid \<in> set (rt_order r)"
    using wf mem by (auto simp: retired_wf_def retired_lookup_def)
  then have "0 < length (rt_order r)" by auto
  then have cap: "0 < rt_capacity r" "length (rt_order r) \<le> rt_capacity r"
    using wf unfolding retired_wf_def by linarith+
  show ?thesis
  proof (cases "map_of (rt_entries r) other \<noteq> None")
    case True
    then show ?thesis
      using mem neq cap(1)
      by (auto simp: retired_record_def retired_lookup_def update_conv' remaining_window_def)
  next
    case False
    show ?thesis
    proof (cases "length (rt_order r) < rt_capacity r")
      case True
      then show ?thesis
        using mem neq rid cap False
        by (auto simp: retired_record_def retired_lookup_def update_conv' remaining_window_def evict_spec
            takeWhile_append1)
    next
      case full: False
      then have "length (takeWhile (\<lambda>x. x \<noteq> rid) (rt_order r)) > 0"
        using room cap by (simp add: remaining_window_def)
      then obtain o\<^sub>1 os where os: "rt_order r = o\<^sub>1 # os" "o\<^sub>1 \<noteq> rid"
        by (cases "rt_order r") (auto split: if_splits)
      then show ?thesis
        using mem neq rid cap full False
        by (auto simp: retired_record_def retired_lookup_def update_conv' remaining_window_def evict_spec
            delete_conv' takeWhile_append1)
    qed
  qed
qed

lemma retired_record_window:
  assumes wf: "retired_wf r" and new: "retired_lookup rid r = None" and cap: "0 < rt_capacity r"
  shows "remaining_window rid (retired_record rid why r) = rt_capacity r - 1"
proof -
  have nin: "rid \<notin> set (rt_order r)"
    using wf new by (auto simp: retired_wf_def retired_lookup_def dom_def)
  have "rid \<notin> set (tl (rt_order r))"
    using nin by (cases "rt_order r") auto
  moreover have "takeWhile (\<lambda>x. x \<noteq> rid) (xs @ [rid]) = xs" if "rid \<notin> set xs" for xs
    using that by (induction xs) auto
  ultimately show ?thesis
    using wf new cap nin
    by (auto simp: retired_record_def retired_lookup_def remaining_window_def evict_spec retired_wf_def)
qed

section \<open>Lemmas: the registry\<close>

text \<open>
  The invariant: bounded slot table with distinct identities, empty once closed; a well-formed
  memory of the same bound; every slot holds the sender of its own waiting channel; and a
  channel that has been handed out and still waits has a slot.
\<close>

definition senders :: "request_registry \<Rightarrow> uuid \<rightharpoonup> nat" where
  "senders g rid = map_option sl_sender (map_of (rg_slots g) rid)"

definition channels_inv :: "(uuid \<rightharpoonup> nat) \<Rightarrow> (nat \<Rightarrow> channel) \<Rightarrow> nat \<Rightarrow> bool" where
  "channels_inv m ch n \<longleftrightarrow>
     (\<forall>rid c. m rid = Some c \<longrightarrow> c < n \<and> ch c = ChWaiting)
     \<and> (\<forall>rid rid' c. m rid = Some c \<longrightarrow> m rid' = Some c \<longrightarrow> rid = rid')
     \<and> (\<forall>c < n. ch c = ChWaiting \<longrightarrow> (\<exists>rid. m rid = Some c))"

definition registry_inv :: "request_registry \<Rightarrow> bool" where
  "registry_inv g \<longleftrightarrow>
     distinct (map fst (rg_slots g)) \<and> length (rg_slots g) \<le> rg_max_in_flight g
     \<and> (rg_closed g \<longrightarrow> rg_slots g = [])
     \<and> retired_wf (rg_retired g) \<and> rt_capacity (rg_retired g) = rg_max_in_flight g
     \<and> channels_inv (senders g) (rg_channels g) (rg_next_channel g)"

lemma count_kind_simps [simp]:
  "rg_slots (count_kind k g) = rg_slots g" "rg_retired (count_kind k g) = rg_retired g"
  "rg_closed (count_kind k g) = rg_closed g" "rg_max_in_flight (count_kind k g) = rg_max_in_flight g"
  "rg_channels (count_kind k g) = rg_channels g" "rg_next_channel (count_kind k g) = rg_next_channel g"
  "rg_counters (count_kind k g) = record_rejection_kind k (rg_counters g)"
  by (simp_all add: count_kind_def)

lemma count_kind_inv [simp]: "registry_inv (count_kind k g) = registry_inv g"
  by (simp add: registry_inv_def senders_def [abs_def])

lemma length_update_old:
  "map_of al k \<noteq> None \<Longrightarrow> length (AList.update k v al) = length al"
  by (induction al) auto

lemma length_update_new:
  "map_of al k = None \<Longrightarrow> length (AList.update k v al) = Suc (length al)"
  by (induction al) (auto split: if_splits)

lemma reject_slot_simps [simp]:
  "rg_retired (reject_slot rid rej g) = rg_retired g" "rg_closed (reject_slot rid rej g) = rg_closed g"
  "rg_max_in_flight (reject_slot rid rej g) = rg_max_in_flight g"
  "rg_channels (reject_slot rid rej g) = rg_channels g"
  "rg_next_channel (reject_slot rid rej g) = rg_next_channel g" "rg_counters (reject_slot rid rej g) = rg_counters g"
  by (simp_all add: reject_slot_def split: option.splits)

lemma reject_slot_senders [simp]: "senders (reject_slot rid rej g) = senders g"
  by (auto simp: senders_def reject_slot_def update_conv' fun_eq_iff split: option.splits)

lemma reject_slot_keys [simp]: "map fst (rg_slots (reject_slot rid rej g)) = map fst (rg_slots g)"
  by (auto simp: reject_slot_def update_keys map_of_eq_None_iff split: option.splits)

lemma reject_slot_inv [simp]: "registry_inv (reject_slot rid rej g) = registry_inv g"
proof -
  have "length (rg_slots (reject_slot rid rej g)) = length (rg_slots g)"
    by (metis length_map reject_slot_keys)
  moreover have "rg_slots (reject_slot rid rej g) = [] \<longleftrightarrow> rg_slots g = []"
    using calculation by (metis length_0_conv)
  ultimately show ?thesis
    unfolding registry_inv_def by simp
qed

lemma channels_inv_consume:
  assumes "channels_inv m ch n" "m rid = Some c" "x \<noteq> ChWaiting"
  shows "channels_inv (m(rid := None)) (ch(c := x)) n"
proof -
  have uniq: "rid' = rid" if "m rid' = Some c" for rid'
    using assms(1,2) that unfolding channels_inv_def by blast
  show ?thesis
    unfolding channels_inv_def
  proof (intro conjI allI impI)
    fix rid' c'
    assume "(m(rid := None)) rid' = Some c'"
    then have "rid' \<noteq> rid" "m rid' = Some c'" by (auto split: if_splits)
    then show "c' < n" "(ch(c := x)) c' = ChWaiting"
      using assms(1) uniq unfolding channels_inv_def by (auto split: if_splits)
  next
    fix r r' c'
    assume "(m(rid := None)) r = Some c'" "(m(rid := None)) r' = Some c'"
    then show "r = r'"
      using assms(1) unfolding channels_inv_def by (auto split: if_splits)
  next
    fix c'
    assume "c' < n" "(ch(c := x)) c' = ChWaiting"
    moreover from this have "c' \<noteq> c" using assms(3) by auto
    ultimately obtain r where "m r = Some c'"
      using assms(1) unfolding channels_inv_def by auto
    then show "\<exists>r. (m(rid := None)) r = Some c'"
      using \<open>c' \<noteq> c\<close> assms(2) by (intro exI [of _ r]) auto
  qed
qed

lemma consume_slot_inv:
  assumes inv: "registry_inv g" and s: "map_of (rg_slots g) rid = Some s" and x: "x \<noteq> ChWaiting"
  shows "registry_inv (g\<lparr>rg_slots := AList.delete rid (rg_slots g),
      rg_retired := retired_record rid why (rg_retired g), rg_channels := (rg_channels g)(sl_sender s := x)\<rparr>)"
    (is "registry_inv ?g")
proof -
  have "senders ?g = (senders g)(rid := None)"
    by (auto simp: senders_def delete_conv' fun_eq_iff)
  moreover have "channels_inv ((senders g)(rid := None)) ((rg_channels g)(sl_sender s := x)) (rg_next_channel g)"
    by (rule channels_inv_consume) (use inv s x in \<open>auto simp: registry_inv_def senders_def\<close>)
  moreover have "length (AList.delete rid (rg_slots g)) \<le> rg_max_in_flight g"
    using inv length_delete_le [of rid "rg_slots g"] by (simp add: registry_inv_def)
  ultimately show ?thesis
    using inv by (simp add: registry_inv_def distinct_delete retired_record_wf)
qed

lemma registry_remove_inv: "registry_inv g \<Longrightarrow> registry_inv (registry_remove rid g)"
  by (auto simp: registry_remove_def consume_slot_inv split: option.splits)

lemma abandon_slots_fold: "abandon_slots ks g = fold registry_remove ks g"
  by (induction ks arbitrary: g) (simp_all add: registry_remove_def)

lemma abandon_slots_inv: "registry_inv g \<Longrightarrow> registry_inv (abandon_slots ks g)"
  unfolding abandon_slots_fold by (induction ks arbitrary: g) (simp_all add: registry_remove_inv)

lemma abandon_slots_keys:
  "map fst (rg_slots (abandon_slots ks g)) = filter (\<lambda>k. k \<notin> set ks) (map fst (rg_slots g))"
proof (induction ks arbitrary: g)
  case (Cons k ks)
  have "map fst (rg_slots (registry_remove k g)) = filter (\<lambda>x. x \<noteq> k) (map fst (rg_slots g))"
  proof (cases "map_of (rg_slots g) k")
    case None
    then have "\<forall>x \<in> set (map fst (rg_slots g)). x \<noteq> k"
      by (auto simp: map_of_eq_None_iff)
    then show ?thesis
      using None by (simp only: registry_remove_def option.case filter_True)
  next
    case (Some s)
    then show ?thesis
      by (simp add: registry_remove_def delete_keys removeAll_filter_not_eq) (metis (lifting) filter_cong)
  qed
  then show ?case
    using Cons [of "registry_remove k g"] by (simp add: abandon_slots_fold conj_commute)
qed simp

lemma abandon_all:
  "set ks = fst ` set (rg_slots g) \<Longrightarrow> rg_slots (abandon_slots ks g) = []"
  using abandon_slots_keys [of ks g] by (auto simp: filter_empty_conv)

lemma registry_remove_closed [simp]:
  "rg_closed (registry_remove rid g) = rg_closed g" "rg_max_in_flight (registry_remove rid g) = rg_max_in_flight g"
  "rg_counters (registry_remove rid g) = rg_counters g" "rg_next_channel (registry_remove rid g) = rg_next_channel g"
  by (simp_all add: registry_remove_def split: option.splits)

lemma register_inv:
  assumes inv: "registry_inv g" shows "registry_inv (snd (register rid expectation g))"
proof (cases "rg_closed g \<or> map_of (rg_slots g) rid \<noteq> None \<or> rg_max_in_flight g \<le> registry_len g")
  case True
  then show ?thesis using inv by (auto simp: register_def)
next
  case False
  let ?g = "snd (register rid expectation g)"
  have sd: "senders ?g = (senders g)(rid \<mapsto> rg_next_channel g)"
    using False by (auto simp: senders_def register_def Let_def update_conv' fun_eq_iff)
  have none: "map_of (rg_slots g) rid = None" using False by simp
  have ch: "channels_inv (senders g) (rg_channels g) (rg_next_channel g)" and fresh: "senders g rid = None"
    using inv none by (simp_all add: registry_inv_def senders_def)
  have old: "c < rg_next_channel g" if "senders g r = Some c" for r c
    using ch that unfolding channels_inv_def by blast
  have "channels_inv ((senders g)(rid \<mapsto> rg_next_channel g))
      ((rg_channels g)(rg_next_channel g := ChWaiting)) (Suc (rg_next_channel g))"
    unfolding channels_inv_def
  proof (intro conjI allI impI)
    fix c
    assume c: "c < Suc (rg_next_channel g)" "((rg_channels g)(rg_next_channel g := ChWaiting)) c = ChWaiting"
    show "\<exists>r. ((senders g)(rid \<mapsto> rg_next_channel g)) r = Some c"
    proof (cases "c = rg_next_channel g")
      case False
      then have "c < rg_next_channel g" "rg_channels g c = ChWaiting" using c by auto
      then obtain r where "senders g r = Some c"
        using ch unfolding channels_inv_def by blast
      then show ?thesis using fresh by (intro exI [of _ r]) auto
    qed (auto intro: exI [of _ rid])
  qed (use ch old in \<open>auto simp: channels_inv_def split: if_splits intro: less_SucI dest: less_imp_neq\<close>)
  then show ?thesis
    using inv False unfolding registry_inv_def sd
    by (auto simp: register_def Let_def registry_len_def length_update_new [OF none] distinct_update)
qed

lemma resolve_inv: "registry_inv g \<Longrightarrow> registry_inv (resolve uc dec e auth g)"
  by (auto simp: resolve_def Let_def consume_slot_inv split: sum.splits option.splits slot_retirement.splits)

lemma registry_close_inv:
  assumes "registry_inv g" "set ks = fst ` set (rg_slots g)" shows "registry_inv (registry_close ks g)"
proof -
  have "registry_remove k (g\<lparr>rg_closed := True\<rparr>) = (registry_remove k g)\<lparr>rg_closed := True\<rparr>" for k g
    by (cases g) (simp add: registry_remove_def split: option.split)
  then have "abandon_slots ks (g\<lparr>rg_closed := True\<rparr>) = (abandon_slots ks g)\<lparr>rg_closed := True\<rparr>"
    unfolding abandon_slots_fold by (induction ks arbitrary: g) simp_all
  moreover have "registry_inv (abandon_slots ks g)" "rg_slots (abandon_slots ks g) = []"
    using assms by (simp_all add: abandon_slots_inv abandon_all)
  ultimately show ?thesis
    by (simp add: registry_close_def registry_inv_def senders_def [abs_def])
qed

lemma registry_exec_inv:
  "registry_inv g \<Longrightarrow> call_wf c g \<Longrightarrow> registry_inv (registry_exec uc dec c g)"
  by (cases c) (simp_all add: register_inv resolve_inv record_undecodable_def drain_def abandon_slots_inv
      registry_close_inv pending_drop_def registry_remove_inv)

lemma registry_new_inv: "registry_inv (registry_new n)"
  by (simp add: registry_new_def registry_inv_def retired_new_def retired_wf_def channels_inv_def senders_def)

lemma registry_run_inv:
  "registry_inv g \<Longrightarrow> registry_run uc dec cs g = Some g' \<Longrightarrow> registry_inv g'"
  by (induction cs arbitrary: g) (auto dest: registry_exec_inv split: if_splits)

section \<open>Lemmas: refinement of the rendezvous\<close>

lemma rendezvous_of_count_kind [simp]: "rendezvous_of (count_kind k g) = rendezvous_of g"
  by (simp add: rendezvous_of_def)

lemma rendezvous_of_reject_slot [simp]: "rendezvous_of (reject_slot rid rej g) = rendezvous_of g"
  by (auto simp: rendezvous_of_def reject_slot_def update_conv' fun_eq_iff split: option.splits)

lemma pending_rendezvous_of:
  "rv_pending (rendezvous_of g) rid =
     map_option (\<lambda>s. (sl_expectation s, sl_sender s)) (map_of (rg_slots g) rid)"
  by (simp add: rendezvous_of_def)

lemma dom_pending: "dom (rv_pending (rendezvous_of g)) = fst ` set (rg_slots g)"
  using dom_map_of_conv_image_fst [of "rg_slots g"] by (simp add: rendezvous_of_def dom_def)

lemma card_pending:
  "registry_inv g \<Longrightarrow> card (dom (rv_pending (rendezvous_of g))) = registry_len g"
  by (metis dom_pending distinct_card length_map list.set_map registry_inv_def registry_len_def)

lemma rendezvous_of_settle:
  "map_of (rg_slots g) rid = Some s \<Longrightarrow>
   rendezvous_of (g\<lparr>rg_slots := AList.delete rid (rg_slots g),
      rg_retired := retired_record rid why (rg_retired g), rg_channels := (rg_channels g)(sl_sender s := x)\<rparr>)
   = rv_settle rid x (rendezvous_of g)"
  by (auto simp: rendezvous_of_def rv_settle_def delete_conv' fun_eq_iff)

lemma rendezvous_of_remove: "rendezvous_of (registry_remove rid g) = rv_settle rid ChClosed (rendezvous_of g)"
proof (cases "map_of (rg_slots g) rid")
  case None
  then show ?thesis by (simp add: registry_remove_def rv_settle_def rendezvous_of_def)
next
  case (Some s)
  then show ?thesis
    using rendezvous_of_settle [OF Some] by (simp add: registry_remove_def)
qed

lemma rendezvous_of_abandon:
  "rendezvous_of (abandon_slots ks g) = fold (\<lambda>rid. rv_settle rid ChClosed) ks (rendezvous_of g)"
  unfolding abandon_slots_fold by (induction ks arbitrary: g) (simp_all add: rendezvous_of_remove)

lemma rv_settle_fold:
  assumes "distinct ks"
  shows "fold (\<lambda>rid. rv_settle rid ChClosed) ks r =
    r\<lparr>rv_pending := rv_pending r |` (- set ks),
      rv_channels := (\<lambda>c. if \<exists>rid \<in> set ks. \<exists>x. rv_pending r rid = Some (x, c) then ChClosed else rv_channels r c)\<rparr>"
  using assms
proof (induction ks arbitrary: r)
  case Nil
  then show ?case by (simp add: restrict_map_def)
next
  case (Cons k ks)
  then show ?case
    by (cases r) (auto simp: rv_settle_def fun_eq_iff restrict_map_def split: option.splits)
qed

lemma rendezvous_of_abandon_all:
  assumes "distinct ks" "set ks = fst ` set (rg_slots g)"
  shows "rendezvous_of (abandon_slots ks g) = rv_abandon_all (rendezvous_of g)"
proof -
  let ?r = "rendezvous_of g"
  have ks: "set ks = dom (rv_pending ?r)"
    using assms(2) by (simp add: dom_pending)
  have "rv_pending ?r |` (- set ks) = Map.empty"
    by (auto simp: ks restrict_map_def fun_eq_iff)
  moreover have "(\<exists>rid \<in> set ks. \<exists>x. rv_pending ?r rid = Some (x, c)) \<longleftrightarrow> c \<in> snd ` ran (rv_pending ?r)" for c
    unfolding ks by (force simp: ran_def)
  ultimately show ?thesis
    by (simp add: rendezvous_of_abandon rv_settle_fold assms(1) rv_abandon_all_def)
qed

lemma rendezvous_of_register:
  assumes "registry_inv g"
  shows "rendezvous_of (snd (register rid expectation g)) = rv_exec uc dec (CallRegister rid expectation) (rendezvous_of g)"
  using card_pending [OF assms]
  by (auto simp: register_def Let_def rendezvous_of_def update_conv' fun_eq_iff)

lemma rendezvous_of_resolve:
  "rendezvous_of (resolve uc dec e auth g) = rv_exec uc dec (CallResolve e auth) (rendezvous_of g)"
  by (auto simp: resolve_def Let_def pending_rendezvous_of rendezvous_of_settle rbind_eq_Inr rbind_eq_Inl
      split: sum.splits option.splits slot_retirement.splits)

lemma rendezvous_of_exec:
  assumes "registry_inv g" "call_wf c g"
  shows "rendezvous_of (registry_exec uc dec c g) = rv_exec uc dec c (rendezvous_of g)"
proof (cases c)
  case (CallClose ks)
  have "rendezvous_of (g\<lparr>rg_closed := True\<rparr>) = (rendezvous_of g)\<lparr>rv_closed := True\<rparr>"
    by (simp add: rendezvous_of_def)
  then show ?thesis
    using CallClose assms(2) rendezvous_of_abandon_all [of ks "g\<lparr>rg_closed := True\<rparr>"]
    by (cases "rendezvous_of g") (simp add: registry_close_def rv_abandon_all_def cong: if_cong)
qed (use assms in \<open>simp_all add: rendezvous_of_register [where uc = uc and dec = dec] rendezvous_of_resolve record_undecodable_def
    drain_def rendezvous_of_abandon_all pending_drop_def rendezvous_of_remove del: rv_exec.simps(1,2)\<close>)

lemma rendezvous_of_run:
  "registry_inv g \<Longrightarrow> registry_run uc dec cs g = Some g' \<Longrightarrow>
   rendezvous_of g' = fold (rv_exec uc dec) cs (rendezvous_of g)"
proof (induction cs arbitrary: g)
  case (Cons c cs)
  then have "call_wf c g" "registry_run uc dec cs (registry_exec uc dec c g) = Some g'"
    by (simp_all split: if_splits)
  then show ?case
    using Cons.IH [of "registry_exec uc dec c g"] Cons.prems(1) by (simp add: registry_exec_inv rendezvous_of_exec)
qed simp

lemma rv_channels_of [simp]:
  "rv_channels (rendezvous_of g) = rg_channels g" "rv_issued (rendezvous_of g) = rg_next_channel g"
  by (simp_all add: rendezvous_of_def)

text \<open>Only a slot's own channel changes, and a slot's channel is waiting.\<close>

lemma rv_settle_settled:
  "(\<And>rid x. rv_pending r rid = Some (x, c) \<Longrightarrow> False) \<Longrightarrow> rv_channels (rv_settle rid y r) c = rv_channels r c"
  by (auto simp: rv_settle_def split: option.splits)

lemma registry_exec_settled:
  assumes inv: "registry_inv g" and wf: "call_wf call g"
    and c: "c < rg_next_channel g" "rg_channels g c \<noteq> ChWaiting"
  shows "rg_channels (registry_exec uc dec call g) c = rg_channels g c
    \<and> c < rg_next_channel (registry_exec uc dec call g)"
proof -
  let ?r = "rendezvous_of g"
  have "senders g rid \<noteq> Some c" for rid
    using inv c(2) unfolding registry_inv_def channels_inv_def by blast
  then have free: "rv_pending ?r rid \<noteq> Some (x, c)" for rid x
    by (auto simp: pending_rendezvous_of senders_def simp del: map_of_eq_Some_iff)
  have "rv_channels (rv_exec uc dec call ?r) c = rv_channels ?r c \<and> rv_issued ?r \<le> rv_issued (rv_exec uc dec call ?r)"
  proof (cases call)
    case (CallResolve e auth)
    then show ?thesis
      using free rv_settle_settled [of ?r c]
      by (auto simp: rv_settle_def split: sum.splits option.splits)
  next
    case (CallRegister rid x)
    then show ?thesis using c(1) by auto
  next
    case (CallDrain ks)
    then show ?thesis using free by (auto simp: rv_abandon_all_def ran_def)
  next
    case (CallClose ks)
    then show ?thesis using free by (auto simp: rv_abandon_all_def ran_def)
  next
    case (CallDrop p)
    then show ?thesis using free by (auto simp: rv_settle_def split: option.splits)
  qed simp
  then show ?thesis
    using c(1) by (simp add: rendezvous_of_exec [OF inv wf, symmetric])
qed

lemma registry_run_settled:
  "registry_inv g \<Longrightarrow> c < rg_next_channel g \<Longrightarrow> rg_channels g c \<noteq> ChWaiting \<Longrightarrow>
   registry_run uc dec cs g = Some g' \<Longrightarrow> rg_channels g' c = rg_channels g c"
proof (induction cs arbitrary: g)
  case (Cons call cs)
  then have wf: "call_wf call g" and run: "registry_run uc dec cs (registry_exec uc dec call g) = Some g'"
    by (simp_all split: if_splits)
  have "rg_channels (registry_exec uc dec call g) c = rg_channels g c \<and> c < rg_next_channel (registry_exec uc dec call g)"
    using registry_exec_settled [OF Cons.prems(1) wf Cons.prems(2,3)] .
  then show ?case
    using Cons.IH [OF registry_exec_inv [OF Cons.prems(1) wf, of uc dec]] run Cons.prems(3) by simp
qed simp

text \<open>A request for the reply type \<open>Pong\<close> under identity 3, and a valid reply to it.\<close>

definition sample_reply :: bus_envelope where
  "sample_reply =
     insert_protocol_header protocol_version_header (show_nat (unat protocol_version))
       (insert_protocol_header reply_status_header reply_status_ok
         (insert_protocol_header request_id_header (uc_show decimal_codec 3) (sample_envelope\<lparr>env_message_type := ''Pong''\<rparr>)))"

abbreviation sample_exchange :: "registry_call list" where
  "sample_exchange \<equiv> [CallRegister 3 ''Pong'', CallResolve sample_reply (Inr ReplyNotEnforced)]"

lemma sample_reply_read:
  "readable_request_id decimal_codec sample_reply = Some 3" "accepts ''Pong'' sample_reply = Inr ()"
  "accepts_error_identity dec sample_reply 3 = Inr ()"
proof -
  have ok: "reply_status_ok \<noteq> reply_status_error"
    by (simp add: reply_status_ok_def reply_status_error_def)
  have n: "request_id_header \<noteq> protocol_version_header" "reply_status_header \<noteq> protocol_version_header"
    "request_id_header \<noteq> reply_status_header"
    by (simp_all add: rpc_header_defs)
  have h: "header sample_reply request_id_header = Some (uc_show decimal_codec 3)"
    "header sample_reply protocol_version_header = Some (show_nat (unat protocol_version))"
    "header sample_reply reply_status_header = Some reply_status_ok"
    using n by (simp_all add: sample_reply_def)
  show "readable_request_id decimal_codec sample_reply = Some 3"
    using decimal_codec_ok by (simp add: readable_request_id_def h uuid_codec_ok_def)
  have "env_message_type sample_reply = ''Pong''"
    by (simp add: sample_reply_def insert_protocol_header_def)
  then show "accepts ''Pong'' sample_reply = Inr ()"
    by (simp add: accepts_def read_protocol_version_def h parse_version_one)
  show "accepts_error_identity dec sample_reply 3 = Inr ()"
    using ok by (simp add: accepts_error_identity_def h)
qed

lemma sample_exchange_run:
  "\<exists>g. registry_run decimal_codec dec sample_exchange (registry_new 2) = Some g \<and> rg_next_channel g = 1
     \<and> rg_channels g 0 = ChDelivered sample_reply ReplyNotEnforced \<and> rg_slots g = [] \<and> \<not> rg_closed g"
  using sample_reply_read
  by (simp add: register_def registry_new_def registry_len_def Let_def resolve_def)

text \<open>A rejection by the protocol checks counts as an invalid reply.\<close>

lemma rejection_of_accepts:
  assumes "rbind (accepts t e) (\<lambda>_. accepts_error_identity dec e rid) = Inl rej"
  shows "rejection_kind rej = InvalidReply"
  using assms by (auto simp: rbind_eq_Inl accepts_def accepts_error_identity_def split: option.splits if_splits)

text \<open>The counter of a delivery that settles nothing.\<close>

definition reply_verdict ::
  "uuid_codec \<Rightarrow> bus_envelope \<Rightarrow> (transport_refusal, reply_authentication) result \<Rightarrow> request_registry \<Rightarrow>
   reply_rejection_kind"
where
  "reply_verdict uc e auth g =
     (case (auth, readable_request_id uc e) of
        (Inl _, _) \<Rightarrow> UnauthenticatedKind
      | (Inr _, None) \<Rightarrow> Orphaned
      | (Inr _, Some rid) \<Rightarrow>
          if map_of (rg_slots g) rid \<noteq> None then InvalidReply
          else case retired_lookup rid (rg_retired g) of
                 Some Resolved \<Rightarrow> Duplicate | Some Abandoned \<Rightarrow> Late | None \<Rightarrow> Orphaned)"

lemma resolve_counts:
  assumes "\<nexists>rid s a. auth = Inr a \<and> readable_request_id uc e = Some rid \<and> map_of (rg_slots g) rid = Some s
      \<and> accepts (sl_expectation s) e = Inr () \<and> accepts_error_identity dec e rid = Inr ()"
  shows "rg_counters (resolve uc dec e auth g) = record_rejection_kind (reply_verdict uc e auth g) (rg_counters g)"
proof (cases auth)
  case (Inl r)
  have "rejection_kind (refusal_rejection r) = UnauthenticatedKind" by (cases r) simp
  then show ?thesis
    using Inl by (simp add: resolve_def reply_verdict_def Let_def split: option.split)
next
  case (Inr a)
  show ?thesis
  proof (cases "readable_request_id uc e")
    case None
    then show ?thesis using Inr by (simp add: resolve_def reply_verdict_def)
  next
    case (Some rid)
    show ?thesis
    proof (cases "map_of (rg_slots g) rid")
      case None
      then show ?thesis
        using Inr Some by (simp add: resolve_def reply_verdict_def split: option.split slot_retirement.split)
    next
      case slot: (Some s)
      then obtain rej where rej: "rbind (accepts (sl_expectation s) e) (\<lambda>_. accepts_error_identity dec e rid) = Inl rej"
        using assms Inr Some
        by (cases "rbind (accepts (sl_expectation s) e) (\<lambda>_. accepts_error_identity dec e rid)")
          (auto simp: rbind_eq_Inr simp del: map_of_eq_Some_iff)
      then show ?thesis
        using Inr Some slot rejection_of_accepts [OF rej] by (simp add: resolve_def reply_verdict_def rej)
    qed
  qed
qed

section \<open>Properties\<close>

text \<open>
  C9. The registry implements the abstract rendezvous: after any sequence of registrations,
  deliveries, drains, closings and abandoned waits, the pending requests, the channels of the
  callers, the capacity and the closed flag are exactly those the contract computes. In
  particular draining settles the same callers whatever the iteration order of the hash map,
  and counters and retired identities never influence a caller.
\<close>

theorem registry_refines_rendezvous:
  assumes "registry_run uc dec cs (registry_new n) = Some g"
  shows "rendezvous_of g = fold (rv_exec uc dec) cs (rendezvous_of (registry_new n))"
  using rendezvous_of_run [OF registry_new_inv assms] .

theorem registry_refines_rendezvous_witness:
  "\<exists>g. registry_run decimal_codec (\<lambda>_. None) sample_exchange (registry_new 2) = Some g
     \<and> rendezvous_of g = fold (rv_exec decimal_codec (\<lambda>_. None)) sample_exchange (rendezvous_of (registry_new 2))"
  using sample_exchange_run [of "\<lambda>_. None"] registry_refines_rendezvous [of decimal_codec "\<lambda>_. None" sample_exchange 2]
  by blast

text \<open>
  C15. The slot table never holds more than the configured number of requests nor two slots
  under one identity, the memory of retired identities is bounded by the same number, every
  slot owns its own open channel, and once the registry is closed no caller it ever admitted
  is left waiting.
\<close>

theorem registry_invariant:
  assumes "registry_run uc dec cs (registry_new n) = Some g"
  shows "registry_inv g \<and> registry_len g \<le> n \<and> length (rt_order (rg_retired g)) \<le> n
    \<and> (rg_closed g \<longrightarrow> (\<forall>p. pr_receiver p < rg_next_channel g \<longrightarrow> pending_wait p g \<noteq> None))"
proof -
  have inv: "registry_inv g"
    using registry_run_inv [OF registry_new_inv assms] .
  have cap: "rv_capacity (fold (rv_exec uc dec) cs r) = rv_capacity r" for r
  proof (induction cs arbitrary: r)
    case (Cons c cs)
    have "rv_capacity (rv_exec uc dec c r) = rv_capacity r"
      by (cases c) (auto simp: rv_settle_def rv_abandon_all_def split: option.splits sum.splits)
    then show ?case using Cons by simp
  qed simp
  have n: "rg_max_in_flight g = n"
    using rendezvous_of_run [OF registry_new_inv assms] cap [of "rendezvous_of (registry_new n)"]
    by (metis registry_new_def rendezvous.select_convs(5) rendezvous_of_def request_registry.select_convs(5))
  have "rg_channels g c \<noteq> ChWaiting" if "rg_closed g" "c < rg_next_channel g" for c
    using inv that by (auto simp: registry_inv_def channels_inv_def senders_def)
  then show ?thesis
    using inv n
    by (auto simp: registry_inv_def retired_wf_def registry_len_def pending_wait_def split: channel.splits)
qed

theorem registry_invariant_witness:
  "\<exists>g. registry_run decimal_codec (\<lambda>_. None) (sample_exchange @ [CallRegister 4 ''Pong'', CallClose [4]]) (registry_new 2)
      = Some g \<and> rg_closed g \<and> pending_wait \<lparr>pr_request_id = 4, pr_receiver = 1\<rparr> g \<noteq> None"
proof -
  have "\<exists>g. registry_run decimal_codec (\<lambda>_. None) (sample_exchange @ [CallRegister 4 ''Pong'', CallClose [4]]) (registry_new 2)
      = Some g \<and> rg_closed g \<and> rg_next_channel g = 2"
    using sample_reply_read
    by (simp add: register_def registry_new_def registry_len_def Let_def resolve_def registry_close_def)
  then obtain g where g: "registry_run decimal_codec (\<lambda>_. None)
      (sample_exchange @ [CallRegister 4 ''Pong'', CallClose [4]]) (registry_new 2) = Some g"
    "rg_closed g" "rg_next_channel g = 2"
    by blast
  show ?thesis
    using registry_invariant [OF g(1)] g by (intro exI [of _ g]) simp
qed

text \<open>
  C14. A caller's outcome is final. Once a channel holds a reply or is closed, no further
  delivery, drain, closing or abandoned wait changes what its caller reads: the first valid
  reply wins, and a later one under the same identity cannot replace it.
\<close>

theorem caller_outcome_final:
  assumes "registry_run uc dec cs (registry_new n) = Some g" "pr_receiver p < rg_next_channel g"
    and "pending_wait p g = Some outcome" "registry_run uc dec cs' g = Some g'"
  shows "pending_wait p g' = Some outcome"
proof -
  have "rg_channels g (pr_receiver p) \<noteq> ChWaiting"
    using assms(3) by (auto simp: pending_wait_def)
  then have "rg_channels g' (pr_receiver p) = rg_channels g (pr_receiver p)"
    using registry_run_settled [OF registry_run_inv [OF registry_new_inv assms(1)] assms(2) _ assms(4)] by blast
  then show ?thesis
    using assms(3) by (simp add: pending_wait_def)
qed

theorem caller_outcome_final_witness:
  "\<exists>g'. registry_run decimal_codec (\<lambda>_. None) (sample_exchange @ [CallResolve sample_reply (Inr ReplyWaivedUnsigned)])
      (registry_new 2) = Some g'
    \<and> pending_wait \<lparr>pr_request_id = 3, pr_receiver = 0\<rparr> g' = Some (Some (sample_reply, ReplyNotEnforced))"
proof -
  obtain g where g: "registry_run decimal_codec (\<lambda>_. None) sample_exchange (registry_new 2) = Some g"
    "rg_next_channel g = 1" "rg_channels g 0 = ChDelivered sample_reply ReplyNotEnforced"
    using sample_exchange_run [of "\<lambda>_. None"] by blast
  have again: "registry_run decimal_codec (\<lambda>_. None) [CallResolve sample_reply (Inr ReplyWaivedUnsigned)] g
      = Some (resolve decimal_codec (\<lambda>_. None) sample_reply (Inr ReplyWaivedUnsigned) g)" (is "_ = Some ?g'")
    by simp
  have "pending_wait \<lparr>pr_request_id = 3, pr_receiver = 0\<rparr> ?g' = Some (Some (sample_reply, ReplyNotEnforced))"
    by (rule caller_outcome_final [OF g(1) _ _ again]) (simp_all add: g pending_wait_def)
  then show ?thesis
    using g(1) by (intro exI [of _ ?g']) simp
qed

text \<open>
  A delivery is accounted for exactly once. It either settles one pending request, on an
  authenticated or waived envelope that carries that request's identity and passes the
  protocol checks, leaving every counter alone; or it adds one to exactly one counter and
  leaves every caller as it was. Which counter: a refused authentication, an identity that is
  unreadable or unknown, one already answered, one given up, or a broken protocol rule.
\<close>

theorem reply_accounting:
  "(\<exists>rid s a. auth = Inr a \<and> readable_request_id uc e = Some rid \<and> map_of (rg_slots g) rid = Some s
      \<and> accepts (sl_expectation s) e = Inr () \<and> accepts_error_identity dec e rid = Inr ()
      \<and> rendezvous_of (resolve uc dec e auth g) = rv_settle rid (ChDelivered e a) (rendezvous_of g)
      \<and> rg_counters (resolve uc dec e auth g) = rg_counters g)
   \<or> (\<exists>k. rg_counters (resolve uc dec e auth g) = record_rejection_kind k (rg_counters g)
      \<and> rendezvous_of (resolve uc dec e auth g) = rendezvous_of g
      \<and> k = reply_verdict uc e auth g)"
proof (cases "\<exists>rid s a. auth = Inr a \<and> readable_request_id uc e = Some rid \<and> map_of (rg_slots g) rid = Some s
      \<and> accepts (sl_expectation s) e = Inr () \<and> accepts_error_identity dec e rid = Inr ()")
  case True
  then obtain rid s a where w: "auth = Inr a" "readable_request_id uc e = Some rid" "map_of (rg_slots g) rid = Some s"
    "accepts (sl_expectation s) e = Inr ()" "accepts_error_identity dec e rid = Inr ()"
    by blast
  then have r: "resolve uc dec e auth g = g\<lparr>rg_slots := AList.delete rid (rg_slots g),
      rg_retired := retired_record rid Resolved (rg_retired g), rg_channels := (rg_channels g)(sl_sender s := ChDelivered e a)\<rparr>"
    by (simp add: resolve_def)
  then have "rendezvous_of (resolve uc dec e auth g) = rv_settle rid (ChDelivered e a) (rendezvous_of g)"
    using rendezvous_of_settle [OF w(3)] by simp
  then show ?thesis
    using w r by (intro disjI1 exI [of _ rid] exI [of _ s] exI [of _ a]) simp
next
  case False
  show ?thesis
  proof (intro disjI2 exI conjI; (rule refl)?)
    show "rendezvous_of (resolve uc dec e auth g) = rendezvous_of g"
      using False by (auto simp: rendezvous_of_resolve pending_rendezvous_of split: sum.splits option.splits)
    show "rg_counters (resolve uc dec e auth g) = record_rejection_kind (reply_verdict uc e auth g) (rg_counters g)"
      using False by (intro resolve_counts) blast
  qed
qed

text \<open>
  A retired identity stays classifiable for at least \<open>capacity - 1\<close> retirements of other
  identities, whatever their reasons and order, so a duplicate or late reply within that window
  is never mistaken for an orphan; and the memory never exceeds its capacity.
\<close>

theorem retirement_window:
  assumes "retired_wf r" "retired_lookup rid r = None" "length others < rt_capacity r" "rid \<notin> fst ` set others"
  shows "retired_lookup rid (fold (\<lambda>(other, w). retired_record other w) others (retired_record rid why r)) = Some why
    \<and> length (rt_order (fold (\<lambda>(other, w). retired_record other w) others (retired_record rid why r))) \<le> rt_capacity r"
proof -
  have step: "retired_lookup rid (fold (\<lambda>(other, w). retired_record other w) os q) = Some why
      \<and> retired_wf (fold (\<lambda>(other, w). retired_record other w) os q)
      \<and> rt_capacity (fold (\<lambda>(other, w). retired_record other w) os q) = rt_capacity q"
    if "retired_wf q" "retired_lookup rid q = Some why" "length os \<le> remaining_window rid q" "rid \<notin> fst ` set os" for os q
    using that
  proof (induction os arbitrary: q)
    case (Cons p os)
    obtain other w where p: "p = (other, w)" by (cases p)
    have neq: "other \<noteq> rid" using Cons.prems(4) p by auto
    have room: "0 < remaining_window rid q" using Cons.prems(3) by simp
    have "retired_lookup rid (retired_record other w q) = Some why"
      "remaining_window rid q \<le> Suc (remaining_window rid (retired_record other w q))"
      using retired_record_other [OF Cons.prems(1,2) neq room] by auto
    then show ?case
      using Cons.IH [of "retired_record other w q"] Cons.prems p by (simp add: retired_record_wf)
  qed simp
  let ?q = "retired_record rid why r"
  have "0 < rt_capacity r" using assms(3) by linarith
  then have "length others \<le> remaining_window rid ?q" "retired_lookup rid ?q = Some why" "retired_wf ?q"
    using retired_record_window [OF assms(1,2)] retired_record_lookup [OF assms(1)] assms(3)
    by (simp_all add: retired_record_wf assms(1))
  then show ?thesis
    using step [of ?q others] assms(4) by (simp add: retired_wf_def)
qed

theorem retirement_window_witness:
  "retired_lookup 7 (fold (\<lambda>(other, w). retired_record other w) [(8, Abandoned), (9, Resolved)]
     (retired_record 7 Resolved (retired_new 3))) = Some Resolved"
proof -
  have "retired_wf (retired_new 3)" "retired_lookup 7 (retired_new 3) = None" "rt_capacity (retired_new 3) = 3"
    by (simp_all add: retired_new_def retired_wf_def retired_lookup_def)
  then show ?thesis
    using retirement_window [of "retired_new 3" 7 "[(8, Abandoned), (9, Resolved)]" Resolved] by simp
qed

end
