(* ===== verification/Amqp_Worker.thy ===== *)
theory Amqp_Worker
  imports Amqp_Delivery
begin

text \<open>
  The RabbitMQ consumer (\<open>crates/hexeract-bus-rabbitmq/src/worker.rs\<close>): configuration and builder,
  retry accounting, the dispatch of one delivery with every settlement path, the setup of a run,
  and the consume loop with its flow control and shutdown drain.

  One dispatch publishes at most one copy and settles at most once. What the broker answers to
  the publish, the ack and the nack is a \<open>broker_script\<close>; the commands a dispatch issues are
  returned as the list of its \<open>worker_action\<close>s, in order. A registered handler is a function of
  the envelope and its context that returns or panics. Logging and the propagation of the
  cancellation token into a handler are left out. The consume loop is a step relation, since
  handler tasks, cancellation and the delivery stream interleave freely.
\<close>

section \<open>Configuration\<close>

datatype delivery_disposition = Settled | LeftForRedelivery

fun from_settle_result :: "(bus_error, unit) result \<Rightarrow> delivery_disposition" where
  "from_settle_result (Inr _) = Settled"
| "from_settle_result (Inl _) = LeftForRedelivery"

fun keep_running :: "delivery_disposition \<Rightarrow> bool" where
  "keep_running Settled = True"
| "keep_running LeftForRedelivery = True"

datatype ack_mode = Manual | AckOnReceive | Unacknowledged

definition qos_applies :: "ack_mode \<Rightarrow> bool" where
  "qos_applies m \<longleftrightarrow> m \<noteq> Unacknowledged"

fun effective_bound :: "ack_mode \<Rightarrow> nat option \<Rightarrow> nat option" where
  "effective_bound Unacknowledged (Some n) = Some n"
| "effective_bound _ _ = None"

record ('s, 'sk, 'vk) inbound_security =
  is_crypto :: "('sk, 'vk) crypto"
  is_keys :: "('s, 'vk) key_source"
  is_config :: security_config

record ('s, 'sk, 'vk) amqp_worker_config =
  wc_ack_mode :: ack_mode
  wc_max_attempts :: u32
  wc_prefetch :: nat
  wc_dead_letter_routing_key :: "string option"
  wc_retry_delay :: duration
  wc_max_payload_bytes :: nat
  wc_max_buffered :: "nat option"
  wc_metadata_limits :: metadata_limits
  wc_envelope_security :: "('s, 'sk, 'vk) inbound_security option"
  wc_should_declare_queue :: bool
  wc_shutdown_grace :: duration

definition amqp_worker_config_default :: "('s, 'sk, 'vk) amqp_worker_config" where
  "amqp_worker_config_default =
     \<lparr>wc_ack_mode = Manual, wc_max_attempts = 5, wc_prefetch = 16, wc_dead_letter_routing_key = None,
      wc_retry_delay = from_secs 5, wc_max_payload_bytes = 1024 * 1024, wc_max_buffered = None,
      wc_metadata_limits = metadata_limits_default, wc_envelope_security = None,
      wc_should_declare_queue = False, wc_shutdown_grace = from_secs 30\<rparr>"

datatype handler_end = Returned "(bus_error, unit) result" | Panicked panic_payload

type_synonym erased_handler = "bus_envelope \<Rightarrow> handler_context \<Rightarrow> handler_end"

record ('s, 'sk, 'vk) amqp_worker_builder =
  wb_queue :: "string option"
  wb_handlers :: "string \<rightharpoonup> erased_handler"
  wb_config :: "('s, 'sk, 'vk) amqp_worker_config"

definition worker_builder_new :: "('s, 'sk, 'vk) amqp_worker_builder" where
  "worker_builder_new =
     \<lparr>wb_queue = None, wb_handlers = Map.empty, wb_config = amqp_worker_config_default\<rparr>"

datatype ('s, 'sk, 'vk) worker_setter =
    SetQueue string
  | SetDeclareQueue
  | RegisterHandler string erased_handler
  | SetAckMode ack_mode
  | SetMaxAttempts u32
  | SetPrefetch nat
  | SetDeadLetterRoutingKey string
  | SetRetryDelay duration
  | SetMaxPayloadBytes nat
  | SetMetadataLimits metadata_limits
  | SetEnvelopeSecurity "('s, 'sk, 'vk) inbound_security"
  | SetMaxBuffered nat
  | SetShutdownGrace duration

fun apply_worker_setter ::
  "('s, 'sk, 'vk) worker_setter \<Rightarrow> ('s, 'sk, 'vk) amqp_worker_builder \<Rightarrow> ('s, 'sk, 'vk) amqp_worker_builder"
where
  "apply_worker_setter (SetQueue q) b = b\<lparr>wb_queue := Some q\<rparr>"
| "apply_worker_setter SetDeclareQueue b = b\<lparr>wb_config := (wb_config b)\<lparr>wc_should_declare_queue := True\<rparr>\<rparr>"
| "apply_worker_setter (RegisterHandler ty h) b = b\<lparr>wb_handlers := (wb_handlers b)(ty \<mapsto> h)\<rparr>"
| "apply_worker_setter (SetAckMode m) b = b\<lparr>wb_config := (wb_config b)\<lparr>wc_ack_mode := m\<rparr>\<rparr>"
| "apply_worker_setter (SetMaxAttempts n) b = b\<lparr>wb_config := (wb_config b)\<lparr>wc_max_attempts := n\<rparr>\<rparr>"
| "apply_worker_setter (SetPrefetch n) b = b\<lparr>wb_config := (wb_config b)\<lparr>wc_prefetch := n\<rparr>\<rparr>"
| "apply_worker_setter (SetDeadLetterRoutingKey rk) b =
     b\<lparr>wb_config := (wb_config b)\<lparr>wc_dead_letter_routing_key := Some rk\<rparr>\<rparr>"
| "apply_worker_setter (SetRetryDelay d) b = b\<lparr>wb_config := (wb_config b)\<lparr>wc_retry_delay := d\<rparr>\<rparr>"
| "apply_worker_setter (SetMaxPayloadBytes n) b = b\<lparr>wb_config := (wb_config b)\<lparr>wc_max_payload_bytes := n\<rparr>\<rparr>"
| "apply_worker_setter (SetMetadataLimits l) b = b\<lparr>wb_config := (wb_config b)\<lparr>wc_metadata_limits := l\<rparr>\<rparr>"
| "apply_worker_setter (SetEnvelopeSecurity s) b =
     b\<lparr>wb_config := (wb_config b)\<lparr>wc_envelope_security := Some s\<rparr>\<rparr>"
| "apply_worker_setter (SetMaxBuffered n) b = b\<lparr>wb_config := (wb_config b)\<lparr>wc_max_buffered := Some n\<rparr>\<rparr>"
| "apply_worker_setter (SetShutdownGrace d) b = b\<lparr>wb_config := (wb_config b)\<lparr>wc_shutdown_grace := d\<rparr>\<rparr>"

definition require_queue :: "string option \<Rightarrow> (bus_error, string) result" where
  "require_queue q = ok_or q (BusInternal ''RabbitMqWorkerBuilder requires a queue name'')"

definition require_positive_bound :: "nat option \<Rightarrow> (bus_error, unit) result" where
  "require_positive_bound b =
     (if b = Some 0
      then Inl (BusInternal (''RabbitMqWorkerBuilder::max_buffered requires at least 1; ''
             @ ''omit the call for a no_ack consumer without a bound''))
      else Inr ())"

record ('s, 'sk, 'vk) amqp_worker =
  wk_queue :: string
  wk_handlers :: "string \<rightharpoonup> erased_handler"
  wk_config :: "('s, 'sk, 'vk) amqp_worker_config"

definition worker_build ::
  "('s, 'sk, 'vk) amqp_worker_builder \<Rightarrow> (bus_error, ('s, 'sk, 'vk) amqp_worker) result"
where
  "worker_build b =
     rbind (require_queue (wb_queue b)) (\<lambda>q.
     rbind (require_positive_bound (wc_max_buffered (wb_config b))) (\<lambda>_.
     Inr \<lparr>wk_queue = q, wk_handlers = wb_handlers b, wk_config = wb_config b\<rparr>))"

section \<open>Retry accounting\<close>

definition retry_queue_suffix :: string where
  "retry_queue_suffix = ''.retry''"

definition wait_queue_name :: "string \<Rightarrow> string" where
  "wait_queue_name queue = queue @ retry_queue_suffix"

text \<open>\<open>u32::try_from(count.max(0)).unwrap_or(u32::MAX)\<close> for an \<open>i64\<close>.\<close>

definition clamp_count :: "int \<Rightarrow> u32" where
  "clamp_count n = (let c = max n 0 in if c < 2 ^ 32 then word_of_int c else - 1)"

fun death_entry :: "string \<Rightarrow> amqp_value \<Rightarrow> int option" where
  "death_entry wait_queue (FieldTable entry) =
     (if map_of entry ''queue'' = Some (LongString wait_queue)
         \<and> map_of entry ''reason'' = Some (LongString ''expired'')
      then (case map_of entry ''count'' of Some (LongLongInt n) \<Rightarrow> Some n | _ \<Rightarrow> None)
      else None)"
| "death_entry wait_queue _ = None"

fun scan_deaths :: "string \<Rightarrow> amqp_value list \<Rightarrow> u32" where
  "scan_deaths wait_queue [] = 0"
| "scan_deaths wait_queue (death # deaths) =
     (case death_entry wait_queue death of
        Some n \<Rightarrow> clamp_count n
      | None \<Rightarrow> scan_deaths wait_queue deaths)"

definition death_count :: "basic_properties \<Rightarrow> string \<Rightarrow> u32" where
  "death_count props wait_queue =
     (case bp_headers props of
        None \<Rightarrow> 0
      | Some headers \<Rightarrow>
          (case headers ''x-death'' of
             Some (FieldArray deaths) \<Rightarrow> scan_deaths wait_queue deaths
           | _ \<Rightarrow> 0))"

datatype failure_route = Retry | DeadLetter u32

definition route_failure :: "bus_error \<Rightarrow> u32 \<Rightarrow> u32 \<Rightarrow> failure_route" where
  "route_failure err attempt max_attempts =
     (if is_permanent_delivery_failure err then DeadLetter 0
      else if attempt < max_attempts then Retry
      else DeadLetter attempt)"

section \<open>Properties of the copies\<close>

definition properties_without_headers :: "basic_properties \<Rightarrow> basic_properties" where
  "properties_without_headers p = basic_properties_default
     \<lparr>bp_content_type := bp_content_type p, bp_content_encoding := bp_content_encoding p,
      bp_delivery_mode := bp_delivery_mode p, bp_priority := bp_priority p,
      bp_correlation_id := bp_correlation_id p, bp_reply_to := bp_reply_to p,
      bp_expiration := bp_expiration p, bp_message_id := bp_message_id p,
      bp_timestamp := bp_timestamp p, bp_kind := bp_kind p, bp_app_id := bp_app_id p,
      bp_cluster_id := bp_cluster_id p, bp_headers := Some Map.empty\<rparr>"

definition is_parseable_uuid :: "uuid_codec \<Rightarrow> string option \<Rightarrow> bool" where
  "is_parseable_uuid uc prop = (case prop of None \<Rightarrow> False | Some raw \<Rightarrow> uc_parse uc raw \<noteq> None)"

definition properties_with_effective_identity ::
  "uuid_codec \<Rightarrow> basic_properties \<Rightarrow> bus_envelope \<Rightarrow> basic_properties"
where
  "properties_with_effective_identity uc p e =
     (let c\<^sub>1 = (if is_parseable_uuid uc (bp_message_id p) then p
                else p\<lparr>bp_message_id := Some (uc_show uc (env_message_id e))\<rparr>)
      in if is_parseable_uuid uc (bp_correlation_id p) then c\<^sub>1
         else c\<^sub>1\<lparr>bp_correlation_id := Some (uc_show uc (env_correlation_id e))\<rparr>)"

section \<open>Broker commands of one dispatch\<close>

record delivery =
  del_properties :: basic_properties
  del_data :: "byte list"
  del_routing_key :: string

datatype worker_action =
    DoPublish string basic_properties "byte list"
  | DoAck
  | DoNack bool
  | DoSleep duration
  | RunHandler bus_envelope handler_context

record broker_script =
  bs_publish :: "(string, confirmation) result"
  bs_ack :: "(string, unit) result"
  bs_nack :: "(string, unit) result"

type_synonym 'r io = "'r \<times> worker_action list"

definition basic_ack :: "broker_script \<Rightarrow> (bus_error, unit) result io" where
  "basic_ack bs = (map_err Transport (bs_ack bs), [DoAck])"

definition basic_nack :: "broker_script \<Rightarrow> bool \<Rightarrow> (bus_error, unit) result io" where
  "basic_nack bs requeue = (map_err Transport (bs_nack bs), [DoNack requeue])"

text \<open>A mandatory publish to the default exchange, confirmed: the shared body of both copies.\<close>

definition publish_confirmed ::
  "broker_script \<Rightarrow> string \<Rightarrow> string \<Rightarrow> string \<Rightarrow> basic_properties \<Rightarrow> byte list \<Rightarrow> (bus_error, unit) result io"
where
  "publish_confirmed bs field ctx rk props payload =
     (case to_short_string rk field of
        Inl err \<Rightarrow> (Inl err, [])
      | Inr rk' \<Rightarrow>
          (rbind (map_err Transport (bs_publish bs)) (\<lambda>c. confirmation_to_result c ctx rk),
           [DoPublish rk' props payload]))"

definition publish_to_wait_queue ::
  "uuid_codec \<Rightarrow> broker_script \<Rightarrow> delivery \<Rightarrow> bus_envelope \<Rightarrow> string \<Rightarrow> (bus_error, unit) result io"
where
  "publish_to_wait_queue uc bs d e wait_queue =
     publish_confirmed bs ''wait queue name'' ''retry publish'' wait_queue
       ((properties_with_effective_identity uc (del_properties d) e)\<lparr>bp_delivery_mode := Some 2\<rparr>) (del_data d)"

definition publish_dead_letter ::
  "broker_script \<Rightarrow> basic_properties \<Rightarrow> byte list \<Rightarrow> string \<Rightarrow> (bus_error, unit) result io"
where
  "publish_dead_letter bs props payload rk =
     publish_confirmed bs ''dead-letter routing key'' ''dead-letter publish'' rk
       (props\<lparr>bp_delivery_mode := Some 2\<rparr>) payload"

fun requeue_on_publish_failure :: "bus_error \<Rightarrow> bool" where
  "requeue_on_publish_failure (Unroutable _ _ _) = False"
| "requeue_on_publish_failure _ = True"

definition requeue_pace :: "bool \<Rightarrow> duration option" where
  "requeue_pace requeue = (if requeue then Some (from_millis 500) else None)"

definition nack_after_failed_publish :: "broker_script \<Rightarrow> bool \<Rightarrow> (bus_error, unit) result io" where
  "nack_after_failed_publish bs requeue =
     (let (r, acts) = basic_nack bs requeue
      in (r, (case requeue_pace requeue of None \<Rightarrow> [] | Some pace \<Rightarrow> [DoSleep pace]) @ acts))"

section \<open>Settlement\<close>

definition retry_core ::
  "(bus_error, unit) result io \<Rightarrow> (bool \<Rightarrow> (bus_error, unit) result io) \<Rightarrow> (bus_error, unit) result io \<Rightarrow>
   delivery_disposition io"
where
  "retry_core publish settle_on_publish_failure ack =
     (case publish of
        (Inl err, acts) \<Rightarrow>
          (let (r, acts') = settle_on_publish_failure (requeue_on_publish_failure err)
           in (from_settle_result r, acts @ acts'))
      | (Inr _, acts) \<Rightarrow> (let (r, acts') = ack in (from_settle_result r, acts @ acts')))"

definition exhausted_core ::
  "(bus_error, unit) result io option \<Rightarrow> (bool \<Rightarrow> (bus_error, unit) result io) \<Rightarrow>
   (bus_error, unit) result io \<Rightarrow> delivery_disposition io"
where
  "exhausted_core dead_letter settle_on_publish_failure ack =
     (case dead_letter of
        Some (Inl err, acts) \<Rightarrow>
          (let (r, acts') = settle_on_publish_failure (requeue_on_publish_failure err)
           in (from_settle_result r, acts @ acts'))
      | Some (Inr _, acts) \<Rightarrow> (let (r, acts') = ack in (from_settle_result r, acts @ acts'))
      | None \<Rightarrow> (let (r, acts') = ack in (from_settle_result r, acts')))"

definition schedule_retry ::
  "uuid_codec \<Rightarrow> broker_script \<Rightarrow> delivery \<Rightarrow> bus_envelope \<Rightarrow> string \<Rightarrow> delivery_disposition io"
where
  "schedule_retry uc bs d e wait_queue =
     retry_core (publish_to_wait_queue uc bs d e wait_queue) (nack_after_failed_publish bs) (basic_ack bs)"

definition poison_settles_with_nack :: "ack_mode \<Rightarrow> bool \<Rightarrow> bool" where
  "poison_settles_with_nack m has_dead_letter \<longleftrightarrow> m = Manual \<and> \<not> has_dead_letter"

definition quarantine_properties :: "delivery \<Rightarrow> bus_error \<Rightarrow> basic_properties" where
  "quarantine_properties d err =
     (if needs_sanitized_quarantine err then properties_without_headers (del_properties d)
      else del_properties d)"

definition handle_poison ::
  "('s, 'sk, 'vk) amqp_worker_config \<Rightarrow> broker_script \<Rightarrow> delivery \<Rightarrow> bus_error \<Rightarrow> delivery_disposition io"
where
  "handle_poison cfg bs d err =
     (let dead_letter = map_option (publish_dead_letter bs (quarantine_properties d err) (del_data d))
            (wc_dead_letter_routing_key cfg)
      in if wc_ack_mode cfg = Unacknowledged
         then (Settled, case dead_letter of None \<Rightarrow> [] | Some published \<Rightarrow> snd published)
         else exhausted_core dead_letter (nack_after_failed_publish bs)
           (if poison_settles_with_nack (wc_ack_mode cfg) (wc_dead_letter_routing_key cfg \<noteq> None)
            then basic_nack bs False else basic_ack bs))"

definition handle_exhausted ::
  "('s, 'sk, 'vk) amqp_worker_config \<Rightarrow> broker_script \<Rightarrow> delivery \<Rightarrow> bus_envelope \<Rightarrow> delivery_disposition io"
where
  "handle_exhausted cfg bs d e =
     exhausted_core
       (map_option (publish_dead_letter bs (del_properties d) (env_payload e)) (wc_dead_letter_routing_key cfg))
       (nack_after_failed_publish bs) (basic_ack bs)"

definition handle_manual_outcome ::
  "uuid_codec \<Rightarrow> ('s, 'sk, 'vk) amqp_worker \<Rightarrow> broker_script \<Rightarrow> delivery \<Rightarrow> bus_envelope \<Rightarrow>
   (bus_error, unit) result \<Rightarrow> delivery_disposition io"
where
  "handle_manual_outcome uc w bs d e outcome =
     (case outcome of
        Inr _ \<Rightarrow> (let (r, acts) = basic_ack bs in (from_settle_result r, acts))
      | Inl err \<Rightarrow>
          (let wait_queue = wait_queue_name (wk_queue w);
               current = u32_saturating_inc (death_count (del_properties d) wait_queue)
           in case route_failure err current (wc_max_attempts (wk_config w)) of
                Retry \<Rightarrow> schedule_retry uc bs d e wait_queue
              | DeadLetter _ \<Rightarrow> handle_exhausted (wk_config w) bs d e))"

section \<open>Dispatch\<close>

text \<open>Clock, fresh identifiers and iteration orders read during one dispatch.\<close>

record dispatch_inputs =
  di_codec :: uuid_codec
  di_fresh_message_id :: uuid
  di_fresh_correlation_id :: uuid
  di_now :: systime
  di_inst :: nat
  di_table_order :: "field_table \<Rightarrow> string list"
  di_header_order :: "header_map \<Rightarrow> string list"

definition verify_inbound ::
  "dispatch_inputs \<Rightarrow> ('s, 'sk, 'vk) inbound_security \<Rightarrow> bus_envelope \<Rightarrow> string \<Rightarrow> 's verifier_state \<Rightarrow>
   (envelope_security_error, verified_principal option) result \<times> 's verifier_state"
where
  "verify_inbound di sec e dest st =
     verify (is_crypto sec) (is_keys sec) (is_config sec) (di_inst di)
       (di_header_order di (env_headers e)) (di_header_order di (env_protocol_headers e)) e dest st"

definition verify_before_settlement ::
  "dispatch_inputs \<Rightarrow> ('s, 'sk, 'vk) inbound_security option \<Rightarrow> bus_envelope \<Rightarrow> string \<Rightarrow> string option \<Rightarrow>
   bool \<Rightarrow> delivery_disposition io \<Rightarrow> (envelope_security_error \<Rightarrow> delivery_disposition io) \<Rightarrow> 's verifier_state \<Rightarrow>
   (delivery_disposition + verified_principal option) io \<times> 's verifier_state"
where
  "verify_before_settlement di sec e dest observed_user_id ack_on_receive ack reject st =
     (case (case sec of None \<Rightarrow> (Inr None, st) | Some s \<Rightarrow> verify_inbound di s e dest st) of
        (Inl err, st') \<Rightarrow> (let (disp, acts) = reject err in ((Inl disp, acts), st'))
      | (Inr pr, st') \<Rightarrow>
          if (case (pr, observed_user_id) of (Some p, Some user) \<Rightarrow> vp_issuer p \<noteq> user | _ \<Rightarrow> False)
          then (let (disp, acts) = reject BrokerUserMismatch in ((Inl disp, acts), st'))
          else if ack_on_receive
          then (let (disp, acts) = ack in ((if disp \<noteq> Settled then Inl disp else Inr pr, acts), st'))
          else ((Inr pr, []), st'))"

fun panic_message :: "panic_payload \<Rightarrow> string" where
  "panic_message (PanicStr s) = s"
| "panic_message (PanicString s) = s"
| "panic_message PanicOther = ''unknown panic payload''"

definition build_handler_context :: "bus_envelope \<Rightarrow> publisher_authentication \<Rightarrow> handler_context" where
  "build_handler_context e auth =
     \<lparr>hc_message_id = env_message_id e, hc_correlation_id = env_correlation_id e, hc_authentication = auth\<rparr>"

definition run_handler ::
  "(string \<rightharpoonup> erased_handler) \<Rightarrow> bus_envelope \<Rightarrow> handler_context \<Rightarrow> (bus_error, unit) result io"
where
  "run_handler handlers e ctx =
     (case handlers (env_message_type e) of
        Some h \<Rightarrow>
          (case h e ctx of
             Returned r \<Rightarrow> r
           | Panicked payload \<Rightarrow> Inl (BusInternal (''handler panicked: '' @ panic_message payload)),
           [RunHandler e ctx])
      | None \<Rightarrow> (Inl (MissingHandler (env_message_type e)), []))"

definition decode_delivery ::
  "dispatch_inputs \<Rightarrow> ('s, 'sk, 'vk) amqp_worker_config \<Rightarrow> delivery \<Rightarrow> (bus_error, bus_envelope) result"
where
  "decode_delivery di cfg d =
     delivery_to_envelope (di_codec di) (di_fresh_message_id di) (di_fresh_correlation_id di) (di_now di)
       (case bp_headers (del_properties d) of None \<Rightarrow> [] | Some t \<Rightarrow> di_table_order di t)
       (del_properties d) (del_data d) (wc_max_payload_bytes cfg) (wc_metadata_limits cfg)
       (derive_required_envelope_fields (map_option (policy \<circ> is_config) (wc_envelope_security cfg)))"

definition dispatch ::
  "dispatch_inputs \<Rightarrow> ('s, 'sk, 'vk) amqp_worker \<Rightarrow> broker_script \<Rightarrow> delivery \<Rightarrow> 's verifier_state \<Rightarrow>
   delivery_disposition io \<times> 's verifier_state"
where
  "dispatch di w bs d st =
     (let cfg = wk_config w in
      case decode_delivery di cfg d of
        Inl err \<Rightarrow> (handle_poison cfg bs d err, st)
      | Inr e \<Rightarrow>
          (case verify_before_settlement di (wc_envelope_security cfg) e (del_routing_key d) (bp_user_id (del_properties d))
                  (wc_ack_mode cfg = AckOnReceive)
                  (let (r, acts) = basic_ack bs in (from_settle_result r, acts))
                  (\<lambda>err. handle_poison cfg bs d (EnvelopeSecurity err)) st of
             ((Inl disp, acts), st') \<Rightarrow> ((disp, acts), st')
           | ((Inr pr, acts), st') \<Rightarrow>
               (let ctx = build_handler_context e (authentication_from_verification (wc_envelope_security cfg) pr);
                    (outcome, hacts) = run_handler (wk_handlers w) e ctx
                in case wc_ack_mode cfg of
                     Manual \<Rightarrow>
                       (let (disp, sacts) = handle_manual_outcome (di_codec di) w bs d e outcome
                        in ((disp, acts @ hacts @ sacts), st'))
                   | _ \<Rightarrow> ((Settled, acts @ hacts), st'))))"

section \<open>Setup of a run\<close>

datatype setup_step =
    OpenChannel
  | BasicQos nat
  | DeclareConsumedQueue string
  | DeclareRetryQueue string int string
  | DeclareDeadLetterQueue string
  | ConfirmSelect
  | BasicConsume string bool

definition retry_ttl_ms :: "duration \<Rightarrow> int" where
  "retry_ttl_ms d = (if as_millis d < 2 ^ 63 then int (as_millis d) else 2 ^ 63 - 1)"

definition setup_plan :: "('s, 'sk, 'vk) amqp_worker \<Rightarrow> setup_step list" where
  "setup_plan w =
     (let cfg = wk_config w; manual = (wc_ack_mode cfg = Manual) in
      [OpenChannel]
      @ (if qos_applies (wc_ack_mode cfg) then [BasicQos (wc_prefetch cfg)] else [])
      @ (if wc_should_declare_queue cfg then [DeclareConsumedQueue (wk_queue w)] else [])
      @ (if manual
         then [DeclareRetryQueue (wait_queue_name (wk_queue w)) (retry_ttl_ms (wc_retry_delay cfg)) (wk_queue w)]
         else [])
      @ (case wc_dead_letter_routing_key cfg of None \<Rightarrow> [] | Some q \<Rightarrow> [DeclareDeadLetterQueue q])
      @ (if manual \<or> wc_dead_letter_routing_key cfg \<noteq> None then [ConfirmSelect] else [])
      @ [BasicConsume (wk_queue w) (wc_ack_mode cfg = Unacknowledged)])"

fun step_name_check :: "setup_step \<Rightarrow> (bus_error, string) result" where
  "step_name_check (DeclareConsumedQueue q) = to_short_string q ''queue name''"
| "step_name_check (DeclareRetryQueue q _ _) = to_short_string q ''wait queue name''"
| "step_name_check (DeclareDeadLetterQueue q) = to_short_string q ''dead-letter queue name''"
| "step_name_check (BasicConsume q _) = to_short_string q ''queue name''"
| "step_name_check _ = Inr []"

text \<open>The steps are executed in order up to the first failure; \<open>resp\<close> is the broker's answer.\<close>

fun run_setup :: "(setup_step \<Rightarrow> (bus_error, unit) result) \<Rightarrow> setup_step list \<Rightarrow> (bus_error, unit) result \<times> setup_step list" where
  "run_setup resp [] = (Inr (), [])"
| "run_setup resp (s # steps) =
     (case step_name_check s of
        Inl err \<Rightarrow> (Inl err, [])
      | Inr _ \<Rightarrow>
          (case resp s of
             Inl err \<Rightarrow> (Inl err, [s])
           | Inr _ \<Rightarrow> (let (r, executed) = run_setup resp steps in (r, s # executed))))"

section \<open>The consume loop\<close>

text \<open>
  The state of the loop: what it waits for, the tasks that hold a permit of the semaphore, and
  the tasks in the join set that have finished and are not joined yet. A delivery of a bounded
  \<open>no_ack\<close> consumer parks the loop until a permit is free; every other delivery is dispatched
  inline, and no disposition stops the loop.
\<close>

datatype loop_phase = Selecting | Parked | Stopped "(bus_error, unit) result"

record loop_state =
  lo_phase :: loop_phase
  lo_running :: nat
  lo_finished :: nat

definition loop_init :: loop_state where
  "loop_init = \<lparr>lo_phase = Selecting, lo_running = 0, lo_finished = 0\<rparr>"

definition stream_lost :: bus_error where
  "stream_lost =
     Connection ''rabbitmq consumer stream ended unexpectedly: connection or channel lost'' True"

datatype loop_event =
    Cancelled
  | TaskJoined
  | StreamEnded bool
  | StreamError
  | Delivered delivery_disposition
  | PermitGranted
  | SemaphoreClosed string
  | TaskFinished

inductive loop_step :: "nat option \<Rightarrow> loop_state \<Rightarrow> loop_event \<Rightarrow> loop_state \<Rightarrow> bool" for bound where
  cancelled: "lo_phase s = Selecting \<Longrightarrow> loop_step bound s Cancelled (s\<lparr>lo_phase := Stopped (Inr ())\<rparr>)"
| joined: "lo_phase s = Selecting \<Longrightarrow> lo_finished s = Suc n \<Longrightarrow>
    loop_step bound s TaskJoined (s\<lparr>lo_finished := n\<rparr>)"
| stream_ended: "lo_phase s = Selecting \<Longrightarrow>
    loop_step bound s (StreamEnded is_cancelled)
      (s\<lparr>lo_phase := Stopped (if is_cancelled then Inr () else Inl stream_lost)\<rparr>)"
| stream_error: "lo_phase s = Selecting \<Longrightarrow> loop_step bound s StreamError s"
| parked: "lo_phase s = Selecting \<Longrightarrow> bound = Some b \<Longrightarrow>
    loop_step bound s (Delivered d) (s\<lparr>lo_phase := Parked\<rparr>)"
| inline: "lo_phase s = Selecting \<Longrightarrow> bound = None \<Longrightarrow>
    loop_step bound s (Delivered d) (if keep_running d then s else s\<lparr>lo_phase := Stopped (Inr ())\<rparr>)"
| granted: "lo_phase s = Parked \<Longrightarrow> bound = Some b \<Longrightarrow> lo_running s < b \<Longrightarrow>
    loop_step bound s PermitGranted (s\<lparr>lo_phase := Selecting, lo_running := Suc (lo_running s)\<rparr>)"
| parked_cancelled: "lo_phase s = Parked \<Longrightarrow>
    loop_step bound s Cancelled (s\<lparr>lo_phase := Stopped (Inr ())\<rparr>)"
| semaphore_closed: "lo_phase s = Parked \<Longrightarrow>
    loop_step bound s (SemaphoreClosed err)
      (s\<lparr>lo_phase := Stopped (Inl (BusInternal (''in-flight semaphore closed: '' @ err)))\<rparr>)"
| finished: "lo_running s = Suc n \<Longrightarrow>
    loop_step bound s TaskFinished (s\<lparr>lo_running := n, lo_finished := Suc (lo_finished s)\<rparr>)"

inductive loop_reaches :: "nat option \<Rightarrow> loop_state \<Rightarrow> loop_event list \<Rightarrow> bool" for bound where
  start: "loop_reaches bound loop_init []"
| step: "loop_reaches bound s evs \<Longrightarrow> loop_step bound s ev s' \<Longrightarrow> loop_reaches bound s' (evs @ [ev])"

inductive_cases loop_stepE: "loop_step bound s ev s'"

datatype task_end = TaskCompleted | TaskPanicked | TaskAborted

text \<open>
  The drain: either every task was joined within the grace period, or the rest is aborted and
  joined, with the ends \<open>rest\<close>.
\<close>

definition drain_in_flight :: "bool \<Rightarrow> task_end list \<Rightarrow> duration \<Rightarrow> (bus_error, unit) result" where
  "drain_in_flight within_grace rest grace =
     (if within_grace then Inr ()
      else let abandoned = length (filter (\<lambda>t. t = TaskAborted) rest) in
           if abandoned = 0 then Inr () else Inl (ShutdownDrainTimedOut abandoned grace))"

definition run_result :: "(bus_error, unit) result \<Rightarrow> (bus_error, unit) result \<Rightarrow> (bus_error, unit) result" where
  "run_result outcome drained = (case outcome of Inl err \<Rightarrow> Inl err | Inr _ \<Rightarrow> drained)"

section \<open>Lemmas: settlement\<close>

fun is_settle :: "worker_action \<Rightarrow> bool" where
  "is_settle DoAck = True"
| "is_settle (DoNack _) = True"
| "is_settle _ = False"

definition settles :: "worker_action list \<Rightarrow> nat" where
  "settles acts = length (filter is_settle acts)"

lemma settles_simps [simp]:
  "settles [] = 0" "settles (a # as) = (if is_settle a then 1 else 0) + settles as"
  "settles (as @ bs) = settles as + settles bs"
  by (simp_all add: settles_def)

lemma publish_confirmed_acts:
  "snd (publish_confirmed bs field ctx rk props payload) \<in> {[], [DoPublish rk props payload]}"
  by (auto simp: publish_confirmed_def to_short_string_def)

lemma publish_confirmed_ok:
  "fst (publish_confirmed bs field ctx rk props payload) = Inr u \<Longrightarrow>
   bs_publish bs = Inr (ConfAck None)
   \<and> snd (publish_confirmed bs field ctx rk props payload) = [DoPublish rk props payload]"
  by (auto simp: publish_confirmed_def to_short_string_def result_simps confirmation_ok split: if_splits)

lemma nack_acts:
  "settles (snd (nack_after_failed_publish bs requeue)) = 1"
  "DoAck \<notin> set (snd (nack_after_failed_publish bs requeue))"
  "RunHandler e ctx \<notin> set (snd (nack_after_failed_publish bs requeue))"
  "DoPublish rk props payload \<notin> set (snd (nack_after_failed_publish bs requeue))"
  by (simp_all add: nack_after_failed_publish_def basic_nack_def requeue_pace_def)

lemma basic_settle_simps [simp]:
  "snd (basic_ack bs) = [DoAck]" "snd (basic_nack bs requeue) = [DoNack requeue]"
  by (simp_all add: basic_ack_def basic_nack_def)

text \<open>The actions of publishing a copy and then settling: on a failed publish, a nack.\<close>

definition copy_acts :: "broker_script \<Rightarrow> (bus_error, unit) result io \<Rightarrow> worker_action list \<Rightarrow> worker_action list" where
  "copy_acts bs p settle =
     snd p @ (case fst p of
                Inl err \<Rightarrow> snd (nack_after_failed_publish bs (requeue_on_publish_failure err))
              | Inr _ \<Rightarrow> settle)"

lemma retry_core_acts: "snd (retry_core p (nack_after_failed_publish bs) a) = copy_acts bs p (snd a)"
  by (auto simp: retry_core_def copy_acts_def split: prod.splits sum.splits)

lemma exhausted_core_acts:
  "snd (exhausted_core dl (nack_after_failed_publish bs) a) =
     (case dl of None \<Rightarrow> snd a | Some p \<Rightarrow> copy_acts bs p (snd a))"
  by (auto simp: exhausted_core_def copy_acts_def split: prod.splits sum.splits option.splits)

lemma copy_acts_settles [simp]:
  "settles (snd p) = 0 \<Longrightarrow> settles settle = Suc 0 \<Longrightarrow> settles (copy_acts bs p settle) = Suc 0"
  by (auto simp: copy_acts_def nack_acts split: sum.splits)

lemma copy_acts_ack:
  "DoAck \<in> set (copy_acts bs p settle) \<Longrightarrow> DoAck \<notin> set (snd p) \<Longrightarrow> \<exists>u. fst p = Inr u"
  by (auto simp: copy_acts_def nack_acts split: sum.splits)

lemma publish_confirmed_settles [simp]:
  "settles (snd (publish_confirmed bs field ctx rk props payload)) = 0"
  using publish_confirmed_acts [of bs field ctx rk props payload] by auto

lemma publish_confirmed_no_ack [simp]: "DoAck \<notin> set (snd (publish_confirmed bs field ctx rk props payload))"
  using publish_confirmed_acts [of bs field ctx rk props payload] by auto

lemmas settlement_defs =
  schedule_retry_def handle_exhausted_def publish_to_wait_queue_def publish_dead_letter_def

lemma handle_poison_settles:
  "settles (snd (handle_poison cfg bs d err)) = (if wc_ack_mode cfg = Unacknowledged then 0 else 1)"
proof (cases "wc_dead_letter_routing_key cfg")
  case None
  then show ?thesis by (simp add: handle_poison_def exhausted_core_acts)
next
  case (Some rk)
  then show ?thesis
    by (auto simp: handle_poison_def exhausted_core_acts publish_dead_letter_def)
qed

lemma handle_manual_outcome_settles: "settles (snd (handle_manual_outcome uc w bs d e outcome)) = 1"
  by (auto simp: handle_manual_outcome_def settlement_defs retry_core_acts exhausted_core_acts Let_def
      basic_ack_def split: sum.splits failure_route.splits option.splits)

lemma run_handler_acts:
  "set (snd (run_handler hs e ctx)) \<subseteq> {RunHandler e ctx}"
  by (auto simp: run_handler_def split: option.splits)

lemma run_handler_settles [simp]: "settles (snd (run_handler hs e ctx)) = 0"
  by (auto simp: run_handler_def split: option.splits)

section \<open>Lemmas: dispatch\<close>

text \<open>The verdict on an envelope: signature verification and the broker user, before any settlement.\<close>

definition verdict ::
  "dispatch_inputs \<Rightarrow> ('s, 'sk, 'vk) inbound_security option \<Rightarrow> bus_envelope \<Rightarrow> delivery \<Rightarrow> 's verifier_state \<Rightarrow>
   (envelope_security_error, verified_principal option) result \<times> 's verifier_state"
where
  "verdict di sec e d st =
     (case (case sec of None \<Rightarrow> (Inr None, st) | Some s \<Rightarrow> verify_inbound di s e (del_routing_key d) st) of
        (Inr (Some p), st') \<Rightarrow>
          (if bp_user_id (del_properties d) \<in> {None, Some (vp_issuer p)} then Inr (Some p)
           else Inl BrokerUserMismatch, st')
      | (r, st') \<Rightarrow> (r, st'))"

lemma verify_before_settlement_eq:
  "verify_before_settlement di sec e (del_routing_key d) (bp_user_id (del_properties d)) aor ack reject st =
     (case verdict di sec e d st of
        (Inl err, st') \<Rightarrow> ((Inl (fst (reject err)), snd (reject err)), st')
      | (Inr pr, st') \<Rightarrow>
          if aor then ((if fst ack \<noteq> Settled then Inl (fst ack) else Inr pr, snd ack), st')
          else ((Inr pr, []), st'))"
  by (auto simp: verify_before_settlement_def verdict_def split: prod.splits sum.splits option.splits)

definition verified_context :: "('s, 'sk, 'vk) amqp_worker \<Rightarrow> bus_envelope \<Rightarrow> verified_principal option \<Rightarrow> handler_context" where
  "verified_context w e pr =
     build_handler_context e (authentication_from_verification (wc_envelope_security (wk_config w)) pr)"

lemma dispatch_eq:
  "dispatch di w bs d st =
    (case decode_delivery di (wk_config w) d of
       Inl err \<Rightarrow> (handle_poison (wk_config w) bs d err, st)
     | Inr e \<Rightarrow>
         (case verdict di (wc_envelope_security (wk_config w)) e d st of
            (Inl err, st') \<Rightarrow> (handle_poison (wk_config w) bs d (EnvelopeSecurity err), st')
          | (Inr pr, st') \<Rightarrow>
              (let h = run_handler (wk_handlers w) e (verified_context w e pr);
                   m = handle_manual_outcome (di_codec di) w bs d e (fst h) in
               case wc_ack_mode (wk_config w) of
                 Manual \<Rightarrow> ((fst m, snd h @ snd m), st')
               | AckOnReceive \<Rightarrow>
                   (if is_ok (bs_ack bs) then (Settled, DoAck # snd h) else (LeftForRedelivery, [DoAck]), st')
               | Unacknowledged \<Rightarrow> ((Settled, snd h), st'))))"
  by (auto simp: dispatch_def verify_before_settlement_eq verified_context_def Let_def basic_ack_def
      split: sum.splits prod.splits ack_mode.splits)
    (cases "bs_ack bs"; simp)+

lemma decode_delivery_payload:
  "decode_delivery di cfg d = Inr e \<Longrightarrow> env_payload e = del_data d"
  by (auto simp: decode_delivery_def delivery_to_envelope_def result_simps Let_def
      envelope_restore_from_transport_def split: if_splits)

lemma handle_poison_acts:
  assumes "a \<in> set (snd (handle_poison cfg bs d err))"
  shows "(\<exists>rk. wc_dead_letter_routing_key cfg = Some rk
      \<and> a = DoPublish rk ((quarantine_properties d err)\<lparr>bp_delivery_mode := Some 2\<rparr>) (del_data d))
    \<or> is_settle a \<or> (\<exists>t. a = DoSleep t)"
proof (cases "wc_dead_letter_routing_key cfg")
  case None
  then show ?thesis
    using assms by (auto simp: handle_poison_def exhausted_core_acts split: if_splits)
next
  case (Some rk)
  let ?p = "publish_dead_letter bs (quarantine_properties d err) (del_data d) rk"
  have "snd ?p \<in> {[], [DoPublish rk ((quarantine_properties d err)\<lparr>bp_delivery_mode := Some 2\<rparr>) (del_data d)]}"
    unfolding publish_dead_letter_def by (rule publish_confirmed_acts)
  moreover have "a \<in> set (snd ?p) \<or> is_settle a \<or> (\<exists>t. a = DoSleep t)"
    using assms Some
    by (auto simp: handle_poison_def exhausted_core_acts copy_acts_def nack_after_failed_publish_def
        requeue_pace_def Let_def basic_nack_def split: if_splits sum.splits)
  ultimately show ?thesis
    using Some by auto
qed

text \<open>The broker has confirmed a persistent copy of the payload, in the wait or the dead-letter queue.\<close>

definition safe_copy :: "('s, 'sk, 'vk) amqp_worker \<Rightarrow> broker_script \<Rightarrow> delivery \<Rightarrow> worker_action list \<Rightarrow> bool" where
  "safe_copy w bs d acts \<longleftrightarrow> bs_publish bs = Inr (ConfAck None) \<and>
     (\<exists>rk props. DoPublish rk props (del_data d) \<in> set acts \<and> bp_delivery_mode props = Some 2
       \<and> (rk = wait_queue_name (wk_queue w) \<or> wc_dead_letter_routing_key (wk_config w) = Some rk))"

lemma safe_copyI:
  "bs_publish bs = Inr (ConfAck None) \<Longrightarrow> DoPublish rk props (del_data d) \<in> set acts \<Longrightarrow>
   bp_delivery_mode props = Some 2 \<Longrightarrow>
   rk = wait_queue_name (wk_queue w) \<or> wc_dead_letter_routing_key (wk_config w) = Some rk \<Longrightarrow> safe_copy w bs d acts"
  unfolding safe_copy_def by blast

lemma safe_copy_append: "safe_copy w bs d acts \<Longrightarrow> safe_copy w bs d (pre @ acts)"
  by (auto simp: safe_copy_def)

lemma handle_poison_ack:
  assumes "DoAck \<in> set (snd (handle_poison (wk_config w) bs d err))" "wc_ack_mode (wk_config w) = Manual"
    "wc_dead_letter_routing_key (wk_config w) = Some rk"
  shows "safe_copy w bs d (snd (handle_poison (wk_config w) bs d err))"
proof -
  let ?p = "publish_dead_letter bs (quarantine_properties d err) (del_data d) rk"
  have acts: "snd (handle_poison (wk_config w) bs d err) = copy_acts bs ?p [DoAck]"
    using assms(2,3) by (simp add: handle_poison_def exhausted_core_acts poison_settles_with_nack_def)
  have "DoAck \<notin> set (snd ?p)"
    by (simp add: publish_dead_letter_def)
  then obtain u where "fst ?p = Inr u"
    using assms(1) copy_acts_ack unfolding acts by blast
  then have "bs_publish bs = Inr (ConfAck None)"
    "snd ?p = [DoPublish rk ((quarantine_properties d err)\<lparr>bp_delivery_mode := Some 2\<rparr>) (del_data d)]"
    unfolding publish_dead_letter_def by (auto dest!: publish_confirmed_ok)
  then show ?thesis
    unfolding acts using assms(3)
    by (intro safe_copyI [where rk = rk and props = "(quarantine_properties d err)\<lparr>bp_delivery_mode := Some 2\<rparr>"])
      (auto simp: copy_acts_def)
qed

lemma handle_manual_outcome_ack:
  assumes "DoAck \<in> set (snd (handle_manual_outcome uc w bs d e outcome))" "env_payload e = del_data d"
    "wc_dead_letter_routing_key (wk_config w) = Some q"
  shows "outcome = Inr () \<or> safe_copy w bs d (snd (handle_manual_outcome uc w bs d e outcome))"
proof (cases outcome)
  case (Inl err)
  define current where "current = u32_saturating_inc (death_count (del_properties d) (wait_queue_name (wk_queue w)))"
  let ?r = "publish_to_wait_queue uc bs d e (wait_queue_name (wk_queue w))"
  let ?x = "publish_dead_letter bs (del_properties d) (env_payload e) q"
  obtain p where acts: "snd (handle_manual_outcome uc w bs d e outcome) = copy_acts bs p [DoAck]"
    and p: "p = ?r \<or> p = ?x"
  proof (cases "route_failure err current (wc_max_attempts (wk_config w))")
    case Retry
    then show ?thesis
      using Inl that [of ?r] by (simp add: handle_manual_outcome_def current_def schedule_retry_def retry_core_acts Let_def)
  next
    case (DeadLetter n)
    then show ?thesis
      using Inl assms(3) that [of ?x]
      by (simp add: handle_manual_outcome_def current_def handle_exhausted_def exhausted_core_acts Let_def)
  qed
  have "DoAck \<notin> set (snd p)"
    using p by (auto simp: publish_dead_letter_def publish_to_wait_queue_def)
  then obtain u where "fst p = Inr u"
    using assms(1) copy_acts_ack unfolding acts by blast
  then obtain rk props where "bs_publish bs = Inr (ConfAck None)" "snd p = [DoPublish rk props (del_data d)]"
    "bp_delivery_mode props = Some 2" "rk = wait_queue_name (wk_queue w) \<or> rk = q"
    using p assms(2) by (auto simp: publish_dead_letter_def publish_to_wait_queue_def dest!: publish_confirmed_ok)
  then have "safe_copy w bs d (copy_acts bs p [DoAck])"
    using assms(3) by (intro safe_copyI [where rk = rk and props = props]) (auto simp: copy_acts_def)
  then show ?thesis by (simp add: acts)
qed simp

lemma no_handler_settlement: "RunHandler e ctx \<notin> set (snd (handle_manual_outcome uc w bs d e' outcome))"
proof -
  have pub: "RunHandler e ctx \<notin> set (snd (publish_confirmed bs field c rk props payload))" for field c rk props payload
    using publish_confirmed_acts [of bs field c rk props payload] by auto
  then have "RunHandler e ctx \<notin> set (copy_acts bs (publish_confirmed bs field c rk props payload) [DoAck])"
    for field c rk props payload
    by (auto simp: copy_acts_def nack_acts split: sum.splits)
  then show ?thesis
    by (auto simp: handle_manual_outcome_def settlement_defs retry_core_acts exhausted_core_acts Let_def
        basic_ack_def split: sum.splits failure_route.splits option.splits)
qed

lemma verify_inbound_unsigned:
  "fst (verify_inbound di s e dest st) = Inr None \<Longrightarrow>
   policy (is_config s) = AllowInsecureUnauthenticatedEnvelopes \<and> header e signature_header = None"
  by (auto simp: verify_inbound_def verify_def result_simps split: option.splits verification_policy.splits
      sum.splits prod.splits if_splits)

section \<open>Properties\<close>

text \<open>
  C5. Every delivery is settled exactly once. Whatever the payload, the headers, the handler
  and the broker do, one dispatch issues exactly one ack or nack, so no prefetch slot is leaked
  and no delivery is settled twice; a \<open>no_ack\<close> consumer issues none.
\<close>

theorem dispatch_settles_once:
  "settles (snd (fst (dispatch di w bs d st))) =
     (if wc_ack_mode (wk_config w) = Unacknowledged then 0 else 1)"
  by (auto simp: dispatch_eq handle_poison_settles handle_manual_outcome_settles Let_def
      split: sum.splits prod.splits ack_mode.splits)

text \<open>
  C2. No message is acknowledged before it is safe. With manual acknowledgement and a
  dead-letter queue, a delivery is acked only if its handler returned success, or if the broker
  has confirmed a persistent copy of the payload in the wait queue or the dead-letter queue.
\<close>

theorem manual_ack_safe:
  assumes "wc_ack_mode (wk_config w) = Manual"
    and "wc_dead_letter_routing_key (wk_config w) = Some q"
    and "DoAck \<in> set (snd (fst (dispatch di w bs d st)))"
  shows "(\<exists>e ctx h. RunHandler e ctx \<in> set (snd (fst (dispatch di w bs d st)))
      \<and> wk_handlers w (env_message_type e) = Some h \<and> h e ctx = Returned (Inr ()))
    \<or> safe_copy w bs d (snd (fst (dispatch di w bs d st)))"
proof (cases "decode_delivery di (wk_config w) d")
  case (Inl err)
  then have "snd (fst (dispatch di w bs d st)) = snd (handle_poison (wk_config w) bs d err)"
    by (simp add: dispatch_eq)
  then show ?thesis
    using assms handle_poison_ack [of w bs d err q] by auto
next
  case (Inr e)
  obtain r st' where v: "verdict di (wc_envelope_security (wk_config w)) e d st = (r, st')"
    by (cases "verdict di (wc_envelope_security (wk_config w)) e d st")
  show ?thesis
  proof (cases r)
    case (Inl err)
    then have "snd (fst (dispatch di w bs d st)) = snd (handle_poison (wk_config w) bs d (EnvelopeSecurity err))"
      using Inr v by (simp add: dispatch_eq)
    then show ?thesis
      using assms handle_poison_ack [of w bs d "EnvelopeSecurity err" q] by auto
  next
    case pr: (Inr pr)
    let ?h = "run_handler (wk_handlers w) e (verified_context w e pr)"
    let ?m = "handle_manual_outcome (di_codec di) w bs d e (fst ?h)"
    have acts: "snd (fst (dispatch di w bs d st)) = snd ?h @ snd ?m"
      using assms(1) Inr v pr by (simp add: dispatch_eq Let_def)
    have "DoAck \<notin> set (snd ?h)"
      using run_handler_acts by fastforce
    then have "fst ?h = Inr () \<or> safe_copy w bs d (snd ?m)"
      using assms(3) decode_delivery_payload [OF Inr] assms(2) unfolding acts
      by (intro handle_manual_outcome_ack) auto
    moreover have "\<exists>ctx h. RunHandler e ctx \<in> set (snd ?h) \<and> wk_handlers w (env_message_type e) = Some h
        \<and> h e ctx = Returned (Inr ())" if "fst ?h = Inr ()"
      using that by (auto simp: run_handler_def split: option.splits handler_end.splits)
    ultimately show ?thesis
      unfolding acts set_append using safe_copy_append [of w bs d "snd ?m" "snd ?h"] by blast
  qed
qed

text \<open>
  C6. No handler runs on an unverified envelope. If a dispatch runs a handler, the delivery
  decoded to the envelope it is given; and when envelope security is configured, the verifier
  accepted that envelope for the routing key of the delivery, and the context says what was
  verified: the issuer of the checked signature, which a broker user identifier on the
  delivery, if any, does not contradict, or an explicit waiver, only under the policy that
  allows one and only for an envelope with no signature.
\<close>

theorem handler_gate:
  assumes "RunHandler e ctx \<in> set (snd (fst (dispatch di w bs d st)))"
  shows "decode_delivery di (wk_config w) d = Inr e \<and>
    (case wc_envelope_security (wk_config w) of
       None \<Rightarrow> hc_authentication ctx = NotEnforced
     | Some s \<Rightarrow>
         (case fst (verify_inbound di s e (del_routing_key d) st) of
            Inl _ \<Rightarrow> False
          | Inr None \<Rightarrow>
              hc_authentication ctx = WaivedUnsigned
              \<and> policy (is_config s) = AllowInsecureUnauthenticatedEnvelopes \<and> header e signature_header = None
          | Inr (Some p) \<Rightarrow>
              hc_authentication ctx = Authenticated (vp_issuer p)
              \<and> bp_user_id (del_properties d) \<in> {None, Some (vp_issuer p)}))"
proof -
  have no: "RunHandler e ctx \<notin> set (snd (handle_poison cfg bs d err))" for cfg :: "('a, 'b, 'c) amqp_worker_config" and err
    using handle_poison_acts [of "RunHandler e ctx" cfg bs d err] by auto
  obtain e' r st' where dec: "decode_delivery di (wk_config w) d = Inr e'"
    and v: "verdict di (wc_envelope_security (wk_config w)) e' d st = (r, st')"
    using assms no by (cases "decode_delivery di (wk_config w) d")
      (auto simp: dispatch_eq, metis prod.exhaust)
  obtain pr where r: "r = Inr pr"
    using assms no dec v by (cases r) (auto simp: dispatch_eq)
  have "RunHandler e ctx \<in> set (snd (run_handler (wk_handlers w) e' (verified_context w e' pr)))"
    using assms dec v r
    by (auto simp: dispatch_eq Let_def no_handler_settlement split: ack_mode.splits if_splits)
  then have e: "e' = e" and ctx: "ctx = verified_context w e pr"
    using run_handler_acts by fastforce+
  show ?thesis
  proof (cases "wc_envelope_security (wk_config w)")
    case None
    then have "pr = None" using v r by (auto simp: verdict_def)
    then show ?thesis
      using None dec e by (simp add: ctx verified_context_def build_handler_context_def)
  next
    case (Some s)
    obtain x st'' where x: "verify_inbound di s e (del_routing_key d) st = (x, st'')"
      by (cases "verify_inbound di s e (del_routing_key d) st")
    show ?thesis
    proof (cases pr)
      case None
      then have "x = Inr None"
        using v r x Some e by (auto simp: verdict_def split: sum.splits option.splits if_splits)
      then show ?thesis
        using verify_inbound_unsigned [of di s e "del_routing_key d" st] None x Some dec e
        by (simp add: ctx verified_context_def build_handler_context_def)
    next
      case p: (Some p)
      then have "x = Inr (Some p) \<and> bp_user_id (del_properties d) \<in> {None, Some (vp_issuer p)}"
        using v r x Some e by (auto simp: verdict_def split: sum.splits option.splits if_splits)
      then show ?thesis
        using p x Some dec e by (simp add: ctx verified_context_def build_handler_context_def)
    qed
  qed
qed

text \<open>
  C40. A rejected delivery is quarantined without its headers. If a delivery fails the metadata
  bounds or envelope security, no handler runs, and a copy that is published goes to the
  dead-letter queue with the payload, an empty field table and no broker user identifier.
\<close>

theorem rejected_quarantined:
  assumes "case decode_delivery di (wk_config w) d of
      Inl err \<Rightarrow> needs_sanitized_quarantine err
    | Inr e \<Rightarrow> \<not> is_ok (fst (verdict di (wc_envelope_security (wk_config w)) e d st))"
    and "a \<in> set (snd (fst (dispatch di w bs d st)))"
  shows "is_settle a \<or> (\<exists>t. a = DoSleep t) \<or>
    (\<exists>rk props. a = DoPublish rk props (del_data d) \<and> wc_dead_letter_routing_key (wk_config w) = Some rk
      \<and> bp_headers props = Some Map.empty \<and> bp_user_id props = None)"
proof -
  obtain err where "needs_sanitized_quarantine err"
    and "a \<in> set (snd (handle_poison (wk_config w) bs d err))"
  proof (cases "decode_delivery di (wk_config w) d")
    case (Inl err)
    then show ?thesis using assms that [of err] by (simp add: dispatch_eq)
  next
    case (Inr e)
    obtain r st' where v: "verdict di (wc_envelope_security (wk_config w)) e d st = (r, st')"
      by (cases "verdict di (wc_envelope_security (wk_config w)) e d st")
    then obtain err where "r = Inl err"
      using assms(1) Inr by (cases r) auto
    then show ?thesis using assms(2) Inr v that [of "EnvelopeSecurity err"] by (simp add: dispatch_eq)
  qed
  then show ?thesis
    using handle_poison_acts [of a "wk_config w" bs d err]
    by (auto simp: quarantine_properties_def properties_without_headers_def basic_properties_default_def)
qed

text \<open>
  A message keeps its identity across retries. The copy published to the wait queue, when it
  comes back with whatever headers the broker has added, decodes to an envelope with the same
  message and correlation identifiers, also when they were minted at the first attempt because
  the producer supplied none; and the copy carries the headers the retry count is read from.
\<close>

theorem retry_keeps_identity:
  assumes "uuid_codec_ok uc"
    and "delivery_to_envelope uc f\<^sub>1 f\<^sub>2 now ks p payload mx lim req = Inr e"
    and "delivery_to_envelope uc g\<^sub>1 g\<^sub>2 now' ks'
      ((properties_with_effective_identity uc p e)\<lparr>bp_delivery_mode := Some 2, bp_headers := hs\<rparr>)
      payload mx lim req = Inr e'"
  shows "env_message_id e' = env_message_id e \<and> env_correlation_id e' = env_correlation_id e
    \<and> death_count (properties_with_effective_identity uc p e) wq = death_count p wq"
proof -
  obtain s where ids: "identifier_property uc s f\<^sub>1 ''message_id'' (bp_message_id p) = Inr (env_message_id e)"
    "identifier_property uc s f\<^sub>2 ''correlation_id'' (bp_correlation_id p) = Inr (env_correlation_id e)"
    using assms(2) by (auto simp: delivery_to_envelope_def result_simps Let_def
        envelope_restore_from_transport_def split: if_splits)
  let ?q = "properties_with_effective_identity uc p e"
  obtain s' where ids': "identifier_property uc s' g\<^sub>1 ''message_id'' (bp_message_id ?q) = Inr (env_message_id e')"
    "identifier_property uc s' g\<^sub>2 ''correlation_id'' (bp_correlation_id ?q) = Inr (env_correlation_id e')"
    using assms(3) by (auto simp: delivery_to_envelope_def result_simps Let_def
        envelope_restore_from_transport_def split: if_splits)
  have q: "bp_message_id ?q = (if is_parseable_uuid uc (bp_message_id p) then bp_message_id p
      else Some (uc_show uc (env_message_id e)))"
    "bp_correlation_id ?q = (if is_parseable_uuid uc (bp_correlation_id p) then bp_correlation_id p
      else Some (uc_show uc (env_correlation_id e)))"
    "bp_headers ?q = bp_headers p"
    by (simp_all add: properties_with_effective_identity_def Let_def)
  show ?thesis
    using ids ids' assms(1)
    by (auto simp: q identifier_property_def is_parseable_uuid_def uuid_codec_ok_def death_count_def
        split: option.splits if_splits)
qed

lemma loop_invariant:
  assumes "loop_reaches bound s evs"
  shows "(case bound of None \<Rightarrow> lo_running s = 0 \<and> lo_phase s \<noteq> Parked | Some b \<Rightarrow> lo_running s \<le> b)
    \<and> (lo_phase s = Stopped (Inr ()) \<longrightarrow> Cancelled \<in> set evs \<or> StreamEnded True \<in> set evs)
    \<and> lo_running s + lo_finished s + length (filter (\<lambda>ev. ev = TaskJoined) evs)
       = length (filter (\<lambda>ev. ev = PermitGranted) evs)"
  using assms
proof (induction rule: loop_reaches.induct)
  case start
  show ?case by (simp add: loop_init_def split: option.splits)
next
  case (step s evs ev s')
  have "keep_running d" for d by (cases d) simp_all
  then show ?case
    using step.hyps(2) step.IH by (cases rule: loop_stepE) (auto split: option.splits if_splits)
qed

text \<open>
  Bounded concurrency and honest shutdown. In every reachable state of the consume loop a
  bounded \<open>no_ack\<close> consumer runs at most its bound of handlers, an unbounded or acknowledging
  one spawns none, every granted permit is a task still running, finished or joined, and the
  run reports success only after a cancellation.
\<close>

theorem in_flight_bounded:
  assumes "worker_build b = Inr w"
    and "loop_reaches (effective_bound (wc_ack_mode (wk_config w)) (wc_max_buffered (wk_config w))) s evs"
  shows "(case effective_bound (wc_ack_mode (wk_config w)) (wc_max_buffered (wk_config w)) of
      None \<Rightarrow> lo_running s = 0 | Some n \<Rightarrow> 0 < n \<and> lo_running s \<le> n)
    \<and> (\<forall>rest within grace. lo_phase s = Stopped outcome \<and> run_result outcome (drain_in_flight within rest grace) = Inr ()
        \<longrightarrow> (Cancelled \<in> set evs \<or> StreamEnded True \<in> set evs) \<and> (within \<or> TaskAborted \<notin> set rest))
    \<and> lo_running s + lo_finished s + length (filter (\<lambda>ev. ev = TaskJoined) evs)
       = length (filter (\<lambda>ev. ev = PermitGranted) evs)"
proof -
  have "wc_max_buffered (wk_config w) \<noteq> Some 0"
    using assms(1) by (auto simp: worker_build_def require_positive_bound_def result_simps split: if_splits)
  then have pos: "effective_bound (wc_ack_mode (wk_config w)) (wc_max_buffered (wk_config w)) \<noteq> Some 0"
    by (cases "(wc_ack_mode (wk_config w), wc_max_buffered (wk_config w))" rule: effective_bound.cases) auto
  have "run_result outcome (drain_in_flight within rest grace) = Inr () \<Longrightarrow>
      outcome = Inr () \<and> (within \<or> TaskAborted \<notin> set rest)" for rest within grace
    by (auto simp: run_result_def drain_in_flight_def Let_def filter_empty_conv split: sum.splits if_splits)
  then show ?thesis
    using loop_invariant [OF assms(2)] pos by (auto split: option.splits)
qed

text \<open>A concrete worker and deliveries, for the witnesses.\<close>

definition sample_worker :: "((unit, unit) static_key_source, unit, unit) amqp_worker" where
  "sample_worker = \<lparr>wk_queue = ''orders'', wk_handlers = [''orders.placed'' \<mapsto> \<lambda>_ _. Returned (Inr ())],
     wk_config = amqp_worker_config_default\<lparr>wc_dead_letter_routing_key := Some ''orders.dead''\<rparr>\<rparr>"

definition sample_inputs :: dispatch_inputs where
  "sample_inputs = \<lparr>di_codec = decimal_codec, di_fresh_message_id = 1, di_fresh_correlation_id = 2, di_now = 5,
     di_inst = 0, di_table_order = \<lambda>_. [''X-HEXERACT-request-id''], di_header_order = \<lambda>_. []\<rparr>"

definition sample_broker :: broker_script where
  "sample_broker = \<lparr>bs_publish = Inr (ConfAck None), bs_ack = Inr (), bs_nack = Inr ()\<rparr>"

definition anonymous_delivery :: delivery where
  "anonymous_delivery = \<lparr>del_properties = basic_properties_default\<lparr>bp_kind := Some ''orders.placed''\<rparr>,
     del_data = [1, 2], del_routing_key = ''orders''\<rparr>"

definition forged_delivery :: delivery where
  "forged_delivery = anonymous_delivery\<lparr>del_properties := (del_properties anonymous_delivery)
     \<lparr>bp_user_id := Some ''mallory'', bp_headers := Some [''X-HEXERACT-request-id'' \<mapsto> LongString ''1'']\<rparr>\<rparr>"

definition sample_state :: "(unit, unit) static_key_source verifier_state" where
  "sample_state = \<lparr>vs_keys = sample_keys, vs_last_refresh = None\<rparr>"

lemmas sample_worker_defs =
  sample_worker_def sample_inputs_def sample_broker_def anonymous_delivery_def forged_delivery_def
  basic_properties_default_def amqp_worker_config_default_def metadata_limits_default_def

lemma anonymous_decoded:
  "decode_delivery sample_inputs (wk_config sample_worker) anonymous_delivery =
     Inr (envelope_restore_from_transport 1 ''orders.placed'' [1, 2] 2 None Map.empty Map.empty 5)"
  by (simp add: decode_delivery_def delivery_to_envelope_def decode_headers_def identifier_property_def
      derive_required_envelope_fields_def sample_worker_defs)

lemma anonymous_dispatched:
  "snd (fst (dispatch sample_inputs sample_worker sample_broker anonymous_delivery sample_state)) =
     [RunHandler (envelope_restore_from_transport 1 ''orders.placed'' [1, 2] 2 None Map.empty Map.empty 5)
        \<lparr>hc_message_id = 1, hc_correlation_id = 2, hc_authentication = NotEnforced\<rparr>, DoAck]"
proof -
  let ?e = "envelope_restore_from_transport 1 ''orders.placed'' [1, 2] 2 None Map.empty Map.empty 5"
  have "verdict sample_inputs (wc_envelope_security (wk_config sample_worker)) ?e anonymous_delivery sample_state
      = (Inr None, sample_state)"
    by (simp add: verdict_def sample_worker_defs)
  moreover have "run_handler (wk_handlers sample_worker) ?e (verified_context sample_worker ?e None) =
      (Inr (), [RunHandler ?e \<lparr>hc_message_id = 1, hc_correlation_id = 2, hc_authentication = NotEnforced\<rparr>])"
    by (simp add: run_handler_def verified_context_def build_handler_context_def sample_worker_defs
        envelope_restore_from_transport_def)
  moreover have "wc_ack_mode (wk_config sample_worker) = Manual"
    by (simp add: sample_worker_defs)
  ultimately show ?thesis
    by (simp add: dispatch_eq anonymous_decoded handle_manual_outcome_def Let_def basic_ack_def)
qed

lemma forged_decoded:
  "decode_delivery sample_inputs (wk_config sample_worker) forged_delivery =
     Inl (InvalidMetadata NonCanonicalReservedHeader)"
proof -
  have "is_reserved_header ''X-HEXERACT-request-id''" "has_ascii_uppercase ''X-HEXERACT-request-id''"
    by code_simp+
  then show ?thesis
    by (simp add: decode_delivery_def delivery_to_envelope_def decode_headers_def sample_worker_defs
        usize_saturating_add_def usize_max_def)
qed

lemma forged_dispatched:
  "snd (fst (dispatch sample_inputs sample_worker sample_broker forged_delivery sample_state)) =
     [DoPublish ''orders.dead'' (basic_properties_default\<lparr>bp_kind := Some ''orders.placed'',
        bp_headers := Some Map.empty, bp_delivery_mode := Some 2\<rparr>) [1, 2], DoAck]"
  by (simp add: dispatch_eq forged_decoded)
    (simp add: handle_poison_def quarantine_properties_def exhausted_core_acts copy_acts_def publish_dead_letter_def
      publish_confirmed_def to_short_string_def poison_settles_with_nack_def properties_without_headers_def
      sample_worker_defs)

theorem manual_ack_safe_witness:
  "\<not> safe_copy sample_worker sample_broker anonymous_delivery
      (snd (fst (dispatch sample_inputs sample_worker sample_broker anonymous_delivery sample_state)))
   \<and> (\<exists>e ctx h. RunHandler e ctx
        \<in> set (snd (fst (dispatch sample_inputs sample_worker sample_broker anonymous_delivery sample_state)))
      \<and> wk_handlers sample_worker (env_message_type e) = Some h \<and> h e ctx = Returned (Inr ()))"
proof -
  have "\<not> safe_copy sample_worker sample_broker anonymous_delivery
      (snd (fst (dispatch sample_inputs sample_worker sample_broker anonymous_delivery sample_state)))"
    unfolding anonymous_dispatched by (simp add: safe_copy_def)
  moreover have "DoAck \<in> set (snd (fst (dispatch sample_inputs sample_worker sample_broker anonymous_delivery sample_state)))"
    unfolding anonymous_dispatched by simp
  moreover have "wc_ack_mode (wk_config sample_worker) = Manual"
    "wc_dead_letter_routing_key (wk_config sample_worker) = Some ''orders.dead''"
    by (simp_all add: sample_worker_defs)
  ultimately show ?thesis
    using manual_ack_safe [of sample_worker "''orders.dead''" sample_inputs sample_broker anonymous_delivery sample_state]
    by blast
qed

theorem handler_gate_witness:
  "\<exists>e ctx. RunHandler e ctx
      \<in> set (snd (fst (dispatch sample_inputs sample_worker sample_broker anonymous_delivery sample_state)))
    \<and> hc_authentication ctx = NotEnforced"
proof -
  let ?e = "envelope_restore_from_transport 1 ''orders.placed'' [1, 2] 2 None Map.empty Map.empty 5"
  let ?ctx = "\<lparr>hc_message_id = 1, hc_correlation_id = 2, hc_authentication = NotEnforced\<rparr>"
  have mem: "RunHandler ?e ?ctx
      \<in> set (snd (fst (dispatch sample_inputs sample_worker sample_broker anonymous_delivery sample_state)))"
    unfolding anonymous_dispatched by simp
  moreover have "wc_envelope_security (wk_config sample_worker) = None"
    by (simp add: sample_worker_defs)
  ultimately show ?thesis
    using handler_gate [OF mem] by (intro exI [of _ ?e] exI [of _ ?ctx]) simp
qed

theorem rejected_quarantined_witness:
  "\<exists>rk props. DoPublish rk props [1, 2]
      \<in> set (snd (fst (dispatch sample_inputs sample_worker sample_broker forged_delivery sample_state)))
    \<and> bp_headers props = Some Map.empty \<and> bp_user_id props = None"
proof -
  let ?p = "basic_properties_default\<lparr>bp_kind := Some ''orders.placed'', bp_headers := Some Map.empty,
      bp_delivery_mode := Some 2\<rparr>"
  let ?a = "DoPublish ''orders.dead'' ?p [1, 2]"
  have mem: "?a \<in> set (snd (fst (dispatch sample_inputs sample_worker sample_broker forged_delivery sample_state)))"
    unfolding forged_dispatched by simp
  have "is_settle ?a \<or> (\<exists>t. ?a = DoSleep t) \<or>
      (\<exists>rk props. ?a = DoPublish rk props (del_data forged_delivery)
        \<and> wc_dead_letter_routing_key (wk_config sample_worker) = Some rk
        \<and> bp_headers props = Some Map.empty \<and> bp_user_id props = None)"
    using mem by (rule rejected_quarantined [rotated]) (simp add: forged_decoded)
  then show ?thesis
    using mem by (intro exI [of _ "''orders.dead''"] exI [of _ ?p]) auto
qed

theorem retry_keeps_identity_witness:
  "\<exists>e e'. delivery_to_envelope decimal_codec 1 2 5 [] (del_properties anonymous_delivery) [1, 2] 10
      metadata_limits_default Lenient = Inr e
    \<and> delivery_to_envelope decimal_codec 3 4 6 []
      ((properties_with_effective_identity decimal_codec (del_properties anonymous_delivery) e)
        \<lparr>bp_delivery_mode := Some 2, bp_headers := Some Map.empty\<rparr>) [1, 2] 10 metadata_limits_default Lenient = Inr e'
    \<and> env_message_id e' = 1"
proof -
  let ?e = "envelope_restore_from_transport 1 ''orders.placed'' [1, 2] 2 None Map.empty Map.empty 5"
  let ?e' = "envelope_restore_from_transport 1 ''orders.placed'' [1, 2] 2 None Map.empty Map.empty 6"
  have fst_try: "delivery_to_envelope decimal_codec 1 2 5 [] (del_properties anonymous_delivery) [1, 2] 10
      metadata_limits_default Lenient = Inr ?e"
    by (simp add: delivery_to_envelope_def decode_headers_def identifier_property_def sample_worker_defs)
  have snd_try: "delivery_to_envelope decimal_codec 3 4 6 []
      ((properties_with_effective_identity decimal_codec (del_properties anonymous_delivery) ?e)
        \<lparr>bp_delivery_mode := Some 2, bp_headers := Some Map.empty\<rparr>) [1, 2] 10 metadata_limits_default Lenient = Inr ?e'"
    using decimal_codec_ok
    by (simp add: delivery_to_envelope_def decode_headers_def identifier_property_def sample_worker_defs
        properties_with_effective_identity_def is_parseable_uuid_def uuid_codec_ok_def
        envelope_restore_from_transport_def)
  show ?thesis
    using retry_keeps_identity [OF decimal_codec_ok fst_try snd_try] fst_try snd_try
    by (intro exI [of _ ?e] exI [of _ ?e']) (simp add: envelope_restore_from_transport_def)
qed

theorem in_flight_bounded_witness:
  "\<exists>s. loop_reaches (Some 1) s [Delivered Settled, PermitGranted] \<and> lo_running s \<le> 1 \<and> lo_running s \<noteq> 0"
proof -
  let ?s\<^sub>1 = "loop_init\<lparr>lo_phase := Parked\<rparr>"
  let ?s\<^sub>2 = "?s\<^sub>1\<lparr>lo_phase := Selecting, lo_running := Suc (lo_running ?s\<^sub>1)\<rparr>"
  have "loop_step (Some 1) loop_init (Delivered Settled) ?s\<^sub>1"
    by (rule loop_step.parked [where b = 1]) (simp_all add: loop_init_def)
  moreover have "loop_step (Some 1) ?s\<^sub>1 PermitGranted ?s\<^sub>2"
    by (rule loop_step.granted [where b = 1]) (simp_all add: loop_init_def)
  ultimately have reach: "loop_reaches (Some 1) ?s\<^sub>2 [Delivered Settled, PermitGranted]"
    using loop_reaches.start loop_reaches.step by (metis append_Cons append_Nil)
  let ?b = "apply_worker_setter (SetMaxBuffered 1) (apply_worker_setter (SetAckMode Unacknowledged)
      (apply_worker_setter (SetQueue ''orders'') worker_builder_new)) :: (unit, unit, unit) amqp_worker_builder"
  have build: "worker_build ?b = Inr \<lparr>wk_queue = ''orders'', wk_handlers = Map.empty, wk_config = wb_config ?b\<rparr>"
    by (simp add: worker_build_def require_queue_def require_positive_bound_def worker_builder_new_def)
  show ?thesis
    using in_flight_bounded [OF build, of ?s\<^sub>2 "[Delivered Settled, PermitGranted]" "Inr ()"] reach
    by (auto simp: loop_init_def)
qed

text \<open>
  The retry copy and the dead-letter copy of an exhausted delivery keep the user identifier of
  the original, unlike the quarantine copy. The broker closes a channel that publishes a
  user identifier other than its own account, so with a producer that sets one, both copies
  are refused when the worker runs under another account.
\<close>

lemma retry_copy_keeps_user_id:
  "bp_user_id ((properties_with_effective_identity uc p e)\<lparr>bp_delivery_mode := Some 2\<rparr>) = bp_user_id p"
  by (simp add: properties_with_effective_identity_def Let_def)

end
