(* ===== verification/Rpc_Responder.thy ===== *)
theory Rpc_Responder
  imports Rpc_Registry Amqp_Worker
begin

text \<open>
  The answering side of request-reply: the adapter that turns a request handler into a worker's
  handler (\<open>crates/hexeract-bus/src/{replied_handler,responder_counters,request_context}.rs\<close>) and
  the reply publisher of the AMQP backend
  (\<open>crates/hexeract-bus-rabbitmq/src/reply_publisher.rs\<close>).

  One dispatch is a function of the clocks it reads, the broker's answer to the one reply it may
  publish, and the handler. It returns how it ended, the counters, and what it did in order.
  Serialisation of requests, replies and error payloads is \<open>serde_json\<close>, given by arguments. The
  tracing span is represented by the outcome recorded on it. The publication of the reply is one
  action; the transport below may put that message on the wire a second time after a channel recovery.
\<close>

section \<open>Counters and context\<close>

record responder_counters =
  rsc_invalid_reply_to :: u64
  rsc_invalid_request_id :: u64
  rsc_unsupported_protocol_version :: u64
  rsc_expired_deadline :: u64
  rsc_invalid_deadline :: u64
  rsc_reply_dropped_after_deadline :: u64

definition count_invalid_reply_to :: "responder_counters \<Rightarrow> responder_counters" where
  "count_invalid_reply_to c = c\<lparr>rsc_invalid_reply_to := rsc_invalid_reply_to c + 1\<rparr>"

definition count_invalid_request_id :: "responder_counters \<Rightarrow> responder_counters" where
  "count_invalid_request_id c = c\<lparr>rsc_invalid_request_id := rsc_invalid_request_id c + 1\<rparr>"

definition count_unsupported_protocol_version :: "responder_counters \<Rightarrow> responder_counters" where
  "count_unsupported_protocol_version c =
     c\<lparr>rsc_unsupported_protocol_version := rsc_unsupported_protocol_version c + 1\<rparr>"

definition count_expired_deadline :: "responder_counters \<Rightarrow> responder_counters" where
  "count_expired_deadline c = c\<lparr>rsc_expired_deadline := rsc_expired_deadline c + 1\<rparr>"

definition count_invalid_deadline :: "responder_counters \<Rightarrow> responder_counters" where
  "count_invalid_deadline c = c\<lparr>rsc_invalid_deadline := rsc_invalid_deadline c + 1\<rparr>"

definition count_reply_dropped_after_deadline :: "responder_counters \<Rightarrow> responder_counters" where
  "count_reply_dropped_after_deadline c =
     c\<lparr>rsc_reply_dropped_after_deadline := rsc_reply_dropped_after_deadline c + 1\<rparr>"

lemmas responder_count_defs =
  count_invalid_reply_to_def count_invalid_request_id_def count_unsupported_protocol_version_def
  count_expired_deadline_def count_invalid_deadline_def count_reply_dropped_after_deadline_def

record request_context =
  rqc_request_id :: uuid
  rqc_protocol_version :: u32
  rqc_deadline :: "nat option"
  rqc_handler :: handler_context

definition request_context_new :: "uuid \<Rightarrow> u32 \<Rightarrow> handler_context \<Rightarrow> request_context" where
  "request_context_new rid version ctx =
     \<lparr>rqc_request_id = rid, rqc_protocol_version = version, rqc_deadline = None, rqc_handler = ctx\<rparr>"

definition context_with_deadline :: "nat \<Rightarrow> request_context \<Rightarrow> request_context" where
  "context_with_deadline d ctx = ctx\<lparr>rqc_deadline := Some d\<rparr>"

definition context_remaining :: "nat \<Rightarrow> request_context \<Rightarrow> duration option" where
  "context_remaining inst ctx =
     (case rqc_deadline ctx of None \<Rightarrow> None | Some d \<Rightarrow> local_deadline_remaining inst d)"

section \<open>The adapter\<close>

datatype ('e, 'rep) handler_run = HandlerOk 'rep | HandlerErr 'e | HandlerPanic panic_payload

text \<open>The request type with its reply type and the wrapped handler; \<open>rh_into\<close> is \<open>Into<BusError>\<close>.\<close>

record ('req, 'rep, 'e) replied_handler =
  rh_message_type :: string
  rh_decode :: "byte list \<Rightarrow> (string, 'req) result"
  rh_reply_type :: string
  rh_encode_reply :: "'rep \<Rightarrow> (string, byte list) result"
  rh_handle :: "'req \<Rightarrow> request_context \<Rightarrow> ('e, 'rep) handler_run"
  rh_into :: "'e \<Rightarrow> bus_error"

text \<open>The trait \<open>ReplyPublisher\<close>; \<open>rp_publish\<close> is the answer to a publish during this dispatch.\<close>

record reply_publisher =
  rp_accept :: "string \<Rightarrow> (reply_destination_error, string) result"
  rp_publish :: "string \<Rightarrow> bus_envelope \<Rightarrow> (bus_error, unit) result"

text \<open>Clocks, fresh identifiers and the encoder of error payloads during one dispatch.\<close>

record responder_inputs =
  ri_codec :: uuid_codec
  ri_now :: systime
  ri_inst :: nat
  ri_inst_after :: nat
  ri_fresh_id :: uuid
  ri_reply_now :: systime
  ri_encode_error :: "remote_error_payload \<Rightarrow> (string, byte list) result"

datatype 'req responder_action = InvokeHandler 'req request_context | PublishReply string bus_envelope

datatype responder_outcome =
    Replied | RepliedWithError | ResponderDropped | ResponderFailed | SuppressedAfterDeadline | ResponderCancelled

fun responder_outcome_str :: "responder_outcome \<Rightarrow> string" where
  "responder_outcome_str Replied = ''replied''"
| "responder_outcome_str RepliedWithError = ''replied_with_error''"
| "responder_outcome_str ResponderDropped = ''dropped''"
| "responder_outcome_str ResponderFailed = ''failed''"
| "responder_outcome_str SuppressedAfterDeadline = ''suppressed_after_deadline''"
| "responder_outcome_str ResponderCancelled = ''cancelled''"

datatype dispatch_end = DispatchDone "(bus_error, responder_outcome) result" | DispatchPanicked panic_payload

datatype request_id_reading = RidPresent uuid | RidMissing | RidUnreadable

definition parse_request_id :: "uuid_codec \<Rightarrow> bus_envelope \<Rightarrow> request_id_reading" where
  "parse_request_id uc e =
     (case header e request_id_header of
        None \<Rightarrow> RidMissing
      | Some raw \<Rightarrow> (case uc_parse uc raw of None \<Rightarrow> RidUnreadable | Some rid \<Rightarrow> RidPresent rid))"

definition error_reply ::
  "responder_inputs \<Rightarrow> remote_error_type \<Rightarrow> uuid \<Rightarrow> uuid \<Rightarrow> (bus_error, bus_envelope) result"
where
  "error_reply ri category corr rid =
     rbind (map_err BusSerialization (ri_encode_error ri \<lparr>rep_error_type = category, rep_request_id = rid\<rparr>)) (\<lambda>bytes.
       let e = envelope_restore (ri_fresh_id ri) reply_error_message_type bytes corr None Map.empty (ri_reply_now ri);
           e = insert_protocol_header reply_status_header reply_status_error e;
           e = insert_protocol_header protocol_version_header (show_nat (unat protocol_version)) e;
           e = insert_protocol_header request_id_header (uc_show (ri_codec ri) rid) e
       in Inr e)"

definition encode_ok_reply ::
  "responder_inputs \<Rightarrow> ('req, 'rep, 'e) replied_handler \<Rightarrow> uuid \<Rightarrow> uuid \<Rightarrow> 'rep \<Rightarrow> (bus_error, bus_envelope) result"
where
  "encode_ok_reply ri rh corr rid reply =
     (case envelope_new (ri_fresh_id ri) (ri_reply_now ri) (rh_reply_type rh) (rh_encode_reply rh reply) corr of
        Inr e \<Rightarrow>
          (let e = insert_protocol_header reply_status_header reply_status_ok e;
               e = insert_protocol_header request_id_header (uc_show (ri_codec ri) rid) e;
               e = insert_protocol_header protocol_version_header (show_nat (unat protocol_version)) e
           in Inr e)
      | Inl _ \<Rightarrow> error_reply ri RemoteInternal corr rid)"

definition encode_handler_error_reply ::
  "responder_inputs \<Rightarrow> ('req, 'rep, 'e) replied_handler \<Rightarrow> uuid \<Rightarrow> uuid \<Rightarrow> 'e \<Rightarrow> (bus_error, bus_envelope) result"
where
  "encode_handler_error_reply ri rh corr rid err =
     error_reply ri (remote_error_from_bus_error (rh_into rh err)) corr rid"

fun reply_undeliverable :: "bus_error \<Rightarrow> bus_error" where
  "reply_undeliverable (Unroutable routing_key reply_text reply_code) =
     ReplyUndeliverable routing_key reply_text reply_code"
| "reply_undeliverable other = other"

definition deliver_reply ::
  "reply_publisher \<Rightarrow> string \<Rightarrow> bus_envelope \<Rightarrow> (bus_error, unit) result \<times> 'req responder_action list"
where
  "deliver_reply rp reply_to e = (map_err reply_undeliverable (rp_publish rp reply_to e), [PublishReply reply_to e])"

text \<open>The two statements \<open>error_reply(..)?\<close> and \<open>deliver_reply(..).await?\<close> of a guard that answers.\<close>

definition answer_with_error ::
  "responder_inputs \<Rightarrow> reply_publisher \<Rightarrow> remote_error_type \<Rightarrow> uuid \<Rightarrow> uuid \<Rightarrow> string \<Rightarrow>
   (bus_error, unit) result \<times> 'req responder_action list"
where
  "answer_with_error ri rp category corr rid reply_to =
     (case error_reply ri category corr rid of
        Inl err \<Rightarrow> (Inl err, [])
      | Inr reply \<Rightarrow> deliver_reply rp reply_to reply)"

definition validated_reply_to ::
  "reply_publisher \<Rightarrow> bus_envelope \<Rightarrow> responder_counters \<Rightarrow> string option \<times> responder_counters"
where
  "validated_reply_to rp e c =
     (case env_reply_to e of
        None \<Rightarrow> (None, count_invalid_reply_to c)
      | Some raw \<Rightarrow>
          (case rp_accept rp raw of
             Inr reply_to \<Rightarrow> (Some reply_to, c)
           | Inl _ \<Rightarrow> (None, count_invalid_reply_to c)))"

datatype deadline_control = Break | Continue "nat option"

definition judge_deadline ::
  "responder_inputs \<Rightarrow> reply_publisher \<Rightarrow> bus_envelope \<Rightarrow> string \<Rightarrow> uuid \<Rightarrow> uuid \<Rightarrow> responder_counters \<Rightarrow>
   (bus_error, deadline_control) result \<times> responder_counters \<times> 'req responder_action list"
where
  "judge_deadline ri rp e reply_to corr rid c =
     (case read_deadline e (ri_now ri) (ri_inst ri) of
        DeadlineAbsent \<Rightarrow> (Inr (Continue None), c, [])
      | DeadlineLive d \<Rightarrow> (Inr (Continue (Some d)), c, [])
      | DeadlineExpired \<Rightarrow> (Inr Break, count_expired_deadline c, [])
      | DeadlineInvalid _ \<Rightarrow>
          (let (r, acts) = answer_with_error ri rp RemoteMalformed corr rid reply_to
           in (rbind r (\<lambda>_. Inr Break), count_invalid_deadline c, acts)))"

text \<open>From the handler's call to the end of the dispatch.\<close>

definition run_and_reply ::
  "responder_inputs \<Rightarrow> ('req, 'rep, 'e) replied_handler \<Rightarrow> reply_publisher \<Rightarrow> 'req \<Rightarrow> request_context \<Rightarrow>
   uuid \<Rightarrow> uuid \<Rightarrow> string \<Rightarrow> nat option \<Rightarrow> responder_counters \<Rightarrow>
   dispatch_end \<times> responder_counters \<times> 'req responder_action list"
where
  "run_and_reply ri rh rp request ctx corr rid reply_to deadline c =
     (case (case rh_handle rh request ctx of
              HandlerPanic p \<Rightarrow> Inl (DispatchPanicked p)
            | HandlerOk reply \<Rightarrow>
                (case encode_ok_reply ri rh corr rid reply of
                   Inl err \<Rightarrow> Inl (DispatchDone (Inl err)) | Inr e \<Rightarrow> Inr (e, Replied))
            | HandlerErr err \<Rightarrow>
                (case encode_handler_error_reply ri rh corr rid err of
                   Inl err' \<Rightarrow> Inl (DispatchDone (Inl err')) | Inr e \<Rightarrow> Inr (e, RepliedWithError))) of
        Inl ended \<Rightarrow> (ended, c, [InvokeHandler request ctx])
      | Inr (reply_envelope, handled_outcome) \<Rightarrow>
          if (case deadline of None \<Rightarrow> False | Some d \<Rightarrow> local_deadline_is_expired (ri_inst_after ri) d)
          then (DispatchDone (Inr SuppressedAfterDeadline), count_reply_dropped_after_deadline c,
                [InvokeHandler request ctx])
          else let (r, acts) = deliver_reply rp reply_to reply_envelope
               in (DispatchDone (rbind r (\<lambda>_. Inr handled_outcome)), c, InvokeHandler request ctx # acts))"

text \<open>The five guards, in their order: a request that was stopped, or what the handler needs.\<close>

definition admit_request ::
  "responder_inputs \<Rightarrow> ('req, 'rep, 'e) replied_handler \<Rightarrow> reply_publisher \<Rightarrow> bus_envelope \<Rightarrow> responder_counters \<Rightarrow>
   (dispatch_end \<times> responder_counters \<times> 'req responder_action list) + (string \<times> uuid \<times> nat option \<times> 'req)"
where
  "admit_request ri rh rp e c =
     (let corr = env_correlation_id e in
      case validated_reply_to rp e c of
        (None, c) \<Rightarrow> Inl (DispatchDone (Inr ResponderDropped), c, [])
      | (Some reply_to, c) \<Rightarrow>
          (case parse_request_id (ri_codec ri) e of
             RidMissing \<Rightarrow> Inl (DispatchDone (Inr ResponderDropped), count_invalid_request_id c, [])
           | RidUnreadable \<Rightarrow> Inl (DispatchDone (Inr ResponderDropped), count_invalid_request_id c, [])
           | RidPresent rid \<Rightarrow>
               if read_protocol_version e \<noteq> Some protocol_version
               then let (r, acts) = answer_with_error ri rp RemoteUnsupported corr rid reply_to
                    in Inl (DispatchDone (rbind r (\<lambda>_. Inr ResponderDropped)),
                            count_unsupported_protocol_version c, acts)
               else
                 (case judge_deadline ri rp e reply_to corr rid c of
                    (Inl err, c, acts) \<Rightarrow> Inl (DispatchDone (Inl err), c, acts)
                  | (Inr Break, c, acts) \<Rightarrow> Inl (DispatchDone (Inr ResponderDropped), c, acts)
                  | (Inr (Continue deadline), c, _) \<Rightarrow>
                      (case envelope_decode (rh_message_type rh) (rh_decode rh) e of
                         Inl _ \<Rightarrow>
                           (let (r, acts) = answer_with_error ri rp RemoteMalformed corr rid reply_to
                            in Inl (DispatchDone (rbind r (\<lambda>_. Inr ResponderDropped)), c, acts))
                       | Inr request \<Rightarrow> Inr (reply_to, rid, deadline, request)))))"

definition respond ::
  "responder_inputs \<Rightarrow> ('req, 'rep, 'e) replied_handler \<Rightarrow> reply_publisher \<Rightarrow> bus_envelope \<Rightarrow> handler_context \<Rightarrow>
   responder_counters \<Rightarrow> dispatch_end \<times> responder_counters \<times> 'req responder_action list"
where
  "respond ri rh rp e ctx c =
     (case admit_request ri rh rp e c of
        Inl stopped \<Rightarrow> stopped
      | Inr (reply_to, rid, deadline, request) \<Rightarrow>
          (let rctx = request_context_new rid protocol_version ctx;
               rctx = (case deadline of None \<Rightarrow> rctx | Some d \<Rightarrow> context_with_deadline d rctx)
           in run_and_reply ri rh rp request rctx (env_correlation_id e) rid reply_to deadline c))"

text \<open>\<open>handle\<close>: the end of the dispatch as the worker sees it, and the outcome on the span.\<close>

definition respond_handle ::
  "responder_inputs \<Rightarrow> ('req, 'rep, 'e) replied_handler \<Rightarrow> reply_publisher \<Rightarrow> bus_envelope \<Rightarrow> handler_context \<Rightarrow>
   responder_counters \<Rightarrow> (handler_end \<times> responder_outcome) \<times> responder_counters \<times> 'req responder_action list"
where
  "respond_handle ri rh rp e ctx c =
     (case respond ri rh rp e ctx c of
        (DispatchDone (Inr outcome), c, acts) \<Rightarrow> ((Returned (Inr ()), outcome), c, acts)
      | (DispatchDone (Inl err), c, acts) \<Rightarrow> ((Returned (Inl err), ResponderFailed), c, acts)
      | (DispatchPanicked p, c, acts) \<Rightarrow> ((Panicked p, ResponderCancelled), c, acts))"

section \<open>The AMQP reply publisher\<close>

definition server_named_inbox_prefix :: string where
  "server_named_inbox_prefix = ''amq.gen-''"

definition accept_reply_destination :: "string \<Rightarrow> (reply_destination_error, string) result" where
  "accept_reply_destination raw =
     rbind (reply_destination_parse raw) (\<lambda>destination.
       if take (length server_named_inbox_prefix) destination = server_named_inbox_prefix
       then Inr destination else Inl OutsideReplyNamespace)"

text \<open>
  The publisher is built over the default exchange with the default metadata limits: publishing
  goes through the transport, and the message identifier is dropped.
\<close>

definition reply_transport :: "('sk, 'vk) outbound_security option \<Rightarrow> bool \<Rightarrow> ('sk, 'vk) amqp_transport" where
  "reply_transport security confirms =
     \<lparr>tr_exchange = [], tr_metadata_limits = metadata_limits_default, tr_envelope_security = security,
      tr_confirms = confirms\<rparr>"

definition amqp_reply_publisher ::
  "uuid_codec \<Rightarrow> (nat \<Rightarrow> publish_attempt) \<Rightarrow> (header_map \<Rightarrow> string list) \<Rightarrow> ('sk, 'vk) amqp_transport \<Rightarrow> reply_publisher"
where
  "amqp_reply_publisher uc att ord tr =
     \<lparr>rp_accept = accept_reply_destination,
      rp_publish = (\<lambda>destination e.
        rbind (fst (publish_envelope uc att (ord (env_headers e)) (ord (env_protocol_headers e)) tr destination e))
          (\<lambda>_. Inr ()))\<rparr>"

section \<open>Lemmas\<close>

text \<open>What makes an envelope a reply to the call \<open>rid\<close> on the causal chain \<open>corr\<close>.\<close>

definition answers_call :: "uuid_codec \<Rightarrow> uuid \<Rightarrow> uuid \<Rightarrow> bus_envelope \<Rightarrow> bool" where
  "answers_call uc rid corr r \<longleftrightarrow>
     header r request_id_header = Some (uc_show uc rid)
     \<and> header r protocol_version_header = Some (show_nat (unat protocol_version))
     \<and> env_correlation_id r = corr \<and> env_reply_to r = None"

lemma error_reply_shape:
  assumes "error_reply ri category corr rid = Inr r"
  shows "answers_call (ri_codec ri) rid corr r" "header r reply_status_header = Some reply_status_error"
    "env_message_type r = reply_error_message_type"
    "ri_encode_error ri \<lparr>rep_error_type = category, rep_request_id = rid\<rparr> = Inr (env_payload r)"
proof -
  obtain bytes where "ri_encode_error ri \<lparr>rep_error_type = category, rep_request_id = rid\<rparr> = Inr bytes"
    using assms by (cases "ri_encode_error ri \<lparr>rep_error_type = category, rep_request_id = rid\<rparr>")
      (auto simp: error_reply_def)
  then show "answers_call (ri_codec ri) rid corr r" "header r reply_status_header = Some reply_status_error"
    "env_message_type r = reply_error_message_type"
    "ri_encode_error ri \<lparr>rep_error_type = category, rep_request_id = rid\<rparr> = Inr (env_payload r)"
    using assms by (auto simp: error_reply_def Let_def answers_call_def envelope_restore_def)
qed

lemma encode_ok_reply_cases:
  assumes "encode_ok_reply ri rh corr rid reply = Inr r"
  obtains bytes where "rh_encode_reply rh reply = Inr bytes" "answers_call (ri_codec ri) rid corr r"
      "header r reply_status_header = Some reply_status_ok" "env_message_type r = rh_reply_type rh"
      "env_payload r = bytes"
    | err where "rh_encode_reply rh reply = Inl err" "error_reply ri RemoteInternal corr rid = Inr r"
proof (cases "rh_encode_reply rh reply")
  case (Inl err)
  then have "error_reply ri RemoteInternal corr rid = Inr r"
    using assms by (simp add: encode_ok_reply_def envelope_new_def)
  then show ?thesis using that(2) Inl by blast
next
  case (Inr bytes)
  then show ?thesis
    using assms by (intro that(1) [OF Inr])
      (auto simp: encode_ok_reply_def envelope_new_def Let_def answers_call_def)
qed

lemma answer_with_error_acts:
  assumes "answer_with_error ri rp category corr rid reply_to = (res, acts)"
  shows "acts = [] \<and> (\<exists>err. error_reply ri category corr rid = Inl err)
    \<or> (\<exists>r. error_reply ri category corr rid = Inr r \<and> acts = [PublishReply reply_to r])"
  using assms by (auto simp: answer_with_error_def deliver_reply_def split: sum.splits)

text \<open>The whole dispatch as one table: which guard stopped it, or what the handler led to.\<close>

lemma run_and_reply_acts:
  assumes "run_and_reply ri rh rp request rctx corr rid reply_to deadline c = (ended, c', acts)"
  shows "acts = [InvokeHandler request rctx]
    \<or> (\<exists>r. acts = [InvokeHandler request rctx, PublishReply reply_to r] \<and> answers_call (ri_codec ri) rid corr r)"
proof -
  have ok: "answers_call (ri_codec ri) rid corr r" if "encode_ok_reply ri rh corr rid reply = Inr r" for reply r
    using that by (rule encode_ok_reply_cases) (simp_all add: error_reply_shape)
  have err: "answers_call (ri_codec ri) rid corr r" if "encode_handler_error_reply ri rh corr rid x = Inr r" for x r
    using that by (simp add: encode_handler_error_reply_def error_reply_shape)
  show ?thesis
    using assms ok err
    by (auto simp: run_and_reply_def deliver_reply_def split: handler_run.splits sum.splits if_splits)
qed

lemma admit_request_stopped:
  assumes "admit_request ri rh rp e c = Inl (ended, c', acts)"
  shows "acts = [] \<or> (\<exists>raw reply_to rid r. env_reply_to e = Some raw \<and> rp_accept rp raw = Inr reply_to
      \<and> parse_request_id (ri_codec ri) e = RidPresent rid \<and> acts = [PublishReply reply_to r]
      \<and> answers_call (ri_codec ri) rid (env_correlation_id e) r)"
  using assms
  by (auto simp: admit_request_def Let_def rbind_eq_Inr validated_reply_to_def judge_deadline_def answer_with_error_def deliver_reply_def
      error_reply_shape
      split: option.splits sum.splits request_id_reading.splits deadline_reading.splits if_splits prod.splits)

lemma admit_request_admitted:
  assumes "admit_request ri rh rp e c = Inr (reply_to, rid, deadline, request)"
  shows "\<exists>raw. env_reply_to e = Some raw \<and> rp_accept rp raw = Inr reply_to"
    and "parse_request_id (ri_codec ri) e = RidPresent rid"
    and "read_protocol_version e = Some protocol_version"
    and "read_deadline e (ri_now ri) (ri_inst ri) = (case deadline of None \<Rightarrow> DeadlineAbsent | Some d \<Rightarrow> DeadlineLive d)"
    and "envelope_decode (rh_message_type rh) (rh_decode rh) e = Inr request"
  using assms
  by (auto simp: admit_request_def Let_def rbind_eq_Inr validated_reply_to_def judge_deadline_def
      split: option.splits sum.splits request_id_reading.splits deadline_reading.splits if_splits prod.splits)

lemma deliver_result:
  "rbind (map_err reply_undeliverable res) (\<lambda>_. Inr handled) = Inr outcome \<longleftrightarrow> outcome = handled \<and> res = Inr ()"
  "res = Inl (Unroutable rk text code) \<Longrightarrow>
   rbind (map_err reply_undeliverable res) (\<lambda>_. Inr handled) = Inl (ReplyUndeliverable rk text code)"
  by (cases res; auto)+

lemma run_and_reply_contract:
  assumes "run_and_reply ri rh rp request rctx corr rid reply_to deadline c = (ended, c', acts)"
  shows "case (case rh_handle rh request rctx of
                 HandlerPanic p \<Rightarrow> Inl (DispatchPanicked p)
               | HandlerOk reply \<Rightarrow> Inr (encode_ok_reply ri rh corr rid reply)
               | HandlerErr err \<Rightarrow> Inr (error_reply ri (remote_error_from_bus_error (rh_into rh err)) corr rid)) of
           Inl panicked \<Rightarrow> ended = panicked \<and> c' = c \<and> acts = [InvokeHandler request rctx]
         | Inr (Inl err) \<Rightarrow> ended = DispatchDone (Inl err) \<and> c' = c \<and> acts = [InvokeHandler request rctx]
         | Inr (Inr r) \<Rightarrow>
             if \<exists>d. deadline = Some d \<and> d < ri_inst_after ri
             then ended = DispatchDone (Inr SuppressedAfterDeadline)
               \<and> c' = count_reply_dropped_after_deadline c \<and> acts = [InvokeHandler request rctx]
             else acts = [InvokeHandler request rctx, PublishReply reply_to r] \<and> c' = c
               \<and> ((\<exists>outcome. ended = DispatchDone (Inr outcome)) \<longleftrightarrow> rp_publish rp reply_to r = Inr ())
               \<and> (\<forall>rk text code. rp_publish rp reply_to r = Inl (Unroutable rk text code) \<longrightarrow>
                    (\<exists>err. ended = DispatchDone (Inl err) \<and> is_permanent_delivery_failure err))"
proof -
  have late: "(case deadline of None \<Rightarrow> False | Some d \<Rightarrow> local_deadline_is_expired (ri_inst_after ri) d)
      \<longleftrightarrow> (\<exists>d. deadline = Some d \<and> d < ri_inst_after ri)"
    by (auto simp: local_deadline_is_expired_def local_deadline_remaining_def split: option.splits)
  show ?thesis
    using assms unfolding run_and_reply_def encode_handler_error_reply_def late
    by (cases "rh_handle rh request rctx") (auto simp: deliver_reply_def deliver_result split: sum.splits if_splits)
qed

lemma accept_reply_destination_ok:
  "accept_reply_destination raw = Inr d \<longleftrightarrow>
     d = raw \<and> reply_destination_parse raw = Inr raw
     \<and> take (length server_named_inbox_prefix) raw = server_named_inbox_prefix"
  by (auto simp: accept_reply_destination_def reply_destination_parse_def rbind_eq_Inr split: if_splits)

lemma reply_destination_parse_ok:
  "reply_destination_parse raw = Inr d \<longleftrightarrow>
     d = raw \<and> raw \<noteq> [] \<and> length raw \<le> 255 \<and> \<not> has_control (map of_char raw)"
  by (auto simp: reply_destination_parse_def)

lemma respond_publishes:
  assumes "respond ri rh rp e ctx c = (ended, c', acts)" "PublishReply d r \<in> set acts"
  obtains raw rid where "env_reply_to e = Some raw" "rp_accept rp raw = Inr d"
    "parse_request_id (ri_codec ri) e = RidPresent rid" "answers_call (ri_codec ri) rid (env_correlation_id e) r"
proof (cases "admit_request ri rh rp e c")
  case (Inl stopped)
  then have "admit_request ri rh rp e c = Inl (ended, c', acts)" using assms(1) by (simp add: respond_def)
  from admit_request_stopped [OF this] assms(2) that show ?thesis by auto
next
  case (Inr admitted)
  obtain reply_to rid deadline request where adm: "admitted = (reply_to, rid, deadline, request)"
    by (cases admitted)
  note ok = admit_request_admitted [OF Inr [unfolded adm]]
  have "\<exists>rctx. run_and_reply ri rh rp request rctx (env_correlation_id e) rid reply_to deadline c = (ended, c', acts)"
    using assms(1) Inr adm by (auto simp: respond_def Let_def)
  then obtain rctx where
    "run_and_reply ri rh rp request rctx (env_correlation_id e) rid reply_to deadline c = (ended, c', acts)" by blast
  from run_and_reply_acts [OF this] assms(2) ok(1,2) that show ?thesis by auto
qed

lemma respond_invokes:
  assumes "respond ri rh rp e ctx c = (ended, c', acts)" "InvokeHandler request rctx \<in> set acts"
  obtains reply_to rid deadline where "admit_request ri rh rp e c = Inr (reply_to, rid, deadline, request)"
    "rctx = \<lparr>rqc_request_id = rid, rqc_protocol_version = protocol_version, rqc_deadline = deadline, rqc_handler = ctx\<rparr>"
    "run_and_reply ri rh rp request rctx (env_correlation_id e) rid reply_to deadline c = (ended, c', acts)"
proof (cases "admit_request ri rh rp e c")
  case (Inl stopped)
  then have "admit_request ri rh rp e c = Inl (ended, c', acts)" using assms(1) by (simp add: respond_def)
  from admit_request_stopped [OF this] assms(2) show ?thesis by auto
next
  case (Inr admitted)
  obtain reply_to rid deadline request' where adm: "admitted = (reply_to, rid, deadline, request')"
    by (cases admitted)
  let ?ctx = "\<lparr>rqc_request_id = rid, rqc_protocol_version = protocol_version, rqc_deadline = deadline, rqc_handler = ctx\<rparr>"
  have run: "run_and_reply ri rh rp request' ?ctx (env_correlation_id e) rid reply_to deadline c = (ended, c', acts)"
    using assms(1) Inr adm
    by (simp add: respond_def Let_def request_context_new_def context_with_deadline_def split: option.splits)
  then have "request' = request" "rctx = ?ctx"
    using run_and_reply_acts [OF run] assms(2) by auto
  then show ?thesis using that Inr adm run by simp
qed

text \<open>A responder that echoes its request, for the witnesses.\<close>

definition echo_handler :: "(byte list, byte list, bus_error) replied_handler" where
  "echo_handler =
     \<lparr>rh_message_type = ''Ping'', rh_decode = Inr, rh_reply_type = ''Pong'', rh_encode_reply = Inr,
      rh_handle = (\<lambda>request _. HandlerOk request), rh_into = id\<rparr>"

definition sample_responder_inputs :: responder_inputs where
  "sample_responder_inputs =
     \<lparr>ri_codec = decimal_codec, ri_now = 50, ri_inst = 5, ri_inst_after = 6, ri_fresh_id = 8, ri_reply_now = 60,
      ri_encode_error = (\<lambda>p. Inr [word_of_nat (unat (rep_request_id p))])\<rparr>"

definition sample_publisher :: reply_publisher where
  "sample_publisher = \<lparr>rp_accept = accept_reply_destination, rp_publish = (\<lambda>_ _. Inr ())\<rparr>"

definition sample_request :: bus_envelope where
  "sample_request =
     insert_protocol_header protocol_version_header (show_nat (unat protocol_version))
       (insert_protocol_header request_id_header (uc_show decimal_codec 3)
         \<lparr>env_message_id = 4, env_message_type = ''Ping'', env_payload = [7], env_correlation_id = 9,
          env_reply_to = Some ''amq.gen-a'', env_headers = Map.empty, env_protocol_headers = Map.empty,
          env_published_at = 40\<rparr>)"

definition sample_handler_context :: handler_context where
  "sample_handler_context = \<lparr>hc_message_id = 4, hc_correlation_id = 9, hc_authentication = NotEnforced\<rparr>"

definition sample_request_context :: request_context where
  "sample_request_context =
     \<lparr>rqc_request_id = 3, rqc_protocol_version = protocol_version, rqc_deadline = None,
      rqc_handler = sample_handler_context\<rparr>"

definition sample_responder_counters :: responder_counters where
  "sample_responder_counters =
     \<lparr>rsc_invalid_reply_to = 0, rsc_invalid_request_id = 0, rsc_unsupported_protocol_version = 0,
      rsc_expired_deadline = 0, rsc_invalid_deadline = 0, rsc_reply_dropped_after_deadline = 0\<rparr>"

lemma sample_request_parts:
  "accept_reply_destination ''amq.gen-a'' = Inr ''amq.gen-a''" "env_reply_to sample_request = Some ''amq.gen-a''"
  "parse_request_id decimal_codec sample_request = RidPresent 3"
  "read_protocol_version sample_request = Some protocol_version"
  "read_deadline sample_request now inst = DeadlineAbsent" "env_correlation_id sample_request = 9"
  "envelope_decode (rh_message_type echo_handler) (rh_decode echo_handler) sample_request = Inr [7]"
proof -
  show "accept_reply_destination ''amq.gen-a'' = Inr ''amq.gen-a''" by code_simp
  show "env_reply_to sample_request = Some ''amq.gen-a''" "env_correlation_id sample_request = 9"
    by (simp_all add: sample_request_def)
  show "parse_request_id decimal_codec sample_request = RidPresent 3"
    using decimal_codec_ok by (simp add: parse_request_id_def sample_request_def uuid_codec_ok_def)
  show "read_protocol_version sample_request = Some protocol_version"
    by (simp add: read_protocol_version_def sample_request_def parse_version_one)
  have "header sample_request deadline_header = None"
    by (simp add: sample_request_def header_def insert_protocol_header_def)
  then show "read_deadline sample_request now inst = DeadlineAbsent"
    by (simp add: read_deadline_def)
  show "envelope_decode (rh_message_type echo_handler) (rh_decode echo_handler) sample_request = Inr [7]"
    by (simp add: envelope_decode_def sample_request_def echo_handler_def)
qed

lemma sample_admitted:
  "rp_accept rp = accept_reply_destination \<Longrightarrow>
   admit_request sample_responder_inputs echo_handler rp sample_request c = Inr (''amq.gen-a'', 3, None, [7])"
  using sample_request_parts
  by (simp add: admit_request_def validated_reply_to_def judge_deadline_def sample_responder_inputs_def)

lemma sample_respond:
  assumes "rp_accept rp = accept_reply_destination"
  shows "\<exists>r. respond sample_responder_inputs echo_handler rp sample_request sample_handler_context c
    = (DispatchDone (rbind (map_err reply_undeliverable (rp_publish rp ''amq.gen-a'' r)) (\<lambda>_. Inr Replied)), c,
       [InvokeHandler [7] sample_request_context, PublishReply ''amq.gen-a'' r])"
proof -
  have "\<exists>r. encode_ok_reply sample_responder_inputs echo_handler 9 3 [7] = Inr r"
    by (simp add: encode_ok_reply_def envelope_new_def echo_handler_def Let_def)
  then obtain r where "encode_ok_reply sample_responder_inputs echo_handler 9 3 [7] = Inr r" by blast
  moreover have "rh_handle echo_handler [7] ctx = HandlerOk [7]" for ctx by (simp add: echo_handler_def)
  ultimately show ?thesis
    using sample_admitted [OF assms, of c] sample_request_parts(6)
    by (intro exI [of _ r])
      (simp add: respond_def request_context_new_def run_and_reply_def deliver_reply_def sample_request_context_def)
qed

section \<open>Properties\<close>

text \<open>
  C12. A responder cannot be used as a relay. Whatever the request carries, the AMQP responder
  publishes at most one message, on the default exchange, to the very \<open>reply_to\<close> of the request,
  which is a server-named inbox of at most 255 bytes without control characters; and that message
  carries the identity and the causal chain of the request.
\<close>

theorem responder_no_relay:
  assumes "respond ri rh (amqp_reply_publisher uc att ord (reply_transport security confirms)) e ctx c = (ended, c', acts)"
    and "PublishReply d r \<in> set acts"
  shows "env_reply_to e = Some d \<and> take 8 d = ''amq.gen-'' \<and> length d \<le> 255 \<and> \<not> has_control (map of_char d)
    \<and> (\<exists>rid. parse_request_id (ri_codec ri) e = RidPresent rid
         \<and> answers_call (ri_codec ri) rid (env_correlation_id e) r)
    \<and> length (filter (\<lambda>a. \<exists>d r. a = PublishReply d r) acts) = 1"
proof -
  obtain raw rid where raw: "env_reply_to e = Some raw" "accept_reply_destination raw = Inr d"
    and rid: "parse_request_id (ri_codec ri) e = RidPresent rid" "answers_call (ri_codec ri) rid (env_correlation_id e) r"
    using respond_publishes [OF assms] by (auto simp: amqp_reply_publisher_def)
  have one: "length (filter (\<lambda>a. \<exists>d r. a = PublishReply d r) acts) = 1"
  proof (cases "admit_request ri rh (amqp_reply_publisher uc att ord (reply_transport security confirms)) e c")
    case (Inl stopped)
    then have "admit_request ri rh (amqp_reply_publisher uc att ord (reply_transport security confirms)) e c
        = Inl (ended, c', acts)" using assms(1) by (simp add: respond_def)
    from admit_request_stopped [OF this] assms(2) show ?thesis by auto
  next
    case (Inr admitted)
    obtain reply_to rid deadline request where adm: "admitted = (reply_to, rid, deadline, request)"
      by (cases admitted)
    have "\<exists>rctx. run_and_reply ri rh (amqp_reply_publisher uc att ord (reply_transport security confirms)) request rctx
        (env_correlation_id e) rid reply_to deadline c = (ended, c', acts)"
      using assms(1) Inr adm by (auto simp: respond_def Let_def)
    then show ?thesis using run_and_reply_acts assms(2) by fastforce
  qed
  have "length server_named_inbox_prefix = 8" by (simp add: server_named_inbox_prefix_def)
  then have "take 8 d = ''amq.gen-''"
    using raw(2) by (metis accept_reply_destination_ok server_named_inbox_prefix_def)
  then show ?thesis
    using raw rid one by (auto simp: accept_reply_destination_ok reply_destination_parse_ok)
qed

theorem responder_no_relay_witness:
  "\<exists>ended c' acts r. respond sample_responder_inputs echo_handler
      (amqp_reply_publisher decimal_codec flaky_broker (\<lambda>_. []) (reply_transport (Some wire_security) True))
      sample_request sample_handler_context sample_responder_counters = (ended, c', acts)
    \<and> PublishReply ''amq.gen-a'' r \<in> set acts \<and> answers_call decimal_codec 3 9 r"
proof -
  let ?rp = "amqp_reply_publisher decimal_codec flaky_broker (\<lambda>_. []) (reply_transport (Some wire_security) True)"
  have "rp_accept ?rp = accept_reply_destination" by (simp add: amqp_reply_publisher_def)
  then obtain ended c' r where run: "respond sample_responder_inputs echo_handler ?rp sample_request sample_handler_context sample_responder_counters
    = (ended, c', [InvokeHandler [7] sample_request_context, PublishReply ''amq.gen-a'' r])"
    using sample_respond by blast
  then show ?thesis
    using responder_no_relay [OF run, of "''amq.gen-a''" r] sample_request_parts
    by (auto simp: sample_responder_inputs_def)
qed

text \<open>
  C36. The handler runs only behind all five guards, once, with the identity, the version and the
  anchored deadline the request carried. A panic of the handler is passed on without a reply. A
  reply computed after the deadline has passed is suppressed and counted. Otherwise exactly one
  reply is published, with the handler's reply or the category of its failure, and the
  dispatch succeeds exactly when the broker took it; a destination that is gone is reported as a
  permanent failure.
\<close>

theorem responder_handler_contract:
  assumes "respond ri rh rp e ctx c = (ended, c', acts)" "InvokeHandler request rctx \<in> set acts"
  shows "read_protocol_version e = Some protocol_version
    \<and> envelope_decode (rh_message_type rh) (rh_decode rh) e = Inr request
    \<and> read_deadline e (ri_now ri) (ri_inst ri)
        = (case rqc_deadline rctx of None \<Rightarrow> DeadlineAbsent | Some d \<Rightarrow> DeadlineLive d)
    \<and> (\<exists>raw reply_to. env_reply_to e = Some raw \<and> rp_accept rp raw = Inr reply_to
      \<and> parse_request_id (ri_codec ri) e = RidPresent (rqc_request_id rctx)
      \<and> (case (case rh_handle rh request rctx of
                 HandlerPanic p \<Rightarrow> Inl (DispatchPanicked p)
               | HandlerOk reply \<Rightarrow> Inr (encode_ok_reply ri rh (env_correlation_id e) (rqc_request_id rctx) reply)
               | HandlerErr err \<Rightarrow> Inr (error_reply ri (remote_error_from_bus_error (rh_into rh err))
                                        (env_correlation_id e) (rqc_request_id rctx))) of
           Inl panicked \<Rightarrow> ended = panicked \<and> c' = c \<and> acts = [InvokeHandler request rctx]
         | Inr (Inl err) \<Rightarrow> ended = DispatchDone (Inl err) \<and> c' = c \<and> acts = [InvokeHandler request rctx]
         | Inr (Inr r) \<Rightarrow>
             if \<exists>d. rqc_deadline rctx = Some d \<and> d < ri_inst_after ri
             then ended = DispatchDone (Inr SuppressedAfterDeadline)
               \<and> c' = count_reply_dropped_after_deadline c \<and> acts = [InvokeHandler request rctx]
             else acts = [InvokeHandler request rctx, PublishReply reply_to r] \<and> c' = c
               \<and> ((\<exists>outcome. ended = DispatchDone (Inr outcome)) \<longleftrightarrow> rp_publish rp reply_to r = Inr ())
               \<and> (\<forall>rk text code. rp_publish rp reply_to r = Inl (Unroutable rk text code) \<longrightarrow>
                    (\<exists>err. ended = DispatchDone (Inl err) \<and> is_permanent_delivery_failure err))))"
proof -
  obtain reply_to rid deadline where adm: "admit_request ri rh rp e c = Inr (reply_to, rid, deadline, request)"
    and rctx: "rctx = \<lparr>rqc_request_id = rid, rqc_protocol_version = protocol_version, rqc_deadline = deadline, rqc_handler = ctx\<rparr>"
    and run: "run_and_reply ri rh rp request rctx (env_correlation_id e) rid reply_to deadline c = (ended, c', acts)"
    using respond_invokes [OF assms] .
  note ok = admit_request_admitted [OF adm]
  obtain raw where raw: "env_reply_to e = Some raw" "rp_accept rp raw = Inr reply_to" using ok(1) by blast
  have fields: "rqc_request_id rctx = rid" "rqc_deadline rctx = deadline" by (simp_all add: rctx)
  show ?thesis
    unfolding fields using ok(2-) raw run_and_reply_contract [OF run] by blast
qed

theorem responder_handler_contract_witness:
  "\<exists>ended r. respond sample_responder_inputs echo_handler sample_publisher sample_request sample_handler_context
      sample_responder_counters
    = (ended, sample_responder_counters, [InvokeHandler [7] sample_request_context, PublishReply ''amq.gen-a'' r])
    \<and> envelope_decode (rh_message_type echo_handler) (rh_decode echo_handler) sample_request = Inr [7]"
proof -
  have "rp_accept sample_publisher = accept_reply_destination" by (simp add: sample_publisher_def)
  from sample_respond [OF this, of sample_responder_counters]
  obtain ended r where run: "respond sample_responder_inputs echo_handler sample_publisher sample_request
      sample_handler_context sample_responder_counters
    = (ended, sample_responder_counters, [InvokeHandler [7] sample_request_context, PublishReply ''amq.gen-a'' r])"
    by blast
  then show ?thesis
    using responder_handler_contract [OF run, of "[7]" sample_request_context] by auto
qed

end
