(* ===== verification/Rpc_Inbox.thy ===== *)
theory Rpc_Inbox
  imports Rpc_Registry Amqp_Worker
begin

text \<open>
  The reply inbox of the AMQP client (\<open>crates/hexeract-bus-rabbitmq/src/reply_inbox.rs\<close>) and the
  reconnection policy of its supervisor
  (\<open>crates/hexeract-bus-rabbitmq/src/request_client.rs\<close>): every delivery is decoded and verified
  before the registry sees it, and a lost connection is marked before the waiting callers are
  released.

  What the consumer stream yields is a list of events; the clock, the fresh identifiers and the
  iteration orders of one delivery come with it, as in the worker's dispatch.
\<close>

section \<open>Deliveries\<close>

definition default_max_payload_bytes :: nat where
  "default_max_payload_bytes = 1024 * 1024"

record ('s, 'sk, 'vk) reply_inbox_config =
  ric_metadata_limits :: metadata_limits
  ric_required_fields :: required_envelope_fields
  ric_security :: "('s, 'sk, 'vk) inbound_security option"

definition decode_reply_delivery ::
  "dispatch_inputs \<Rightarrow> ('s, 'sk, 'vk) reply_inbox_config \<Rightarrow> delivery \<Rightarrow> (bus_error, bus_envelope) result"
where
  "decode_reply_delivery di cfg d =
     delivery_to_envelope (di_codec di) (di_fresh_message_id di) (di_fresh_correlation_id di) (di_now di)
       (case bp_headers (del_properties d) of None \<Rightarrow> [] | Some t \<Rightarrow> di_table_order di t)
       (del_properties d) (del_data d) default_max_payload_bytes (ric_metadata_limits cfg) (ric_required_fields cfg)"

definition verify_before_resolution ::
  "dispatch_inputs \<Rightarrow> ('s, 'sk, 'vk) inbound_security option \<Rightarrow> bus_envelope \<Rightarrow> string \<Rightarrow>
   (bus_envelope \<Rightarrow> (transport_refusal, reply_authentication) result \<Rightarrow> request_registry \<Rightarrow> request_registry) \<Rightarrow>
   request_registry \<times> 's verifier_state \<Rightarrow> request_registry \<times> 's verifier_state"
where
  "verify_before_resolution di sec e dest res st =
     (case sec of
        None \<Rightarrow> (res e (Inr ReplyNotEnforced) (fst st), snd st)
      | Some s \<Rightarrow>
          (case verify_inbound di s e dest (snd st) of
             (Inr pr, vs) \<Rightarrow> (res e (Inr (reply_auth_from_verification pr)) (fst st), vs)
           | (Inl _, vs) \<Rightarrow> (res e (Inl RefusedUnauthenticated) (fst st), vs)))"

definition handle_decoded_delivery ::
  "(byte list \<Rightarrow> remote_error_payload option) \<Rightarrow> dispatch_inputs \<Rightarrow> (bus_error, bus_envelope) result \<Rightarrow>
   ('s, 'sk, 'vk) inbound_security option \<Rightarrow> string \<Rightarrow> request_registry \<times> 's verifier_state \<Rightarrow>
   request_registry \<times> 's verifier_state"
where
  "handle_decoded_delivery dec di decoded sec dest st =
     (case decoded of
        Inr e \<Rightarrow> verify_before_resolution di sec e dest (resolve (di_codec di) dec) st
      | Inl _ \<Rightarrow> (record_undecodable (fst st), snd st))"

datatype inbox_event =
    InboxCancelled
  | InboxDelivery dispatch_inputs delivery
  | InboxStreamError string
  | InboxStreamEnd

definition inbox_stream_lost :: bus_error where
  "inbox_stream_lost = Connection ''reply inbox consumer stream ended: connection or channel lost'' True"

text \<open>The consume loop; without a result it is still waiting for the next event.\<close>

fun run_reply_inbox ::
  "(byte list \<Rightarrow> remote_error_payload option) \<Rightarrow> ('s, 'sk, 'vk) reply_inbox_config \<Rightarrow> inbox_event list \<Rightarrow>
   request_registry \<times> 's verifier_state \<Rightarrow>
   (bus_error, unit) result option \<times> request_registry \<times> 's verifier_state"
where
  "run_reply_inbox dec cfg [] st = (None, st)"
| "run_reply_inbox dec cfg (InboxCancelled # evs) st = (Some (Inr ()), st)"
| "run_reply_inbox dec cfg (InboxDelivery di d # evs) st =
     run_reply_inbox dec cfg evs
       (handle_decoded_delivery dec di (decode_reply_delivery di cfg d) (ric_security cfg) (del_routing_key d) st)"
| "run_reply_inbox dec cfg (InboxStreamError msg # evs) st = (Some (Inl (Connection msg True)), st)"
| "run_reply_inbox dec cfg (InboxStreamEnd # evs) st = (Some (Inl inbox_stream_lost), st)"

section \<open>Losing and rebuilding the inbox\<close>

datatype reply_inbox_state = InboxReady string | InboxReconnecting

definition mark_reconnecting_then_drain ::
  "(request_registry \<Rightarrow> request_registry) \<Rightarrow> reply_inbox_state \<times> request_registry \<Rightarrow> reply_inbox_state \<times> request_registry"
where
  "mark_reconnecting_then_drain drn st = (InboxReconnecting, drn (snd st))"

definition on_connection_lost ::
  "uuid list \<Rightarrow> reply_inbox_state \<times> request_registry \<Rightarrow> reply_inbox_state \<times> request_registry"
where
  "on_connection_lost ks st = mark_reconnecting_then_drain (drain ks) st"

datatype reconnect_failure = AlreadyBackedOff | NeedsBackoff

definition classify_connect_failure :: "bus_error \<Rightarrow> reconnect_failure" where
  "classify_connect_failure err =
     (if is_retryable_connection err = Some True then AlreadyBackedOff else NeedsBackoff)"

text \<open>A setup over a live connection; the flag records that the connection was closed again.\<close>

definition setup_reply_inbox_or_close :: "('f, 'i) result \<Rightarrow> ('f, 'i) result \<times> bool" where
  "setup_reply_inbox_or_close setup = (case setup of Inr ready \<Rightarrow> (Inr ready, False) | Inl failure \<Rightarrow> (Inl failure, True))"

text \<open>
  One attempt: connect, then open a channel and declare the inbox. Of the two answers the second
  is consulted only after the first succeeded.
\<close>

definition reconnect_attempt ::
  "(bus_error, unit) result \<Rightarrow> (bus_error, string) result \<Rightarrow> (reconnect_failure, string) result \<times> bool"
where
  "reconnect_attempt connected inbox =
     (case connected of
        Inl err \<Rightarrow> (Inl (classify_connect_failure err), False)
      | Inr _ \<Rightarrow> setup_reply_inbox_or_close (map_err (\<lambda>_. NeedsBackoff) inbox))"

text \<open>
  The retry loop over what each round observes: whether cancellation wins during the attempt, the
  attempt's result, and whether cancellation wins during the delay. It returns once it has an
  inbox or was cancelled, with the delays slept; no result means the script ended first.
\<close>

record 'i retry_round =
  rr_cancelled_in_attempt :: bool
  rr_result :: "(reconnect_failure, 'i) result"
  rr_cancelled_in_delay :: bool

fun retry_reply_inbox_after_failures :: "duration \<Rightarrow> 'i retry_round list \<Rightarrow> 'i option option \<times> duration list" where
  "retry_reply_inbox_after_failures delay [] = (None, [])"
| "retry_reply_inbox_after_failures delay (r # rs) =
     (if rr_cancelled_in_attempt r then (Some None, [])
      else case rr_result r of
        Inr inbox \<Rightarrow> (Some (Some inbox), [])
      | Inl AlreadyBackedOff \<Rightarrow> retry_reply_inbox_after_failures delay rs
      | Inl NeedsBackoff \<Rightarrow>
          if rr_cancelled_in_delay r then (Some None, [])
          else let (res, slept) = retry_reply_inbox_after_failures delay rs in (res, delay # slept))"

section \<open>Lemmas\<close>

lemma resolve_delivers:
  assumes "rg_channels (resolve uc dec e auth g) ch = ChDelivered e' a"
  shows "rg_channels g ch = ChDelivered e' a \<or> e' = e \<and> auth = Inr a"
  using assms
  by (auto simp: resolve_def Let_def split: sum.splits option.splits slot_retirement.splits if_splits)

lemma delivered_by:
  assumes "handle_decoded_delivery dec di decoded sec dest (g, vs) = (g', vs')"
    and "rg_channels g' ch = ChDelivered e a"
  shows "rg_channels g ch = ChDelivered e a
    \<or> decoded = Inr e \<and> (case sec of
        None \<Rightarrow> a = ReplyNotEnforced
      | Some s \<Rightarrow> \<exists>pr vs''. verify_inbound di s e dest vs = (Inr pr, vs'') \<and> a = reply_auth_from_verification pr)"
  using assms
  by (auto simp: handle_decoded_delivery_def verify_before_resolution_def record_undecodable_def
      split: sum.splits option.splits prod.splits dest!: resolve_delivers)

lemma run_delivers:
  assumes "run_reply_inbox dec cfg evs (g, vs) = (out, g', vs')"
    and "rg_channels g' ch = ChDelivered e a" "rg_channels g ch \<noteq> ChDelivered e a"
  shows "\<exists>di d vs\<^sub>1. InboxDelivery di d \<in> set evs \<and> decode_reply_delivery di cfg d = Inr e
    \<and> (case ric_security cfg of
        None \<Rightarrow> a = ReplyNotEnforced
      | Some s \<Rightarrow> \<exists>pr vs\<^sub>2. verify_inbound di s e (del_routing_key d) vs\<^sub>1 = (Inr pr, vs\<^sub>2)
          \<and> a = reply_auth_from_verification pr)"
  using assms
proof (induction dec cfg evs "(g, vs)" arbitrary: g vs rule: run_reply_inbox.induct)
  case (3 dec cfg di d evs)
  obtain g\<^sub>1 vs\<^sub>1 where h: "handle_decoded_delivery dec di (decode_reply_delivery di cfg d) (ric_security cfg)
      (del_routing_key d) (g, vs) = (g\<^sub>1, vs\<^sub>1)"
    by (cases "handle_decoded_delivery dec di (decode_reply_delivery di cfg d) (ric_security cfg)
      (del_routing_key d) (g, vs)")
  show ?case
  proof (cases "rg_channels g\<^sub>1 ch = ChDelivered e a")
    case True
    then show ?thesis
      using delivered_by [OF h] 3(4) by (intro exI [of _ di] exI [of _ d] exI [of _ vs]) auto
  next
    case False
    have "run_reply_inbox dec cfg evs (g\<^sub>1, vs\<^sub>1) = (out, g', vs')" using 3(2) h by simp
    from 3(1) [OF h this 3(3) False] show ?thesis by auto
  qed
qed auto

lemma required_verifies:
  assumes "verify_inbound di s e dest vs = (Inr pr, vs')" "policy (is_config s) = Required"
  shows "\<exists>p. pr = Some p"
  using assms
  by (auto simp: verify_inbound_def verify_def rbind_eq_Inr split: option.splits sum.splits prod.splits if_splits)

text \<open>The sample reply as a delivery.\<close>

definition sample_reply_order :: "string list" where
  "sample_reply_order = [protocol_version_header, reply_status_header, request_id_header]"

lemma sample_reply_texts: "show_nat (unat protocol_version) = ''1''" "uc_show decimal_codec 3 = ''3''"
  by code_simp+

lemma sample_reply_headers:
  "all_headers [''tenant''] sample_reply_order sample_reply None =
     [(''tenant'', ''a''), (protocol_version_header, ''1''), (reply_status_header, ''ok''), (request_id_header, ''3'')]"
  "headers_wf [''tenant''] sample_reply_order sample_reply None"
proof -
  have n: "request_id_header \<noteq> protocol_version_header" "reply_status_header \<noteq> protocol_version_header"
    "request_id_header \<noteq> reply_status_header"
    by (simp_all add: rpc_header_defs)
  have prot: "env_protocol_headers sample_reply =
      [request_id_header \<mapsto> ''3'', reply_status_header \<mapsto> ''ok'', protocol_version_header \<mapsto> ''1'']"
    by (simp add: sample_reply_def insert_protocol_header_def sample_envelope_def sample_reply_texts reply_status_ok_def)
  have app: "env_headers sample_reply = [''tenant'' \<mapsto> ''a'']"
    by (simp add: sample_reply_def insert_protocol_header_def sample_envelope_def)
  show all: "all_headers [''tenant''] sample_reply_order sample_reply None =
     [(''tenant'', ''a''), (protocol_version_header, ''1''), (reply_status_header, ''ok''), (request_id_header, ''3'')]"
    using n by (simp add: all_headers_def wire_headers_def header_pairs_def sec_pairs_def prot app sample_reply_order_def)
  have "canonical_key request_id_header" "canonical_key protocol_version_header" "canonical_key reply_status_header"
    by code_simp+
  moreover have "is_utf8 ''a''" "is_utf8 ''1''" "is_utf8 ''ok''" "is_utf8 ''3''" by code_simp+
  ultimately show "headers_wf [''tenant''] sample_reply_order sample_reply None"
    using n unfolding headers_wf_def all
    by (auto simp: key_order_def prot app sample_reply_order_def sec_pairs_def)
qed

definition sample_inbox_config :: "(unit, unit, unit) reply_inbox_config" where
  "sample_inbox_config = \<lparr>ric_metadata_limits = metadata_limits_default, ric_required_fields = Lenient, ric_security = None\<rparr>"

lemma sample_reply_delivered:
  "\<exists>di d e. decode_reply_delivery di sample_inbox_config d = Inr e \<and> di_codec di = decimal_codec
     \<and> readable_request_id decimal_codec e = Some 3 \<and> accepts ''Pong'' e = Inr ()
     \<and> accepts_error_identity dec e 3 = Inr ()"
proof -
  have reserved: "\<not> is_reserved_header ''tenant''" by code_simp
  have "\<exists>t. encode_headers [''tenant''] sample_reply_order sample_reply metadata_limits_default None = Inr t"
    by (rule encode_headers_ok)
      (simp_all only: sample_reply_headers(1), simp_all add: validate_application_headers_def reserved
        metadata_limits_default_def pair_bytes_def rpc_header_defs)
  then obtain t where t: "encode_headers [''tenant''] sample_reply_order sample_reply metadata_limits_default None = Inr t"
    by blast
  then have "\<exists>props. envelope_to_properties decimal_codec [''tenant''] sample_reply_order sample_reply
      metadata_limits_default None None = Inr props"
    by (simp add: envelope_to_properties_def to_short_string_def sample_reply_def insert_protocol_header_def
        sample_envelope_def)
  then obtain props where props: "envelope_to_properties decimal_codec [''tenant''] sample_reply_order sample_reply
      metadata_limits_default None None = Inr props" by blast
  let ?t = "the (bp_headers props)"
  have fin: "finite (dom ?t)"
    using props t encode_headers_Inr(1) [OF sample_reply_headers(2) t]
    by (elim envelope_to_properties_Inr) (simp add: dom_table_of)
  then obtain ks where ks: "key_order ks ?t"
    using finite_distinct_list by (metis key_order_def)
  have at: "0 \<le> env_published_at sample_reply" "env_published_at sample_reply \<le> systime_max"
    by (simp_all add: sample_reply_def insert_protocol_header_def sample_envelope_def systime_max_def nanos_per_sec_def)
  have len: "length (env_payload sample_reply) \<le> default_max_payload_bytes"
    by (simp add: sample_reply_def insert_protocol_header_def sample_envelope_def default_max_payload_bytes_def)
  obtain at' where del: "delivery_to_envelope decimal_codec 1 2 5 ks props (env_payload sample_reply)
      default_max_payload_bytes metadata_limits_default Lenient
      = Inr (sample_reply\<lparr>env_protocol_headers := env_protocol_headers sample_reply ++ map_of (sec_pairs None), env_published_at := at'\<rparr>)"
    by (rule delivered_envelope [OF decimal_codec_ok sample_reply_headers(2) props at len ks])
  let ?e = "sample_reply\<lparr>env_published_at := at'\<rparr>"
  let ?di = "\<lparr>di_codec = decimal_codec, di_fresh_message_id = 1, di_fresh_correlation_id = 2, di_now = 5,
     di_inst = 0, di_table_order = \<lambda>_. ks, di_header_order = \<lambda>_. []\<rparr>"
  let ?d = "\<lparr>del_properties = props, del_data = env_payload sample_reply, del_routing_key = ''amq.gen-a''\<rparr>"
  have "bp_headers props \<noteq> None" using props by (elim envelope_to_properties_Inr) simp
  then have "decode_reply_delivery ?di sample_inbox_config ?d = Inr ?e"
    using del by (auto simp: decode_reply_delivery_def sample_inbox_config_def sec_pairs_def)
  moreover have hdr: "header ?e k = header sample_reply k" for k by (simp add: header_def)
  have same: "env_message_type ?e = env_message_type sample_reply" "env_payload ?e = env_payload sample_reply" by simp_all
  have "readable_request_id decimal_codec ?e = readable_request_id decimal_codec sample_reply"
    "accepts ''Pong'' ?e = accepts ''Pong'' sample_reply"
    "accepts_error_identity dec ?e 3 = accepts_error_identity dec sample_reply 3"
    unfolding readable_request_id_def accepts_def accepts_error_identity_def read_protocol_version_def hdr same
    by (rule refl)+
  then have "readable_request_id decimal_codec ?e = Some 3" "accepts ''Pong'' ?e = Inr ()"
    "accepts_error_identity dec ?e 3 = Inr ()"
    using sample_reply_read(1,2) sample_reply_read(3) [of dec] by simp_all
  ultimately show ?thesis by (intro exI [of _ ?di] exI [of _ ?d] exI [of _ ?e]) simp
qed

section \<open>Properties\<close>

text \<open>
  C13. A reply wakes a caller only after it was verified. Whatever arrives on the inbox, a channel
  that ends up holding an envelope got it from a delivery that decoded to that envelope; with
  verification configured the verifier accepted it for the routing key of that very delivery and
  the caller is told exactly what was established, which under the policy \<open>Required\<close> is a verified
  principal.
\<close>

theorem inbox_authenticates:
  assumes "run_reply_inbox dec cfg evs (g, vs) = (out, g', vs')"
    and "rg_channels g' ch = ChDelivered e a" "rg_channels g ch \<noteq> ChDelivered e a"
  shows "\<exists>di d vs\<^sub>1. InboxDelivery di d \<in> set evs \<and> decode_reply_delivery di cfg d = Inr e
    \<and> (case ric_security cfg of
        None \<Rightarrow> a = ReplyNotEnforced
      | Some s \<Rightarrow> \<exists>pr vs\<^sub>2. verify_inbound di s e (del_routing_key d) vs\<^sub>1 = (Inr pr, vs\<^sub>2)
          \<and> a = reply_auth_from_verification pr
          \<and> (policy (is_config s) = Required \<longrightarrow> (\<exists>p. a = ReplyAuthenticated p)))"
proof -
  obtain di d vs\<^sub>1 where d: "InboxDelivery di d \<in> set evs" "decode_reply_delivery di cfg d = Inr e"
    "case ric_security cfg of
        None \<Rightarrow> a = ReplyNotEnforced
      | Some s \<Rightarrow> \<exists>pr vs\<^sub>2. verify_inbound di s e (del_routing_key d) vs\<^sub>1 = (Inr pr, vs\<^sub>2)
          \<and> a = reply_auth_from_verification pr"
    using run_delivers [OF assms] by blast
  have "\<exists>p. reply_auth_from_verification pr = ReplyAuthenticated p"
    if "verify_inbound di s e (del_routing_key d) vs\<^sub>1 = (Inr pr, vs\<^sub>2)" "policy (is_config s) = Required" for s pr vs\<^sub>2
    using required_verifies [OF that] by auto
  then show ?thesis
    using d by (intro exI [of _ di] exI [of _ d] exI [of _ vs\<^sub>1]) (auto split: option.splits)
qed

theorem inbox_authenticates_witness:
  "\<exists>evs e out g' vs'. run_reply_inbox (\<lambda>_. None) sample_inbox_config evs
      (snd (register 3 ''Pong'' (registry_new 2)), \<lparr>vs_keys = (), vs_last_refresh = None\<rparr>) = (out, g', vs')
    \<and> rg_channels g' 0 = ChDelivered e ReplyNotEnforced
    \<and> (\<exists>di d. InboxDelivery di d \<in> set evs \<and> decode_reply_delivery di sample_inbox_config d = Inr e)"
proof -
  let ?g = "snd (register 3 ''Pong'' (registry_new 2))" and ?vs = "\<lparr>vs_keys = (), vs_last_refresh = None\<rparr>"
  obtain di d e where d: "decode_reply_delivery di sample_inbox_config d = Inr e" "di_codec di = decimal_codec"
    "readable_request_id decimal_codec e = Some 3" "accepts ''Pong'' e = Inr ()"
    "accepts_error_identity (\<lambda>_. None) e 3 = Inr ()"
    using sample_reply_delivered [of "\<lambda>_. None"] by blast
  define g' where "g' = resolve decimal_codec (\<lambda>_. None) e (Inr ReplyNotEnforced) ?g"
  have run: "run_reply_inbox (\<lambda>_. None) sample_inbox_config [InboxDelivery di d] (?g, ?vs) = (None, g', ?vs)"
    using d by (simp add: handle_decoded_delivery_def verify_before_resolution_def sample_inbox_config_def g'_def)
  have ch: "rg_channels g' 0 = ChDelivered e ReplyNotEnforced"
    using d by (simp add: g'_def resolve_def register_def registry_new_def registry_len_def Let_def)
  moreover have "rg_channels ?g 0 \<noteq> ChDelivered e ReplyNotEnforced"
    by (simp add: register_def registry_new_def registry_len_def Let_def)
  ultimately show ?thesis
    using run inbox_authenticates [OF run ch] by blast
qed

end
