(* ===== verification/Rpc_Client.thy ===== *)
theory Rpc_Client
  imports Rpc_Responder Rpc_Inbox
begin

text \<open>
  The calling side of request-reply
  (\<open>crates/hexeract-bus/src/{request_client,request_client_counters,request_client_supervisor,
  call_observation,request_outcome,request_error,request_options}.rs\<close>).

  A client is one shared state and any number of concurrent calls, closers and one reply
  consumer. Every step between two suspension points that touches shared state is one event, so
  every interleaving of the tasks is a sequence of events; an event that is not enabled has no
  successor. Two ghost fields record facts the code does not store: whether the transport was
  asked to publish a call, and which incarnation of the reply inbox a call has read. Timers are
  events: a timeout may fire at any suspension point. A consumer task aborted through its handle is not
  modelled; a token cancelled from outside is. The request type's serialisation is an
  argument of the call, JSON of error payloads is the argument \<open>jd\<close>.
\<close>

section \<open>Errors and outcomes\<close>

datatype protocol_violation =
    MissingHeader string
  | UnsupportedReplyVersion u32
  | UnexpectedReplyType string string
  | IdentityCollision
  | PayloadIdentityMismatch

datatype request_error =
    RequestTimeout duration "reply_rejection option" u32
  | RequestAtCapacity
  | RequestClosed
  | PublicationUnknown
  | RequestRemote remote_error_type uuid
  | RequestProtocol protocol_violation
  | RequestEncode bus_error
  | RequestTransport bus_error
  | RequestDecode bus_error

fun register_error :: "register_rejection \<Rightarrow> request_error" where
  "register_error AtCapacity = RequestAtCapacity"
| "register_error RegistryClosed = RequestClosed"
| "register_error SlotOccupied = RequestProtocol IdentityCollision"

datatype request_outcome =
    Succeeded | TimedOut | RemoteFailed | TransportFailed | Refused | UnknownPublication | InvalidReplyOutcome | CallCancelled

fun outcome_of :: "(request_error, 'a) result \<Rightarrow> request_outcome" where
  "outcome_of (Inr _) = Succeeded"
| "outcome_of (Inl (RequestTimeout _ _ _)) = TimedOut"
| "outcome_of (Inl (RequestRemote _ _)) = RemoteFailed"
| "outcome_of (Inl (RequestTransport _)) = TransportFailed"
| "outcome_of (Inl RequestAtCapacity) = Refused"
| "outcome_of (Inl RequestClosed) = Refused"
| "outcome_of (Inl (RequestEncode _)) = Refused"
| "outcome_of (Inl PublicationUnknown) = UnknownPublication"
| "outcome_of (Inl (RequestProtocol v)) = (if v = IdentityCollision then Refused else InvalidReplyOutcome)"
| "outcome_of (Inl (RequestDecode _)) = InvalidReplyOutcome"

fun outcome_str :: "request_outcome \<Rightarrow> string" where
  "outcome_str Succeeded = ''succeeded''"
| "outcome_str TimedOut = ''timed_out''"
| "outcome_str RemoteFailed = ''remote_failed''"
| "outcome_str TransportFailed = ''transport_failed''"
| "outcome_str Refused = ''refused''"
| "outcome_str UnknownPublication = ''publication_unknown''"
| "outcome_str InvalidReplyOutcome = ''invalid_reply''"
| "outcome_str CallCancelled = ''cancelled''"

datatype transport_cause = PublicationFailed | ReplyChannelLost | ReplyInboxReconnecting

fun transport_cause_str :: "transport_cause \<Rightarrow> string" where
  "transport_cause_str PublicationFailed = ''publication_failed''"
| "transport_cause_str ReplyChannelLost = ''reply_channel_lost''"
| "transport_cause_str ReplyInboxReconnecting = ''reply_inbox_reconnecting''"

definition is_warn_outcome :: "request_outcome \<Rightarrow> bool" where
  "is_warn_outcome outcome \<longleftrightarrow> outcome = TimedOut \<or> outcome = TransportFailed \<or> outcome = InvalidReplyOutcome"

section \<open>Counters and observation\<close>

record client_counters =
  cc_in_flight :: u64
  cc_started :: u64
  cc_succeeded :: u64
  cc_timed_out :: u64
  cc_remote_failed :: u64
  cc_transport_failed :: u64
  cc_refused :: u64
  cc_publication_unknown :: u64
  cc_invalid_reply :: u64
  cc_cancelled :: u64

definition count_started :: "client_counters \<Rightarrow> client_counters" where
  "count_started c = c\<lparr>cc_started := cc_started c + 1\<rparr>"

definition raise_in_flight :: "client_counters \<Rightarrow> client_counters" where
  "raise_in_flight c = c\<lparr>cc_in_flight := cc_in_flight c + 1\<rparr>"

definition release_in_flight :: "client_counters \<Rightarrow> client_counters" where
  "release_in_flight c = c\<lparr>cc_in_flight := cc_in_flight c - 1\<rparr>"

definition count_cancelled :: "client_counters \<Rightarrow> client_counters" where
  "count_cancelled c = c\<lparr>cc_cancelled := cc_cancelled c + 1\<rparr>"

fun count_outcome :: "request_outcome \<Rightarrow> client_counters \<Rightarrow> client_counters" where
  "count_outcome Succeeded c = c\<lparr>cc_succeeded := cc_succeeded c + 1\<rparr>"
| "count_outcome TimedOut c = c\<lparr>cc_timed_out := cc_timed_out c + 1\<rparr>"
| "count_outcome RemoteFailed c = c\<lparr>cc_remote_failed := cc_remote_failed c + 1\<rparr>"
| "count_outcome TransportFailed c = c\<lparr>cc_transport_failed := cc_transport_failed c + 1\<rparr>"
| "count_outcome Refused c = c\<lparr>cc_refused := cc_refused c + 1\<rparr>"
| "count_outcome UnknownPublication c = c\<lparr>cc_publication_unknown := cc_publication_unknown c + 1\<rparr>"
| "count_outcome InvalidReplyOutcome c = c\<lparr>cc_invalid_reply := cc_invalid_reply c + 1\<rparr>"
| "count_outcome CallCancelled c = c\<lparr>cc_cancelled := cc_cancelled c + 1\<rparr>"

record call_observation =
  ob_admitted :: bool
  ob_finished :: bool
  ob_cause :: "transport_cause option"

text \<open>A terminal event: whether it is a warning, the outcome, and the cause when there is one.\<close>

type_synonym terminal_event = "bool \<times> string \<times> string option"

definition emit_terminal_event :: "request_outcome \<Rightarrow> transport_cause option \<Rightarrow> terminal_event" where
  "emit_terminal_event outcome cause =
     (is_warn_outcome outcome, outcome_str outcome, map_option transport_cause_str cause)"

definition observation_start :: "client_counters \<Rightarrow> call_observation \<times> client_counters" where
  "observation_start c = (\<lparr>ob_admitted = False, ob_finished = False, ob_cause = None\<rparr>, count_started c)"

definition observation_admit :: "call_observation \<times> client_counters \<Rightarrow> call_observation \<times> client_counters" where
  "observation_admit oc = ((fst oc)\<lparr>ob_admitted := True\<rparr>, raise_in_flight (snd oc))"

definition note_transport_cause :: "transport_cause \<Rightarrow> call_observation \<Rightarrow> call_observation" where
  "note_transport_cause cause ob = ob\<lparr>ob_cause := Some cause\<rparr>"

definition observation_drop :: "call_observation \<times> client_counters \<Rightarrow> terminal_event list \<times> client_counters" where
  "observation_drop oc =
     (let c = (if ob_admitted (fst oc) then release_in_flight (snd oc) else snd oc)
      in if ob_finished (fst oc) then ([], c)
         else ([emit_terminal_event CallCancelled (ob_cause (fst oc))], count_cancelled c))"

text \<open>\<open>finish\<close> consumes the observation, so its destructor runs right after the body.\<close>

definition observation_finish ::
  "request_outcome \<Rightarrow> call_observation \<times> client_counters \<Rightarrow> terminal_event list \<times> client_counters"
where
  "observation_finish outcome oc =
     (let ob = (fst oc)\<lparr>ob_finished := True\<rparr>;
          (evs, c) = observation_drop (ob, count_outcome outcome (snd oc))
      in (emit_terminal_event outcome (ob_cause ob) # evs, c))"

section \<open>Publication lifecycle\<close>

record publication_lifecycle =
  pl_closing :: bool
  pl_in_flight :: nat
  pl_drained :: bool

definition lifecycle_default :: publication_lifecycle where
  "lifecycle_default = \<lparr>pl_closing = False, pl_in_flight = 0, pl_drained = True\<rparr>"

definition lifecycle_admit :: "publication_lifecycle \<Rightarrow> (request_error, publication_lifecycle) result" where
  "lifecycle_admit pl =
     (if pl_closing pl then Inl RequestClosed
      else Inr (pl\<lparr>pl_drained := (if pl_in_flight pl = 0 then False else pl_drained pl),
                   pl_in_flight := Suc (pl_in_flight pl)\<rparr>))"

text \<open>The flag tells whether the closer received a receiver, that is, has to wait.\<close>

definition begin_close :: "publication_lifecycle \<Rightarrow> bool \<times> publication_lifecycle" where
  "begin_close pl = (pl_in_flight pl \<noteq> 0, pl\<lparr>pl_closing := True\<rparr>)"

definition permit_drop :: "publication_lifecycle \<Rightarrow> publication_lifecycle" where
  "permit_drop pl =
     (let n = pl_in_flight pl - 1
      in pl\<lparr>pl_in_flight := n, pl_drained := (if n = 0 then True else pl_drained pl)\<rparr>)"

section \<open>Requests and replies\<close>

record request_options =
  ro_timeout :: "duration option"
  ro_destination :: "string option"
  ro_correlation_id :: "uuid option"

definition request_options_new :: request_options where
  "request_options_new = \<lparr>ro_timeout = None, ro_destination = None, ro_correlation_id = None\<rparr>"

definition with_timeout :: "duration \<Rightarrow> request_options \<Rightarrow> request_options" where
  "with_timeout t o\<^sub>1 = o\<^sub>1\<lparr>ro_timeout := Some t\<rparr>"

definition with_destination :: "string \<Rightarrow> request_options \<Rightarrow> request_options" where
  "with_destination d o\<^sub>1 = o\<^sub>1\<lparr>ro_destination := Some d\<rparr>"

definition with_correlation_id :: "uuid \<Rightarrow> request_options \<Rightarrow> request_options" where
  "with_correlation_id cid o\<^sub>1 = o\<^sub>1\<lparr>ro_correlation_id := Some cid\<rparr>"

text \<open>One request value with the facts of its type: the encoded request and the reply's decoder.\<close>

record 'rep request_value =
  rq_message_type :: string
  rq_destination :: string
  rq_encoded :: "(string, byte list) result"
  rq_reply_type :: string
  rq_decode_reply :: "byte list \<Rightarrow> (string, 'rep) result"

definition request_envelope ::
  "uuid_codec \<Rightarrow> uuid \<Rightarrow> systime \<Rightarrow> systime \<Rightarrow> uuid \<Rightarrow> 'rep request_value \<Rightarrow> uuid \<Rightarrow> duration \<Rightarrow> string \<Rightarrow>
   (bus_error, bus_envelope) result"
where
  "request_envelope uc fresh_id now deadline_now corr rq rid timeout inbox =
     rbind (envelope_with_reply_to fresh_id now (rq_message_type rq) (rq_encoded rq) corr inbox) (\<lambda>e.
       let e = insert_protocol_header request_id_header (uc_show uc rid) e;
           e = insert_protocol_header protocol_version_header (show_nat (unat protocol_version)) e
       in Inr (case deadline_within_horizon deadline_now timeout of
                 None \<Rightarrow> e
               | Some d \<Rightarrow> insert_protocol_header deadline_header (deadline_display d) e))"

definition reply_channel_lost :: bus_error where
  "reply_channel_lost = Connection ''reply inbox channel closed before a reply arrived'' True"

definition reply_inbox_reconnecting :: bus_error where
  "reply_inbox_reconnecting =
     Connection ''reply inbox is reconnecting: no fresh inbox exists yet after a broker drop'' True"

definition decode_reply ::
  "(byte list \<Rightarrow> (string, remote_error_payload) result) \<Rightarrow> string \<Rightarrow> (byte list \<Rightarrow> (string, 'rep) result) \<Rightarrow>
   bus_envelope \<Rightarrow> uuid \<Rightarrow> (request_error, 'rep) result"
where
  "decode_reply jd reply_type decode e rid =
     (case read_protocol_version e of
        None \<Rightarrow> Inl (RequestProtocol (MissingHeader protocol_version_header))
      | Some version \<Rightarrow>
          if version \<noteq> protocol_version then Inl (RequestProtocol (UnsupportedReplyVersion version))
          else case header e reply_status_header of
            None \<Rightarrow> Inl (RequestProtocol (MissingHeader reply_status_header))
          | Some status \<Rightarrow>
              if status = reply_status_ok
              then (if env_message_type e \<noteq> reply_type
                    then Inl (RequestProtocol (UnexpectedReplyType reply_type (env_message_type e)))
                    else map_err RequestDecode (envelope_decode reply_type decode e))
              else if status = reply_status_error
              then (if env_message_type e \<noteq> reply_error_message_type
                    then Inl (RequestProtocol (UnexpectedReplyType reply_error_message_type (env_message_type e)))
                    else rbind (map_err (\<lambda>msg. RequestDecode (BusSerialization msg)) (jd (env_payload e))) (\<lambda>payload.
                      if rep_request_id payload \<noteq> rid then Inl (RequestProtocol PayloadIdentityMismatch)
                      else Inl (RequestRemote (rep_error_type payload) rid)))
              else Inl (RequestProtocol (MissingHeader reply_status_header)))"

section \<open>The client and its calls\<close>

datatype 'rep call_phase =
    CallStarted
  | CallRegistered pending_reply
  | CallAddressed pending_reply string
  | CallPublishing pending_reply bus_envelope
  | CallWaiting pending_reply
  | CallReturning "(request_error, 'rep \<times> reply_authentication) result"
  | CallDone "(request_error, 'rep \<times> reply_authentication) result"
  | CallDropped

record 'rep client_call =
  ca_request :: "'rep request_value"
  ca_request_id :: uuid
  ca_destination :: string
  ca_timeout :: duration
  ca_correlation_id :: uuid
  ca_observation :: call_observation
  ca_phase :: "'rep call_phase"
  ca_published :: bool
  ca_epoch :: nat

text \<open>
  The reply consumer: consuming an inbox, having marked the inbox lost, having released the
  callers, or ended. A closer: after \<open>begin_close\<close>, after closing the registry, after cancelling
  the token, returned; it knows whether it must wait and whether it is the consumer task itself.
\<close>

datatype supervisor_phase = SupRunning | SupMarked | SupDrained | SupStopped

datatype closer_phase = CloserBegun | CloserRegistryClosed | CloserCancelled | CloserReturned

record closer =
  clo_waits :: bool
  clo_is_supervisor :: bool
  clo_phase :: closer_phase

record 'rep client =
  cl_registry :: request_registry
  cl_inbox :: reply_inbox_state
  cl_default_timeout :: duration
  cl_cancelled :: bool
  cl_lifecycle :: publication_lifecycle
  cl_counters :: client_counters
  cl_supervised :: bool
  cl_supervisor :: supervisor_phase
  cl_calls :: "'rep client_call list"
  cl_closers :: "closer list"
  cl_events :: "terminal_event list"
  cl_epoch :: nat

definition client_new :: "nat \<Rightarrow> string \<Rightarrow> duration \<Rightarrow> bool \<Rightarrow> 'rep client" where
  "client_new max_in_flight inbox default_timeout supervised =
     \<lparr>cl_registry = registry_new max_in_flight, cl_inbox = InboxReady inbox, cl_default_timeout = default_timeout,
      cl_cancelled = False, cl_lifecycle = lifecycle_default,
      cl_counters = \<lparr>cc_in_flight = 0, cc_started = 0, cc_succeeded = 0, cc_timed_out = 0, cc_remote_failed = 0,
        cc_transport_failed = 0, cc_refused = 0, cc_publication_unknown = 0, cc_invalid_reply = 0, cc_cancelled = 0\<rparr>,
      cl_supervised = supervised, cl_supervisor = SupRunning, cl_calls = [], cl_closers = [], cl_events = [],
      cl_epoch = 0\<rparr>"

text \<open>\<open>request_with_authenticated\<close> and the head of \<open>request_inner\<close>.\<close>

definition start_request ::
  "'rep request_value \<Rightarrow> request_options \<Rightarrow> uuid \<Rightarrow> uuid \<Rightarrow> 'rep client \<Rightarrow> 'rep client"
where
  "start_request rq opts fresh_rid fresh_corr cl =
     (let (ob, cs) = observation_start (cl_counters cl);
          ca = \<lparr>ca_request = rq, ca_request_id = fresh_rid,
            ca_destination = (case ro_destination opts of Some d \<Rightarrow> d | None \<Rightarrow> rq_destination rq),
            ca_timeout = (case ro_timeout opts of Some t \<Rightarrow> t | None \<Rightarrow> cl_default_timeout cl),
            ca_correlation_id = (case ro_correlation_id opts of Some cid \<Rightarrow> cid | None \<Rightarrow> fresh_corr),
            ca_observation = ob, ca_phase = CallStarted, ca_published = False, ca_epoch = 0\<rparr>
      in cl\<lparr>cl_counters := cs, cl_calls := cl_calls cl @ [ca]\<rparr>)"

definition set_call :: "nat \<Rightarrow> 'rep client_call \<Rightarrow> 'rep client \<Rightarrow> 'rep client" where
  "set_call i ca cl = cl\<lparr>cl_calls := (cl_calls cl)[i := ca]\<rparr>"

fun phase_pending :: "'rep call_phase \<Rightarrow> pending_reply option" where
  "phase_pending (CallRegistered p) = Some p"
| "phase_pending (CallAddressed p _) = Some p"
| "phase_pending (CallPublishing p _) = Some p"
| "phase_pending (CallWaiting p) = Some p"
| "phase_pending _ = None"

fun is_publishing :: "'rep call_phase \<Rightarrow> bool" where
  "is_publishing (CallPublishing _ _) = True"
| "is_publishing _ = False"

fun is_suspended :: "'rep call_phase \<Rightarrow> bool" where
  "is_suspended (CallPublishing _ _) = True"
| "is_suspended (CallWaiting _) = True"
| "is_suspended _ = False"

text \<open>What leaving the call's scope drops: the publication permit, then the pending reply.\<close>

definition drop_locals :: "'rep call_phase \<Rightarrow> 'rep client \<Rightarrow> 'rep client" where
  "drop_locals ph cl =
     (let cl = (if is_publishing ph then cl\<lparr>cl_lifecycle := permit_drop (cl_lifecycle cl)\<rparr> else cl)
      in case phase_pending ph of None \<Rightarrow> cl | Some p \<Rightarrow> cl\<lparr>cl_registry := pending_drop p (cl_registry cl)\<rparr>)"

definition return_call ::
  "nat \<Rightarrow> 'rep client_call \<Rightarrow> (request_error, 'rep \<times> reply_authentication) result \<Rightarrow> 'rep client \<Rightarrow> 'rep client"
where
  "return_call i ca res cl = set_call i (ca\<lparr>ca_phase := CallReturning res\<rparr>) (drop_locals (ca_phase ca) cl)"

definition note_cause :: "transport_cause \<Rightarrow> 'rep client_call \<Rightarrow> 'rep client_call" where
  "note_cause cause ca = ca\<lparr>ca_observation := note_transport_cause cause (ca_observation ca)\<rparr>"

definition timeout_error :: "'rep client_call \<Rightarrow> pending_reply \<Rightarrow> request_registry \<Rightarrow> request_error" where
  "timeout_error ca p g =
     RequestTimeout (ca_timeout ca) (pending_last_rejection p g) (pending_rejected_deliveries p g)"

section \<open>Steps of a call\<close>

definition step_register :: "nat \<Rightarrow> 'rep client_call \<Rightarrow> 'rep client \<Rightarrow> 'rep client option" where
  "step_register i ca cl =
     (case ca_phase ca of
        CallStarted \<Rightarrow>
          (case register (ca_request_id ca) (rq_reply_type (ca_request ca)) (cl_registry cl) of
             (Inl rejection, g) \<Rightarrow> Some (return_call i ca (Inl (register_error rejection)) (cl\<lparr>cl_registry := g\<rparr>))
           | (Inr p, g) \<Rightarrow>
               (let (ob, cs) = observation_admit (ca_observation ca, cl_counters cl)
                in Some (set_call i (ca\<lparr>ca_phase := CallRegistered p, ca_observation := ob\<rparr>)
                     (cl\<lparr>cl_registry := g, cl_counters := cs\<rparr>))))
      | _ \<Rightarrow> None)"

definition step_read_inbox :: "nat \<Rightarrow> 'rep client_call \<Rightarrow> 'rep client \<Rightarrow> 'rep client option" where
  "step_read_inbox i ca cl =
     (case ca_phase ca of
        CallRegistered p \<Rightarrow>
          (case cl_inbox cl of
             InboxReady inbox \<Rightarrow> Some (set_call i (ca\<lparr>ca_phase := CallAddressed p inbox, ca_epoch := cl_epoch cl\<rparr>) cl)
           | InboxReconnecting \<Rightarrow>
               Some (return_call i (note_cause ReplyInboxReconnecting ca)
                 (Inl (RequestTransport reply_inbox_reconnecting)) cl))
      | _ \<Rightarrow> None)"

definition step_admit ::
  "uuid_codec \<Rightarrow> nat \<Rightarrow> uuid \<Rightarrow> systime \<Rightarrow> systime \<Rightarrow> 'rep client_call \<Rightarrow> 'rep client \<Rightarrow> 'rep client option"
where
  "step_admit uc i fresh_id now deadline_now ca cl =
     (case ca_phase ca of
        CallAddressed p inbox \<Rightarrow>
          (case request_envelope uc fresh_id now deadline_now (ca_correlation_id ca) (ca_request ca)
                  (ca_request_id ca) (ca_timeout ca) inbox of
             Inl err \<Rightarrow> Some (return_call i ca (Inl (RequestEncode err)) cl)
           | Inr e \<Rightarrow>
               (case lifecycle_admit (cl_lifecycle cl) of
                  Inl err \<Rightarrow> Some (return_call i ca (Inl err) cl)
                | Inr pl \<Rightarrow> Some (set_call i (ca\<lparr>ca_phase := CallPublishing p e, ca_published := True\<rparr>)
                               (cl\<lparr>cl_lifecycle := pl\<rparr>))))
      | _ \<Rightarrow> None)"

definition step_published ::
  "nat \<Rightarrow> (bus_error, uuid) result \<Rightarrow> 'rep client_call \<Rightarrow> 'rep client \<Rightarrow> 'rep client option"
where
  "step_published i res ca cl =
     (case ca_phase ca of
        CallPublishing p e \<Rightarrow>
          (case res of
             Inl err \<Rightarrow> Some (return_call i (note_cause PublicationFailed ca) (Inl (RequestTransport err)) cl)
           | Inr _ \<Rightarrow> Some (set_call i (ca\<lparr>ca_phase := CallWaiting p\<rparr>)
                         (cl\<lparr>cl_lifecycle := permit_drop (cl_lifecycle cl)\<rparr>)))
      | _ \<Rightarrow> None)"

definition step_timeout :: "nat \<Rightarrow> 'rep client_call \<Rightarrow> 'rep client \<Rightarrow> 'rep client option" where
  "step_timeout i ca cl =
     (case ca_phase ca of
        CallPublishing p e \<Rightarrow> Some (return_call i ca (Inl (timeout_error ca p (cl_registry cl))) cl)
      | CallWaiting p \<Rightarrow> Some (return_call i ca (Inl (timeout_error ca p (cl_registry cl))) cl)
      | _ \<Rightarrow> None)"

definition step_reply ::
  "(byte list \<Rightarrow> (string, remote_error_payload) result) \<Rightarrow> nat \<Rightarrow> 'rep client_call \<Rightarrow> 'rep client \<Rightarrow> 'rep client option"
where
  "step_reply jd i ca cl =
     (case ca_phase ca of
        CallWaiting p \<Rightarrow>
          (case pending_wait p (cl_registry cl) of
             None \<Rightarrow> None
           | Some None \<Rightarrow>
               if pl_closing (cl_lifecycle cl) \<or> rg_closed (cl_registry cl)
               then Some (return_call i ca (Inl PublicationUnknown) cl)
               else Some (return_call i (note_cause ReplyChannelLost ca) (Inl (RequestTransport reply_channel_lost)) cl)
           | Some (Some (e, auth)) \<Rightarrow>
               Some (return_call i ca
                 (rbind (decode_reply jd (rq_reply_type (ca_request ca)) (rq_decode_reply (ca_request ca)) e (ca_request_id ca))
                   (\<lambda>reply. Inr (reply, auth))) cl))
      | _ \<Rightarrow> None)"

definition step_finish :: "nat \<Rightarrow> 'rep client_call \<Rightarrow> 'rep client \<Rightarrow> 'rep client option" where
  "step_finish i ca cl =
     (case ca_phase ca of
        CallReturning res \<Rightarrow>
          (let (evs, cs) = observation_finish (outcome_of res) (ca_observation ca, cl_counters cl)
           in Some (set_call i (ca\<lparr>ca_phase := CallDone res\<rparr>) (cl\<lparr>cl_counters := cs, cl_events := cl_events cl @ evs\<rparr>)))
      | _ \<Rightarrow> None)"

text \<open>The caller drops the future; it can do so where the call is suspended.\<close>

definition step_drop :: "nat \<Rightarrow> 'rep client_call \<Rightarrow> 'rep client \<Rightarrow> 'rep client option" where
  "step_drop i ca cl =
     (if is_suspended (ca_phase ca)
      then let (evs, cs) = observation_drop (ca_observation ca, cl_counters cl);
               cl = drop_locals (ca_phase ca) cl
           in Some (set_call i (ca\<lparr>ca_phase := CallDropped\<rparr>) (cl\<lparr>cl_counters := cs, cl_events := cl_events cl @ evs\<rparr>))
      else None)"

section \<open>Steps of the consumer and of closers\<close>

definition set_closer :: "nat \<Rightarrow> closer_phase \<Rightarrow> 'rep client \<Rightarrow> 'rep client" where
  "set_closer k ph cl = cl\<lparr>cl_closers := (cl_closers cl)[k := (cl_closers cl ! k)\<lparr>clo_phase := ph\<rparr>]\<rparr>"

definition all_slots :: "uuid list \<Rightarrow> request_registry \<Rightarrow> bool" where
  "all_slots ks g \<longleftrightarrow> distinct ks \<and> set ks = fst ` set (rg_slots g)"

datatype 'rep client_event =
    StartRequest "'rep request_value" request_options uuid uuid
  | StepRegister nat
  | StepReadInbox nat
  | StepAdmit nat uuid systime systime
  | StepPublished nat "(bus_error, uuid) result"
  | StepTimeout nat
  | StepReply nat
  | StepFinish nat
  | StepDrop nat
  | DeliverReply bus_envelope "(transport_refusal, reply_authentication) result"
  | UndecodableDelivery
  | ConnectionLost
  | DrainCallers "uuid list"
  | InboxRebuilt string
  | ConsumerStops
  | CloseBegin bool
  | CloseRegistry nat "uuid list"
  | CloseCancel nat
  | CloseJoin nat
  | LastHandleDropped "uuid list"
  | TokenCancelled

definition call_finished :: "'rep client_call \<Rightarrow> bool" where
  "call_finished ca \<longleftrightarrow> (case ca_phase ca of CallDone _ \<Rightarrow> True | CallDropped \<Rightarrow> True | _ \<Rightarrow> False)"

abbreviation on_call :: "nat \<Rightarrow> 'rep client \<Rightarrow> ('rep client_call \<Rightarrow> 'rep client \<Rightarrow> 'rep client option) \<Rightarrow> 'rep client option" where
  "on_call i cl f \<equiv> (if i < length (cl_calls cl) then f (cl_calls cl ! i) cl else None)"

fun client_step ::
  "uuid_codec \<Rightarrow> (byte list \<Rightarrow> (string, remote_error_payload) result) \<Rightarrow> 'rep client_event \<Rightarrow> 'rep client \<Rightarrow> 'rep client option"
where
  "client_step uc jd (StartRequest rq opts rid corr) cl = Some (start_request rq opts rid corr cl)"
| "client_step uc jd (StepRegister i) cl = on_call i cl (step_register i)"
| "client_step uc jd (StepReadInbox i) cl = on_call i cl (step_read_inbox i)"
| "client_step uc jd (StepAdmit i fresh_id now dnow) cl = on_call i cl (step_admit uc i fresh_id now dnow)"
| "client_step uc jd (StepPublished i res) cl = on_call i cl (step_published i res)"
| "client_step uc jd (StepTimeout i) cl = on_call i cl (step_timeout i)"
| "client_step uc jd (StepReply i) cl = on_call i cl (step_reply jd i)"
| "client_step uc jd (StepFinish i) cl = on_call i cl (step_finish i)"
| "client_step uc jd (StepDrop i) cl = on_call i cl (step_drop i)"
| "client_step uc jd (DeliverReply e auth) cl =
     (if cl_supervisor cl = SupRunning
      then Some (cl\<lparr>cl_registry := resolve uc (\<lambda>b. case jd b of Inl _ \<Rightarrow> None | Inr p \<Rightarrow> Some p) e auth (cl_registry cl)\<rparr>)
      else None)"
| "client_step uc jd UndecodableDelivery cl =
     (if cl_supervisor cl = SupRunning then Some (cl\<lparr>cl_registry := record_undecodable (cl_registry cl)\<rparr>) else None)"
| "client_step uc jd ConnectionLost cl =
     (if cl_supervisor cl = SupRunning \<and> \<not> cl_cancelled cl
      then Some (cl\<lparr>cl_inbox := InboxReconnecting, cl_supervisor := SupMarked\<rparr>) else None)"
| "client_step uc jd (DrainCallers ks) cl =
     (if cl_supervisor cl = SupMarked \<and> all_slots ks (cl_registry cl)
      then Some (cl\<lparr>cl_registry := drain ks (cl_registry cl), cl_supervisor := SupDrained\<rparr>) else None)"
| "client_step uc jd (InboxRebuilt inbox) cl =
     (if cl_supervisor cl = SupDrained
      then Some (cl\<lparr>cl_inbox := InboxReady inbox, cl_supervisor := SupRunning, cl_epoch := Suc (cl_epoch cl)\<rparr>) else None)"
| "client_step uc jd ConsumerStops cl =
     (if cl_cancelled cl \<and> (cl_supervisor cl = SupRunning \<or> cl_supervisor cl = SupDrained)
      then Some (cl\<lparr>cl_supervisor := SupStopped\<rparr>) else None)"
| "client_step uc jd (CloseBegin is_sup) cl =
     (let (waits, pl) = begin_close (cl_lifecycle cl)
      in Some (cl\<lparr>cl_lifecycle := pl, cl_closers := cl_closers cl @
           [\<lparr>clo_waits = waits, clo_is_supervisor = is_sup, clo_phase = CloserBegun\<rparr>]\<rparr>))"
| "client_step uc jd (CloseRegistry k ks) cl =
     (if k < length (cl_closers cl) \<and> clo_phase (cl_closers cl ! k) = CloserBegun \<and> all_slots ks (cl_registry cl)
      then Some (set_closer k CloserRegistryClosed (cl\<lparr>cl_registry := registry_close ks (cl_registry cl)\<rparr>)) else None)"
| "client_step uc jd (CloseCancel k) cl =
     (if k < length (cl_closers cl) \<and> clo_phase (cl_closers cl ! k) = CloserRegistryClosed
        \<and> (clo_waits (cl_closers cl ! k) \<longrightarrow> pl_drained (cl_lifecycle cl))
      then Some (set_closer k CloserCancelled (cl\<lparr>cl_cancelled := True\<rparr>)) else None)"
| "client_step uc jd (CloseJoin k) cl =
     (if k < length (cl_closers cl) \<and> clo_phase (cl_closers cl ! k) = CloserCancelled
        \<and> (clo_is_supervisor (cl_closers cl ! k) \<or> \<not> cl_supervised cl \<or> cl_supervisor cl = SupStopped)
      then Some (set_closer k CloserReturned cl) else None)"
| "client_step uc jd (LastHandleDropped ks) cl =
     (if list_all call_finished (cl_calls cl) \<and> list_all (\<lambda>c. clo_phase c = CloserReturned) (cl_closers cl)
        \<and> all_slots ks (cl_registry cl)
      then Some (cl\<lparr>cl_registry := registry_close ks (cl_registry cl), cl_cancelled := True\<rparr>) else None)"
| "client_step uc jd TokenCancelled cl = Some (cl\<lparr>cl_cancelled := True\<rparr>)"

fun client_run ::
  "uuid_codec \<Rightarrow> (byte list \<Rightarrow> (string, remote_error_payload) result) \<Rightarrow> 'rep client_event list \<Rightarrow> 'rep client \<Rightarrow> 'rep client option"
where
  "client_run uc jd [] cl = Some cl"
| "client_run uc jd (ev # evs) cl =
     (case client_step uc jd ev cl of None \<Rightarrow> None | Some cl' \<Rightarrow> client_run uc jd evs cl')"

section \<open>Lemmas: what one step changes\<close>

lemma length_filter_update:
  "i < length xs \<Longrightarrow>
   length (filter P (xs[i := y])) + of_bool (P (xs ! i)) = length (filter P xs) + of_bool (P y)"
proof (induction xs arbitrary: i)
  case (Cons x xs)
  then show ?case by (cases i) auto
qed simp

lemma list_all_update: "list_all P xs \<Longrightarrow> P y \<Longrightarrow> list_all P (xs[i := y])"
  by (auto simp: list_all_iff dest!: set_update_subset_insert [THEN subsetD])

lemma set_call_simps [simp]:
  "cl_calls (set_call i ca cl) = (cl_calls cl)[i := ca]" "cl_registry (set_call i ca cl) = cl_registry cl"
  "cl_lifecycle (set_call i ca cl) = cl_lifecycle cl" "cl_counters (set_call i ca cl) = cl_counters cl"
  "cl_closers (set_call i ca cl) = cl_closers cl" "cl_supervisor (set_call i ca cl) = cl_supervisor cl"
  "cl_inbox (set_call i ca cl) = cl_inbox cl" "cl_cancelled (set_call i ca cl) = cl_cancelled cl"
  "cl_epoch (set_call i ca cl) = cl_epoch cl" "cl_events (set_call i ca cl) = cl_events cl"
  "cl_supervised (set_call i ca cl) = cl_supervised cl" "cl_default_timeout (set_call i ca cl) = cl_default_timeout cl"
  by (simp_all add: set_call_def)

lemma drop_locals_simps [simp]:
  "cl_calls (drop_locals ph cl) = cl_calls cl" "cl_counters (drop_locals ph cl) = cl_counters cl"
  "cl_closers (drop_locals ph cl) = cl_closers cl" "cl_supervisor (drop_locals ph cl) = cl_supervisor cl"
  "cl_inbox (drop_locals ph cl) = cl_inbox cl" "cl_cancelled (drop_locals ph cl) = cl_cancelled cl"
  "cl_epoch (drop_locals ph cl) = cl_epoch cl" "cl_events (drop_locals ph cl) = cl_events cl"
  "cl_supervised (drop_locals ph cl) = cl_supervised cl" "cl_default_timeout (drop_locals ph cl) = cl_default_timeout cl"
  "cl_lifecycle (drop_locals ph cl) =
     (if is_publishing ph then permit_drop (cl_lifecycle cl) else cl_lifecycle cl)"
  "cl_registry (drop_locals ph cl) =
     (case phase_pending ph of None \<Rightarrow> cl_registry cl | Some p \<Rightarrow> pending_drop p (cl_registry cl))"
  by (simp_all add: drop_locals_def Let_def split: option.split)

lemma return_call_simps [simp]:
  "cl_calls (return_call i ca res cl) = (cl_calls cl)[i := ca\<lparr>ca_phase := CallReturning res\<rparr>]"
  "cl_counters (return_call i ca res cl) = cl_counters cl" "cl_closers (return_call i ca res cl) = cl_closers cl"
  "cl_supervisor (return_call i ca res cl) = cl_supervisor cl" "cl_inbox (return_call i ca res cl) = cl_inbox cl"
  "cl_cancelled (return_call i ca res cl) = cl_cancelled cl" "cl_epoch (return_call i ca res cl) = cl_epoch cl"
  "cl_events (return_call i ca res cl) = cl_events cl" "cl_supervised (return_call i ca res cl) = cl_supervised cl"
  "cl_default_timeout (return_call i ca res cl) = cl_default_timeout cl"
  "cl_lifecycle (return_call i ca res cl) =
     (if is_publishing (ca_phase ca) then permit_drop (cl_lifecycle cl) else cl_lifecycle cl)"
  "cl_registry (return_call i ca res cl) =
     (case phase_pending (ca_phase ca) of None \<Rightarrow> cl_registry cl | Some p \<Rightarrow> pending_drop p (cl_registry cl))"
  by (simp_all add: return_call_def)

lemma note_cause_simps [simp]:
  "ca_phase (note_cause cause ca) = ca_phase ca" "ca_published (note_cause cause ca) = ca_published ca"
  "ca_epoch (note_cause cause ca) = ca_epoch ca"
  "ob_admitted (ca_observation (note_cause cause ca)) = ob_admitted (ca_observation ca)"
  "ob_finished (ca_observation (note_cause cause ca)) = ob_finished (ca_observation ca)"
  by (simp_all add: note_cause_def note_transport_cause_def)

lemma set_closer_simps [simp]:
  "cl_closers (set_closer k ph cl) = (cl_closers cl)[k := (cl_closers cl ! k)\<lparr>clo_phase := ph\<rparr>]"
  "cl_calls (set_closer k ph cl) = cl_calls cl" "cl_registry (set_closer k ph cl) = cl_registry cl"
  "cl_lifecycle (set_closer k ph cl) = cl_lifecycle cl" "cl_counters (set_closer k ph cl) = cl_counters cl"
  "cl_supervisor (set_closer k ph cl) = cl_supervisor cl" "cl_inbox (set_closer k ph cl) = cl_inbox cl"
  "cl_cancelled (set_closer k ph cl) = cl_cancelled cl" "cl_epoch (set_closer k ph cl) = cl_epoch cl"
  "cl_supervised (set_closer k ph cl) = cl_supervised cl"
  by (simp_all add: set_closer_def)

lemmas call_step_defs =
  step_register_def step_read_inbox_def step_admit_def step_published_def step_timeout_def step_reply_def
  step_finish_def step_drop_def

lemmas call_step_splits =
  call_phase.splits option.splits sum.splits prod.splits reply_inbox_state.splits if_splits

text \<open>The registry changes through its own operations only.\<close>

lemma client_step_registry:
  assumes "client_step uc jd ev cl = Some cl'"
  shows "cl_registry cl' = cl_registry cl
    \<or> (\<exists>c. call_wf c (cl_registry cl)
         \<and> cl_registry cl' = registry_exec uc (\<lambda>b. case jd b of Inl _ \<Rightarrow> None | Inr p \<Rightarrow> Some p) c (cl_registry cl))"
proof -
  have drop: "\<exists>c. call_wf c g \<and> pending_drop p g = registry_exec uc dec c g" for p g dec
    by (rule exI [of _ "CallDrop p"]) simp
  then have never: "(\<forall>c. call_wf c g \<longrightarrow> pending_drop p g \<noteq> registry_exec uc dec c g) \<longleftrightarrow> False" for p g dec
    by blast
  show ?thesis
  proof (cases ev)
    case (StepRegister i)
    have same: "snd (register rid t g) = g" if "register rid t g = (Inl rej, g')" for rid t g rej g'
      using that by (auto simp: register_def Let_def split: if_splits)
    show ?thesis
      using assms StepRegister
      by (auto simp: step_register_def observation_admit_def dest: same split: call_step_splits
          intro!: disjI2 exI [of _ "CallRegister (ca_request_id (cl_calls cl ! i)) (rq_reply_type (ca_request (cl_calls cl ! i)))"])
  next
    case (DeliverReply e auth)
    then show ?thesis using assms
      by (intro disjI2 exI [of _ "CallResolve e auth"]) (auto split: if_splits)
  next
    case UndecodableDelivery
    then show ?thesis using assms by (intro disjI2 exI [of _ CallUndecodable]) (auto split: if_splits)
  next
    case (DrainCallers ks)
    then show ?thesis using assms
      by (intro disjI2 exI [of _ "CallDrain ks"]) (auto simp: all_slots_def split: if_splits)
  next
    case (CloseRegistry k ks)
    then show ?thesis using assms
      by (intro disjI2 exI [of _ "CallClose ks"]) (auto simp: all_slots_def split: if_splits)
  next
    case (LastHandleDropped ks)
    then show ?thesis using assms
      by (intro disjI2 exI [of _ "CallClose ks"]) (auto simp: all_slots_def split: if_splits)
  qed (use assms drop in \<open>auto simp: never call_step_defs start_request_def observation_start_def begin_close_def Let_def
      split: call_step_splits\<close>)
qed

section \<open>Lemmas: invariants of the client\<close>

text \<open>Publications in flight are the calls that hold a permit, and the watch channel tells when there is none.\<close>

definition lifecycle_inv :: "'rep client \<Rightarrow> bool" where
  "lifecycle_inv cl \<longleftrightarrow>
     pl_in_flight (cl_lifecycle cl) = length (filter (\<lambda>ca. is_publishing (ca_phase ca)) (cl_calls cl))
     \<and> (pl_drained (cl_lifecycle cl) \<longleftrightarrow> pl_in_flight (cl_lifecycle cl) = 0)"

text \<open>The gauge counts the admitted calls, and every attempt is active or counted under one outcome.\<close>

definition call_admitted :: "'rep client_call \<Rightarrow> bool" where
  "call_admitted ca \<longleftrightarrow> ob_admitted (ca_observation ca) \<and> \<not> call_finished ca"

definition outcome_total :: "client_counters \<Rightarrow> u64" where
  "outcome_total c = cc_succeeded c + cc_timed_out c + cc_remote_failed c + cc_transport_failed c + cc_refused c
     + cc_publication_unknown c + cc_invalid_reply c + cc_cancelled c"

definition observed_ok :: "'rep client_call \<Rightarrow> bool" where
  "observed_ok ca \<longleftrightarrow> (ca_phase ca = CallStarted \<longrightarrow> \<not> ob_admitted (ca_observation ca))
     \<and> (\<not> call_finished ca \<longrightarrow> \<not> ob_finished (ca_observation ca))"

definition counters_inv :: "'rep client \<Rightarrow> bool" where
  "counters_inv cl \<longleftrightarrow>
     cc_in_flight (cl_counters cl) = of_nat (length (filter call_admitted (cl_calls cl)))
     \<and> cc_started (cl_counters cl) = of_nat (length (cl_calls cl))
     \<and> cc_started (cl_counters cl)
         = outcome_total (cl_counters cl) + of_nat (length (filter (\<lambda>ca. \<not> call_finished ca) (cl_calls cl)))
     \<and> length (cl_events cl) = length (filter call_finished (cl_calls cl))
     \<and> list_all observed_ok (cl_calls cl)"

text \<open>Before the transport is asked nothing is published, and a refusal is never reported after it.\<close>

definition published_ok :: "'rep client_call \<Rightarrow> bool" where
  "published_ok ca \<longleftrightarrow>
     (case ca_phase ca of
        CallReturning res \<Rightarrow> outcome_of res = Refused \<longrightarrow> \<not> ca_published ca
      | CallDone res \<Rightarrow> outcome_of res = Refused \<longrightarrow> \<not> ca_published ca
      | CallPublishing _ _ \<Rightarrow> True
      | CallWaiting _ \<Rightarrow> True
      | CallDropped \<Rightarrow> True
      | _ \<Rightarrow> \<not> ca_published ca)"

lemma call_finished_simps [simp]:
  "call_finished (ca\<lparr>ca_phase := CallDone res\<rparr>)" "call_finished (ca\<lparr>ca_phase := CallDropped\<rparr>)"
  "\<not> call_finished (ca\<lparr>ca_phase := CallReturning res\<rparr>)"
  "ca_phase ca = CallReturning res \<Longrightarrow> \<not> call_finished ca" "ca_phase ca = CallStarted \<Longrightarrow> \<not> call_finished ca"
  "ca_phase ca = CallRegistered p \<Longrightarrow> \<not> call_finished ca" "ca_phase ca = CallAddressed p n \<Longrightarrow> \<not> call_finished ca"
  "ca_phase ca = CallPublishing p e \<Longrightarrow> \<not> call_finished ca" "ca_phase ca = CallWaiting p \<Longrightarrow> \<not> call_finished ca"
  by (simp_all add: call_finished_def)

lemma permit_drop_simps [simp]:
  "pl_in_flight (permit_drop pl) = pl_in_flight pl - 1" "pl_closing (permit_drop pl) = pl_closing pl"
  "pl_drained (permit_drop pl) = (pl_in_flight pl \<le> 1 \<or> pl_drained pl)"
  by (auto simp: permit_drop_def Let_def)

definition lifecycle_admitted :: "publication_lifecycle \<Rightarrow> publication_lifecycle" where
  "lifecycle_admitted pl = pl\<lparr>pl_drained := (if pl_in_flight pl = 0 then False else pl_drained pl),
     pl_in_flight := Suc (pl_in_flight pl)\<rparr>"

lemma lifecycle_inv_update:
  assumes inv: "lifecycle_inv cl" and i: "i < length (cl_calls cl)" and calls: "cl_calls cl' = (cl_calls cl)[i := ca]"
    and pl: "cl_lifecycle cl' =
      (case (is_publishing (ca_phase (cl_calls cl ! i)), is_publishing (ca_phase ca)) of
         (True, False) \<Rightarrow> permit_drop (cl_lifecycle cl)
       | (False, True) \<Rightarrow> lifecycle_admitted (cl_lifecycle cl)
       | _ \<Rightarrow> cl_lifecycle cl)"
  shows "lifecycle_inv cl'"
proof -
  let ?pub = "\<lambda>ca. is_publishing (ca_phase ca)"
  have upd: "length (filter ?pub ((cl_calls cl)[i := ca])) + of_bool (?pub (cl_calls cl ! i))
      = length (filter ?pub (cl_calls cl)) + of_bool (?pub ca)"
    using length_filter_update [OF i] .
  have pos: "0 < length (filter ?pub (cl_calls cl))" if "?pub (cl_calls cl ! i)"
    using that i by (auto simp: filter_empty_conv)
  show ?thesis
    using inv upd pos unfolding lifecycle_inv_def calls pl
    by (cases "?pub (cl_calls cl ! i)"; cases "?pub ca") (auto simp: lifecycle_admitted_def)
qed

lemma lifecycle_step:
  assumes inv: "lifecycle_inv cl" and step: "client_step uc jd ev cl = Some cl'"
  shows "lifecycle_inv cl'"
proof -
  have call: "lifecycle_inv cl'"
    if "i < length (cl_calls cl)" "\<exists>ca. cl_calls cl' = (cl_calls cl)[i := ca] \<and> cl_lifecycle cl' =
      (case (is_publishing (ca_phase (cl_calls cl ! i)), is_publishing (ca_phase ca)) of
         (True, False) \<Rightarrow> permit_drop (cl_lifecycle cl)
       | (False, True) \<Rightarrow> lifecycle_admitted (cl_lifecycle cl)
       | _ \<Rightarrow> cl_lifecycle cl)" for i
    using lifecycle_inv_update [OF inv that(1)] that(2) by blast
  show ?thesis
  proof (cases ev)
    case (StepRegister i)
    then show ?thesis using step
      by (intro call [of i]) (auto simp: step_register_def observation_admit_def split: call_step_splits)
  next
    case (StepReadInbox i)
    then show ?thesis using step
      by (intro call [of i]) (auto simp: step_read_inbox_def split: call_step_splits)
  next
    case (StepAdmit i fresh_id now dnow)
    then show ?thesis using step
      by (intro call [of i]) (auto simp: step_admit_def lifecycle_admit_def lifecycle_admitted_def split: call_step_splits)
  next
    case (StepPublished i res)
    then show ?thesis using step
      by (intro call [of i]) (auto simp: step_published_def split: call_step_splits)
  next
    case (StepTimeout i)
    then show ?thesis using step
      by (intro call [of i]) (auto simp: step_timeout_def split: call_step_splits)
  next
    case (StepReply i)
    then show ?thesis using step
      by (intro call [of i]) (auto simp: step_reply_def split: call_step_splits)
  next
    case (StepFinish i)
    then show ?thesis using step
      by (intro call [of i]) (auto simp: step_finish_def split: call_step_splits)
  next
    case (StepDrop i)
    then show ?thesis using step
      by (intro call [of i]) (auto simp: step_drop_def split: call_step_splits)
  qed (use inv step in \<open>auto simp: lifecycle_inv_def start_request_def observation_start_def begin_close_def Let_def
      split: if_splits\<close>)
qed

text \<open>
  The moves of one call, without the registry and the permit: what the other invariants rest on.
\<close>

inductive call_moves :: "'rep client \<Rightarrow> 'rep client_call \<Rightarrow> 'rep client_call \<Rightarrow> 'rep client \<Rightarrow> bool" for cl ca where
  registers: "ca_phase ca = CallStarted \<Longrightarrow> ca_phase ca' = CallRegistered p \<Longrightarrow> ca_published ca' = ca_published ca \<Longrightarrow>
    ca_observation ca' = (ca_observation ca)\<lparr>ob_admitted := True\<rparr> \<Longrightarrow> pr_receiver p < rg_next_channel (cl_registry cl') \<Longrightarrow>
    cl_counters cl' = raise_in_flight (cl_counters cl) \<Longrightarrow> cl_events cl' = cl_events cl \<Longrightarrow> call_moves cl ca ca' cl'"
| addresses: "ca_phase ca = CallRegistered p \<Longrightarrow> cl_inbox cl = InboxReady inbox \<Longrightarrow>
    ca' = ca\<lparr>ca_phase := CallAddressed p inbox, ca_epoch := cl_epoch cl\<rparr> \<Longrightarrow>
    cl_counters cl' = cl_counters cl \<Longrightarrow> cl_events cl' = cl_events cl \<Longrightarrow> call_moves cl ca ca' cl'"
| publishes: "ca_phase ca = CallAddressed p inbox \<Longrightarrow> \<not> pl_closing (cl_lifecycle cl) \<Longrightarrow>
    ca' = ca\<lparr>ca_phase := CallPublishing p e, ca_published := True\<rparr> \<Longrightarrow>
    cl_counters cl' = cl_counters cl \<Longrightarrow> cl_events cl' = cl_events cl \<Longrightarrow> call_moves cl ca ca' cl'"
| waits: "ca_phase ca = CallPublishing p e \<Longrightarrow> ca' = ca\<lparr>ca_phase := CallWaiting p\<rparr> \<Longrightarrow>
    cl_counters cl' = cl_counters cl \<Longrightarrow> cl_events cl' = cl_events cl \<Longrightarrow> call_moves cl ca ca' cl'"
| returns: "\<not> call_finished ca \<Longrightarrow> ca_phase ca' = CallReturning res \<Longrightarrow> ca_published ca' = ca_published ca \<Longrightarrow>
    ob_admitted (ca_observation ca') = ob_admitted (ca_observation ca) \<Longrightarrow>
    ob_finished (ca_observation ca') = ob_finished (ca_observation ca) \<Longrightarrow>
    (is_suspended (ca_phase ca) \<Longrightarrow> outcome_of res \<noteq> Refused) \<Longrightarrow> (\<And>r. ca_phase ca \<noteq> CallReturning r) \<Longrightarrow>
    cl_counters cl' = cl_counters cl \<Longrightarrow> cl_events cl' = cl_events cl \<Longrightarrow> call_moves cl ca ca' cl'"
| finishes: "ca_phase ca = CallReturning res \<Longrightarrow> ca' = ca\<lparr>ca_phase := CallDone res\<rparr> \<Longrightarrow>
    observation_finish (outcome_of res) (ca_observation ca, cl_counters cl) = (evs, cl_counters cl') \<Longrightarrow>
    cl_events cl' = cl_events cl @ evs \<Longrightarrow> call_moves cl ca ca' cl'"
| dropped: "is_suspended (ca_phase ca) \<Longrightarrow> ca' = ca\<lparr>ca_phase := CallDropped\<rparr> \<Longrightarrow>
    observation_drop (ca_observation ca, cl_counters cl) = (evs, cl_counters cl') \<Longrightarrow>
    cl_events cl' = cl_events cl @ evs \<Longrightarrow> call_moves cl ca ca' cl'"

definition same_frame :: "'rep client \<Rightarrow> 'rep client \<Rightarrow> bool" where
  "same_frame cl cl' \<longleftrightarrow> cl_closers cl' = cl_closers cl \<and> cl_supervisor cl' = cl_supervisor cl \<and> cl_inbox cl' = cl_inbox cl
     \<and> cl_epoch cl' = cl_epoch cl \<and> cl_cancelled cl' = cl_cancelled cl \<and> cl_supervised cl' = cl_supervised cl"

definition call_event :: "'rep client \<Rightarrow> 'rep client \<Rightarrow> bool" where
  "call_event cl cl' \<longleftrightarrow> same_frame cl cl' \<and> (\<exists>i ca'. i < length (cl_calls cl)
     \<and> cl_calls cl' = (cl_calls cl)[i := ca'] \<and> call_moves cl (cl_calls cl ! i) ca' cl')"

lemma call_eventI:
  "same_frame cl cl' \<Longrightarrow> i < length (cl_calls cl) \<Longrightarrow> cl_calls cl' = (cl_calls cl)[i := ca'] \<Longrightarrow>
   call_moves cl (cl_calls cl ! i) ca' cl' \<Longrightarrow> call_event cl cl'"
  unfolding call_event_def by blast

lemma returns_event:
  assumes "i < length (cl_calls cl)" "ca = cl_calls cl ! i" "\<not> call_finished ca" "\<And>r. ca_phase ca \<noteq> CallReturning r"
    and "ca' = ca \<or> (\<exists>cause. ca' = note_cause cause ca)" "is_suspended (ca_phase ca) \<Longrightarrow> outcome_of res \<noteq> Refused"
  shows "call_event cl (return_call i ca' res (cl\<lparr>cl_registry := g\<rparr>))" "call_event cl (return_call i ca' res cl)"
  using assms by (auto intro!: call_eventI [of _ _ i] call_moves.returns simp: same_frame_def)

lemma sets_event:
  assumes "i < length (cl_calls cl)" "cl_calls x = cl_calls cl" "same_frame cl x"
    and "call_moves cl (cl_calls cl ! i) ca' (set_call i ca' x)"
  shows "call_event cl (set_call i ca' x)"
  using assms by (intro call_eventI [of _ _ i]) (simp_all add: same_frame_def)

lemma decode_reply_not_refused: "outcome_of (rbind (decode_reply jd t dec e rid) f) \<noteq> Refused" if "\<And>x. f x = Inr (x, auth)"
  using that
  by (auto simp: decode_reply_def split: option.splits sum.splits)
    (cases "envelope_decode t dec e"; cases "jd (env_payload e)"; auto split: if_splits)+

lemma step_call_event:
  assumes "client_step uc jd ev cl = Some cl'"
  shows "call_event cl cl' \<or> (\<exists>rq opts rid corr. cl' = start_request rq opts rid corr cl)
    \<or> cl_calls cl' = cl_calls cl \<and> cl_counters cl' = cl_counters cl \<and> cl_events cl' = cl_events cl"
proof (cases ev)
  case (StepRegister i)
  then have i: "i < length (cl_calls cl)" and st: "step_register i (cl_calls cl ! i) cl = Some cl'"
    using assms by (auto split: if_splits)
  then have ph: "ca_phase (cl_calls cl ! i) = CallStarted"
    by (auto simp: step_register_def split: call_phase.splits)
  obtain res g where reg: "register (ca_request_id (cl_calls cl ! i)) (rq_reply_type (ca_request (cl_calls cl ! i)))
      (cl_registry cl) = (res, g)" by (cases "register (ca_request_id (cl_calls cl ! i))
        (rq_reply_type (ca_request (cl_calls cl ! i))) (cl_registry cl)")
  show ?thesis
  proof (cases res)
    case (Inl rej)
    then show ?thesis
      using st ph reg i by (auto simp: step_register_def intro!: returns_event)
  next
    case (Inr p)
    have p: "pr_receiver p < rg_next_channel g"
      using reg Inr by (auto simp: register_def Let_def split: if_splits)
    show ?thesis
      using st ph reg Inr p i
      by (auto simp: step_register_def observation_admit_def same_frame_def intro!: sets_event call_moves.registers)
  qed
next
  case (StepReadInbox i)
  then have i: "i < length (cl_calls cl)" and st: "step_read_inbox i (cl_calls cl ! i) cl = Some cl'"
    using assms by (auto split: if_splits)
  then obtain p where p: "ca_phase (cl_calls cl ! i) = CallRegistered p"
    by (auto simp: step_read_inbox_def split: call_phase.splits)
  show ?thesis
  proof (cases "cl_inbox cl")
    case (InboxReady inbox)
    then show ?thesis
      using st p i by (auto simp: step_read_inbox_def same_frame_def intro!: sets_event call_moves.addresses)
  next
    case InboxReconnecting
    then show ?thesis
      using st p i by (auto simp: step_read_inbox_def intro!: returns_event)
  qed
next
  case (StepAdmit i fresh_id now dnow)
  then have i: "i < length (cl_calls cl)" and st: "step_admit uc i fresh_id now dnow (cl_calls cl ! i) cl = Some cl'"
    using assms by (auto split: if_splits)
  then show ?thesis
    by (auto simp: step_admit_def lifecycle_admit_def same_frame_def split: call_phase.splits sum.splits if_splits
        intro!: returns_event sets_event call_moves.publishes)
next
  case (StepPublished i res)
  then have i: "i < length (cl_calls cl)" and st: "step_published i res (cl_calls cl ! i) cl = Some cl'"
    using assms by (auto split: if_splits)
  then show ?thesis
    by (auto simp: step_published_def same_frame_def split: call_phase.splits sum.splits
        intro!: returns_event sets_event call_moves.waits)
next
  case (StepTimeout i)
  then have i: "i < length (cl_calls cl)" and st: "step_timeout i (cl_calls cl ! i) cl = Some cl'"
    using assms by (auto split: if_splits)
  then show ?thesis
    by (auto simp: step_timeout_def timeout_error_def split: call_phase.splits intro!: returns_event)
next
  case (StepReply i)
  then have i: "i < length (cl_calls cl)" and st: "step_reply jd i (cl_calls cl ! i) cl = Some cl'"
    using assms by (auto split: if_splits)
  then show ?thesis
    by (auto simp: step_reply_def decode_reply_not_refused split: call_phase.splits option.splits if_splits
        intro!: returns_event)
next
  case (StepFinish i)
  then have i: "i < length (cl_calls cl)" and st: "step_finish i (cl_calls cl ! i) cl = Some cl'"
    using assms by (auto split: if_splits)
  then show ?thesis
    by (auto simp: step_finish_def same_frame_def split: call_phase.splits prod.splits
        intro!: sets_event call_moves.finishes)
next
  case (StepDrop i)
  then have i: "i < length (cl_calls cl)" and st: "step_drop i (cl_calls cl ! i) cl = Some cl'"
    using assms by (auto split: if_splits)
  then show ?thesis
    by (auto simp: step_drop_def same_frame_def split: prod.splits if_splits
        intro!: sets_event call_moves.dropped)
next
  case (StartRequest rq opts rid corr)
  then show ?thesis using assms by auto
qed (use assms in \<open>auto simp: set_closer_def begin_close_def split: if_splits\<close>)

lemma observation_finish_counts:
  assumes "observation_finish outcome (ob, c) = (evs, c')" "\<not> ob_finished ob"
  shows "outcome_total c' = outcome_total c + 1" "cc_started c' = cc_started c" "length evs = 1"
    "cc_in_flight c' = cc_in_flight c - of_bool (ob_admitted ob)"
  using assms
  by (cases outcome; auto simp: observation_finish_def observation_drop_def Let_def outcome_total_def
      release_in_flight_def algebra_simps split: if_splits)+

lemma observation_drop_counts:
  assumes "observation_drop (ob, c) = (evs, c')" "\<not> ob_finished ob"
  shows "outcome_total c' = outcome_total c + 1" "cc_started c' = cc_started c" "length evs = 1"
    "cc_in_flight c' = cc_in_flight c - of_bool (ob_admitted ob)"
  using assms
  by (auto simp: observation_drop_def Let_def outcome_total_def release_in_flight_def count_cancelled_def
      algebra_simps split: if_splits)

end
