(* ===== verification/Rpc_Client_Safety.thy ===== *)
theory Rpc_Client_Safety
  imports Rpc_Client
begin

text \<open>
  Safety of the request client over every interleaving of its calls, closers and reply consumer:
  exact accounting, refusals that were never published, no caller waiting on a lost inbox, what
  \<open>close\<close> guarantees, and the whole exchange from the caller through the responder and back.
\<close>

section \<open>Lemmas: accounting\<close>

text \<open>How a move changes the counts of calls.\<close>

lemma call_moves_counts:
  assumes "call_moves cl ca ca' cl'" "observed_ok ca"
  shows "observed_ok ca' \<and> cc_started (cl_counters cl') = cc_started (cl_counters cl)
    \<and> outcome_total (cl_counters cl') + of_bool (\<not> call_finished ca') = outcome_total (cl_counters cl) + of_bool (\<not> call_finished ca)
    \<and> cc_in_flight (cl_counters cl') + of_bool (call_admitted ca) = cc_in_flight (cl_counters cl) + of_bool (call_admitted ca')
    \<and> length (cl_events cl') + of_bool (call_finished ca) = length (cl_events cl) + of_bool (call_finished ca')"
  using assms
proof (induction rule: call_moves.induct)
  case (finishes res ca' evs cl')
  then have "\<not> ob_finished (ca_observation ca)" by (simp add: observed_ok_def)
  then show ?case
    using finishes observation_finish_counts [OF finishes(3)]
    by (auto simp: observed_ok_def call_admitted_def)
next
  case (dropped ca' evs cl')
  then have "\<not> call_finished ca" by (cases "ca_phase ca") (simp_all add: call_finished_def)
  moreover from this have "\<not> ob_finished (ca_observation ca)" using dropped(5) by (simp add: observed_ok_def)
  ultimately show ?case
    using dropped observation_drop_counts [OF dropped(3)]
    by (auto simp: observed_ok_def call_admitted_def)
qed (auto simp: observed_ok_def call_admitted_def call_finished_def raise_in_flight_def outcome_total_def)

lemma exchanged_sum:
  fixes a a' n n' f f' :: "'a::ab_group_add"
  assumes "a' + f' = a + f" "n' + f = n + f'"
  shows "a' + n' = a + n"
proof -
  have "(a' + n') + (f + f') = (a' + f') + (n' + f)" by (simp only: ac_simps)
  also have "\<dots> = (a + n) + (f + f')" unfolding assms by (simp only: ac_simps)
  finally show ?thesis by simp
qed

lemma counters_step:
  assumes inv: "counters_inv cl" and step: "client_step uc jd ev cl = Some cl'"
  shows "counters_inv cl'"
  using step_call_event [OF step]
proof (elim disjE)
  assume "call_event cl cl'"
  then obtain i ca' where i: "i < length (cl_calls cl)" and calls: "cl_calls cl' = (cl_calls cl)[i := ca']"
    and moves: "call_moves cl (cl_calls cl ! i) ca' cl'"
    by (auto simp: call_event_def)
  let ?ca = "cl_calls cl ! i"
  have ok: "observed_ok ?ca"
    using inv i by (simp add: counters_inv_def list_all_length)
  note m = call_moves_counts [OF moves ok]
  have cnt: "length (filter P (cl_calls cl')) + of_bool (P ?ca) = length (filter P (cl_calls cl)) + of_bool (P ca')" for P
    unfolding calls using length_filter_update [OF i] .
  have wcnt: "(of_nat (length (filter P (cl_calls cl'))) :: u64) + of_bool (P ?ca)
      = of_nat (length (filter P (cl_calls cl))) + of_bool (P ca')" for P
    using arg_cong [OF cnt [of P], of "of_nat :: nat \<Rightarrow> u64"] by simp
  have "cc_in_flight (cl_counters cl') + of_bool (call_admitted ?ca)
      = of_nat (length (filter call_admitted (cl_calls cl'))) + of_bool (call_admitted ?ca)"
    using m inv wcnt [of call_admitted] by (simp add: counters_inv_def)
  moreover have "outcome_total (cl_counters cl') + of_nat (length (filter (\<lambda>ca. \<not> call_finished ca) (cl_calls cl')))
      = outcome_total (cl_counters cl) + of_nat (length (filter (\<lambda>ca. \<not> call_finished ca) (cl_calls cl)))"
    by (rule exchanged_sum [of _ "of_bool (\<not> call_finished ca')" _ "of_bool (\<not> call_finished ?ca)"])
      (use m wcnt [of "\<lambda>ca. \<not> call_finished ca"] in blast)+
  moreover have "length (cl_events cl') = length (filter call_finished (cl_calls cl'))"
    using m inv cnt [of call_finished] by (simp add: counters_inv_def)
  ultimately show ?thesis
    using m inv calls unfolding counters_inv_def by (auto simp: list_all_update)
next
  assume "\<exists>rq opts rid corr. cl' = start_request rq opts rid corr cl"
  then show ?thesis
    using inv
    by (auto simp: start_request_def observation_start_def counters_inv_def count_started_def outcome_total_def
        call_admitted_def call_finished_def observed_ok_def algebra_simps)
next
  assume "cl_calls cl' = cl_calls cl \<and> cl_counters cl' = cl_counters cl \<and> cl_events cl' = cl_events cl"
  then show ?thesis using inv by (auto simp: counters_inv_def)
qed

section \<open>Lemmas: publication\<close>

lemma call_moves_published:
  assumes "call_moves cl ca ca' cl'" "published_ok ca"
  shows "published_ok ca'"
  using assms by (cases rule: call_moves.cases) (auto simp: published_ok_def call_finished_def split: call_phase.splits)

lemma published_step:
  assumes ok: "list_all published_ok (cl_calls cl)" and step: "client_step uc jd ev cl = Some cl'"
  shows "list_all published_ok (cl_calls cl')"
  using step_call_event [OF step]
proof (elim disjE)
  assume "call_event cl cl'"
  then obtain i ca' where "i < length (cl_calls cl)" "cl_calls cl' = (cl_calls cl)[i := ca']"
    "call_moves cl (cl_calls cl ! i) ca' cl'"
    by (auto simp: call_event_def)
  then show ?thesis
    using ok list_all_update [OF ok call_moves_published] by (simp add: list_all_length)
qed (use ok in \<open>auto simp: start_request_def observation_start_def published_ok_def\<close>)

section \<open>Lemmas: the registry under the client\<close>

lemma abandon_slots_frame [simp]:
  "rg_closed (abandon_slots ks g) = rg_closed g" "rg_next_channel (abandon_slots ks g) = rg_next_channel g"
  unfolding abandon_slots_fold by (induction ks arbitrary: g) simp_all

lemma registry_close_closed [simp]: "rg_closed (registry_close ks g)"
  by (simp add: registry_close_def)

lemma registry_exec_next: "rg_next_channel g \<le> rg_next_channel (registry_exec uc dec c g)"
  by (cases c) (auto simp: register_def resolve_def reject_slot_def record_undecodable_def drain_def registry_close_def
      pending_drop_def Let_def split: sum.splits option.splits slot_retirement.splits)

lemma registry_exec_closed: "rg_closed g \<Longrightarrow> rg_closed (registry_exec uc dec c g)"
  by (cases c) (auto simp: register_def resolve_def reject_slot_def record_undecodable_def drain_def
      pending_drop_def Let_def split: sum.splits option.splits slot_retirement.splits)

lemma no_slot_no_wait:
  assumes "registry_inv g" "rg_slots g = []" "c < rg_next_channel g"
  shows "rg_channels g c \<noteq> ChWaiting"
  using assms by (auto simp: registry_inv_def channels_inv_def senders_def)

text \<open>A step keeps the registry's invariant, its channels and what they have delivered.\<close>

definition registry_grows :: "request_registry \<Rightarrow> request_registry \<Rightarrow> bool" where
  "registry_grows g g' \<longleftrightarrow> registry_inv g' \<and> rg_next_channel g \<le> rg_next_channel g' \<and> (rg_closed g \<longrightarrow> rg_closed g')
     \<and> (\<forall>c < rg_next_channel g. rg_channels g c \<noteq> ChWaiting \<longrightarrow> rg_channels g' c = rg_channels g c)"

lemma step_registry_grows:
  assumes inv: "registry_inv (cl_registry cl)" and step: "client_step uc jd ev cl = Some cl'"
  shows "registry_grows (cl_registry cl) (cl_registry cl')"
  using client_step_registry [OF step]
proof (elim disjE exE conjE)
  fix c
  assume wf: "call_wf c (cl_registry cl)"
    and exec: "cl_registry cl' = registry_exec uc (\<lambda>b. case jd b of Inl _ \<Rightarrow> None | Inr p \<Rightarrow> Some p) c (cl_registry cl)"
  show ?thesis
    unfolding registry_grows_def exec
    using registry_exec_inv [OF inv wf] registry_exec_next registry_exec_closed registry_exec_settled [OF inv wf] by blast
qed (use inv in \<open>simp add: registry_grows_def\<close>)

lemma step_drain:
  assumes inv: "registry_inv (cl_registry cl)" and step: "client_step uc jd (DrainCallers ks) cl = Some cl'"
    and c: "c < rg_next_channel (cl_registry cl')"
  shows "rg_channels (cl_registry cl') c \<noteq> ChWaiting"
proof -
  have "registry_inv (cl_registry cl')"
    using step_registry_grows [OF inv step] by (simp add: registry_grows_def)
  moreover have "rg_slots (cl_registry cl') = []"
    using step by (auto simp: all_slots_def drain_def abandon_all split: if_splits)
  ultimately show ?thesis using c by (rule no_slot_no_wait)
qed

section \<open>Lemmas: callers and the lifetime of the inbox\<close>

fun phase_addressed :: "'rep call_phase \<Rightarrow> bool" where
  "phase_addressed (CallAddressed _ _) = True"
| "phase_addressed (CallPublishing _ _) = True"
| "phase_addressed (CallWaiting _) = True"
| "phase_addressed _ = False"

text \<open>A call that is still owed an answer by its channel advertised the inbox of the current connection.\<close>

definition epoch_ok :: "request_registry \<Rightarrow> supervisor_phase \<Rightarrow> nat \<Rightarrow> 'rep client_call \<Rightarrow> bool" where
  "epoch_ok g sv ep ca \<longleftrightarrow>
     (\<forall>p. phase_pending (ca_phase ca) = Some p \<longrightarrow> pr_receiver p < rg_next_channel g
        \<and> (phase_addressed (ca_phase ca) \<longrightarrow> rg_channels g (pr_receiver p) = ChWaiting \<longrightarrow> ca_epoch ca = ep \<and> sv \<noteq> SupDrained))"

definition inbox_matches :: "supervisor_phase \<Rightarrow> reply_inbox_state \<Rightarrow> bool" where
  "inbox_matches sv inbox \<longleftrightarrow>
     (case inbox of InboxReady _ \<Rightarrow> sv = SupRunning \<or> sv = SupStopped | InboxReconnecting \<Rightarrow> sv \<noteq> SupRunning)"

definition epoch_inv :: "'rep client \<Rightarrow> bool" where
  "epoch_inv cl \<longleftrightarrow> registry_inv (cl_registry cl) \<and> inbox_matches (cl_supervisor cl) (cl_inbox cl)
     \<and> list_all (epoch_ok (cl_registry cl) (cl_supervisor cl) (cl_epoch cl)) (cl_calls cl)
     \<and> (cl_supervisor cl = SupStopped \<and> cl_inbox cl = InboxReconnecting \<longrightarrow>
          list_all (epoch_ok (cl_registry cl) SupDrained (cl_epoch cl)) (cl_calls cl))"

lemma epoch_ok_grows:
  assumes "registry_grows g g'" "epoch_ok g sv ep ca"
  shows "epoch_ok g' sv ep ca"
  using assms unfolding registry_grows_def epoch_ok_def by (metis order_less_le_trans)

lemma epoch_ok_drained: "epoch_ok g SupDrained ep ca \<Longrightarrow> epoch_ok g sv ep' ca"
  by (auto simp: epoch_ok_def)

lemma call_moves_epoch:
  assumes "call_moves cl ca ca' cl'" "registry_grows (cl_registry cl) (cl_registry cl')"
    and "epoch_ok (cl_registry cl) sv (cl_epoch cl) ca" "\<And>inbox. cl_inbox cl = InboxReady inbox \<Longrightarrow> sv \<noteq> SupDrained"
  shows "epoch_ok (cl_registry cl') sv (cl_epoch cl) ca'"
  using assms(1) epoch_ok_grows [OF assms(2,3)] assms(4)
  by (cases rule: call_moves.cases) (auto simp: epoch_ok_def)

text \<open>Only the consumer moves the consumer.\<close>

fun consumer_event :: "'rep client_event \<Rightarrow> bool" where
  "consumer_event ConnectionLost = True"
| "consumer_event (DrainCallers _) = True"
| "consumer_event (InboxRebuilt _) = True"
| "consumer_event ConsumerStops = True"
| "consumer_event _ = False"

lemma step_consumer_frame:
  assumes "client_step uc jd ev cl = Some cl'" "\<not> consumer_event ev"
  shows "cl_supervisor cl' = cl_supervisor cl \<and> cl_inbox cl' = cl_inbox cl \<and> cl_epoch cl' = cl_epoch cl"
  using assms
  by (cases ev) (auto simp: call_step_defs start_request_def observation_start_def observation_admit_def begin_close_def
      Let_def split: call_step_splits)

lemma epoch_step:
  assumes inv: "epoch_inv cl" and step: "client_step uc jd ev cl = Some cl'"
  shows "epoch_inv cl'"
proof -
  have grows: "registry_grows (cl_registry cl) (cl_registry cl')"
    using inv step_registry_grows [OF _ step] by (simp add: epoch_inv_def)
  then have reg: "registry_inv (cl_registry cl')" by (simp add: registry_grows_def)
  have keep: "list_all (epoch_ok (cl_registry cl') sv ep) cs" if "list_all (epoch_ok (cl_registry cl) sv ep) cs" for sv ep cs
    using that epoch_ok_grows [OF grows] by (auto simp: list_all_iff)
  have drained: "list_all (epoch_ok g sv ep') cs" if "list_all (epoch_ok g SupDrained ep) cs" for g sv ep ep' cs
    using that by (auto simp: list_all_iff intro: epoch_ok_drained [of g ep])
  have alive: "list_all (epoch_ok g sv' ep) cs" if "sv' \<noteq> SupDrained" "list_all (epoch_ok g sv ep) cs" for g sv sv' ep cs
    using that by (auto simp: list_all_iff epoch_ok_def)
  show ?thesis
    using step_call_event [OF step]
  proof (elim disjE)
    assume "call_event cl cl'"
    then obtain i ca' where i: "i < length (cl_calls cl)" and calls: "cl_calls cl' = (cl_calls cl)[i := ca']"
      and frame: "same_frame cl cl'" and moves: "call_moves cl (cl_calls cl ! i) ca' cl'"
      by (auto simp: call_event_def)
    have move: "list_all (epoch_ok (cl_registry cl') sv (cl_epoch cl)) (cl_calls cl')"
      if ok: "list_all (epoch_ok (cl_registry cl) sv (cl_epoch cl)) (cl_calls cl)"
        and sv: "\<And>inbox. cl_inbox cl = InboxReady inbox \<Longrightarrow> sv \<noteq> SupDrained" for sv
      unfolding calls using ok i call_moves_epoch [OF moves grows _ sv]
      by (intro list_all_update keep) (auto simp: list_all_length)
    show ?thesis
      using inv reg frame move unfolding epoch_inv_def same_frame_def
      by (auto simp: inbox_matches_def split: reply_inbox_state.splits)
  next
    assume "\<exists>rq opts rid corr. cl' = start_request rq opts rid corr cl"
    then show ?thesis
      using inv by (auto simp: epoch_inv_def epoch_ok_def start_request_def observation_start_def)
  next
    assume calls: "cl_calls cl' = cl_calls cl \<and> cl_counters cl' = cl_counters cl \<and> cl_events cl' = cl_events cl"
    have parts: "list_all (epoch_ok (cl_registry cl') (cl_supervisor cl) (cl_epoch cl)) (cl_calls cl)"
      "inbox_matches (cl_supervisor cl) (cl_inbox cl)"
      "cl_supervisor cl = SupStopped \<and> cl_inbox cl = InboxReconnecting \<longrightarrow>
         list_all (epoch_ok (cl_registry cl') SupDrained (cl_epoch cl)) (cl_calls cl)"
      using inv keep unfolding epoch_inv_def by blast+
    show ?thesis
    proof (cases ev rule: consumer_event.cases)
      case 1
      then have "cl_supervisor cl = SupRunning" "cl_supervisor cl' = SupMarked" "cl_inbox cl' = InboxReconnecting"
        "cl_epoch cl' = cl_epoch cl"
        using step by (auto split: if_splits)
      then show ?thesis
        using alive [OF _ parts(1), of SupMarked] reg calls by (simp add: epoch_inv_def inbox_matches_def)
    next
      case (2 ks)
      then have sv: "cl_supervisor cl = SupMarked" "cl_supervisor cl' = SupDrained" "cl_inbox cl' = cl_inbox cl"
        "cl_epoch cl' = cl_epoch cl"
        using step by (auto split: if_splits)
      have "epoch_ok (cl_registry cl') SupDrained (cl_epoch cl) ca" if "epoch_ok (cl_registry cl') SupMarked (cl_epoch cl) ca" for ca
        using step_drain [of cl uc jd ks cl'] inv step that 2 unfolding epoch_inv_def epoch_ok_def by blast
      then show ?thesis
        using parts reg calls sv by (auto simp: epoch_inv_def inbox_matches_def list_all_iff split: reply_inbox_state.splits)
    next
      case (3 inbox)
      then have "cl_supervisor cl = SupDrained" "cl_supervisor cl' = SupRunning" "cl_inbox cl' = InboxReady inbox"
        using step by (auto split: if_splits)
      then show ?thesis
        using drained parts(1) reg calls by (simp add: epoch_inv_def inbox_matches_def)
    next
      case 4
      then have sv: "cl_supervisor cl = SupRunning \<or> cl_supervisor cl = SupDrained" "cl_supervisor cl' = SupStopped"
        "cl_inbox cl' = cl_inbox cl" "cl_epoch cl' = cl_epoch cl"
        using step by (auto split: if_splits)
      have "list_all (epoch_ok (cl_registry cl') SupStopped (cl_epoch cl)) (cl_calls cl)"
        using alive [OF _ parts(1)] by simp
      then show ?thesis
        using parts reg calls sv by (auto simp: epoch_inv_def inbox_matches_def split: reply_inbox_state.splits)
    qed (use step_consumer_frame [OF step] parts reg calls in \<open>simp_all add: epoch_inv_def\<close>)
  qed
qed

section \<open>Lemmas: what a closer may rely on\<close>

definition closer_ok :: "'rep client \<Rightarrow> closer \<Rightarrow> bool" where
  "closer_ok cl clo \<longleftrightarrow> pl_closing (cl_lifecycle cl)
     \<and> (\<not> clo_waits clo \<longrightarrow> pl_in_flight (cl_lifecycle cl) = 0)
     \<and> (clo_phase clo \<noteq> CloserBegun \<longrightarrow> rg_closed (cl_registry cl))
     \<and> (clo_phase clo = CloserCancelled \<or> clo_phase clo = CloserReturned \<longrightarrow>
          cl_cancelled cl \<and> pl_in_flight (cl_lifecycle cl) = 0)
     \<and> (clo_phase clo = CloserReturned \<and> \<not> clo_is_supervisor clo \<and> cl_supervised cl \<longrightarrow> cl_supervisor cl = SupStopped)"

text \<open>Closing, cancelling and stopping are never undone, and no publication starts after closing.\<close>

definition winds_down :: "'rep client \<Rightarrow> 'rep client \<Rightarrow> bool" where
  "winds_down cl cl' \<longleftrightarrow>
     (pl_closing (cl_lifecycle cl) \<longrightarrow> pl_closing (cl_lifecycle cl') \<and> pl_in_flight (cl_lifecycle cl') \<le> pl_in_flight (cl_lifecycle cl))
     \<and> (cl_cancelled cl \<longrightarrow> cl_cancelled cl') \<and> cl_supervised cl' = cl_supervised cl
     \<and> (cl_supervisor cl = SupStopped \<longrightarrow> cl_supervisor cl' = SupStopped)"

lemma step_winds_down:
  assumes "client_step uc jd ev cl = Some cl'"
  shows "winds_down cl cl'"
  using assms
  by (cases ev) (auto simp: winds_down_def call_step_defs lifecycle_admit_def start_request_def observation_start_def
      observation_admit_def begin_close_def Let_def split: call_step_splits)

lemma closer_ok_winds_down:
  assumes "closer_ok cl clo" "winds_down cl cl'" "rg_closed (cl_registry cl) \<longrightarrow> rg_closed (cl_registry cl')"
  shows "closer_ok cl' clo"
  using assms unfolding closer_ok_def winds_down_def by auto

fun close_event :: "'rep client_event \<Rightarrow> bool" where
  "close_event (CloseBegin _) = True"
| "close_event (CloseRegistry _ _) = True"
| "close_event (CloseCancel _) = True"
| "close_event (CloseJoin _) = True"
| "close_event _ = False"

lemma step_closers_frame:
  assumes "client_step uc jd ev cl = Some cl'" "\<not> close_event ev"
  shows "cl_closers cl' = cl_closers cl"
  using assms
  by (cases ev) (auto simp: call_step_defs start_request_def observation_start_def observation_admit_def
      Let_def split: call_step_splits)

lemma closers_step:
  assumes closers: "list_all (closer_ok cl) (cl_closers cl)" and epoch: "epoch_inv cl" and pl: "lifecycle_inv cl"
    and step: "client_step uc jd ev cl = Some cl'"
  shows "list_all (closer_ok cl') (cl_closers cl')"
proof -
  have "registry_grows (cl_registry cl) (cl_registry cl')"
    using epoch step_registry_grows [OF _ step] by (simp add: epoch_inv_def)
  then have keep: "list_all (closer_ok cl') (cl_closers cl)"
    using closers closer_ok_winds_down [OF _ step_winds_down [OF step]] by (auto simp: list_all_iff registry_grows_def)
  have ok: "closer_ok cl (cl_closers cl ! k)" if "k < length (cl_closers cl)" for k
    using closers that by (simp add: list_all_length)
  show ?thesis
  proof (cases ev rule: close_event.cases)
    case (1 is_sv)
    then show ?thesis
      using step keep by (auto simp: begin_close_def closer_ok_def)
  next
    case (2 k ks)
    then have "k < length (cl_closers cl)" "cl' = set_closer k CloserRegistryClosed (cl\<lparr>cl_registry := registry_close ks (cl_registry cl)\<rparr>)"
      "clo_phase (cl_closers cl ! k) = CloserBegun"
      using step by (auto split: if_splits)
    then show ?thesis
      using keep ok [of k] by (auto simp: closer_ok_def intro!: list_all_update)
  next
    case (3 k)
    then have "k < length (cl_closers cl)" "cl' = set_closer k CloserCancelled (cl\<lparr>cl_cancelled := True\<rparr>)"
      "clo_phase (cl_closers cl ! k) = CloserRegistryClosed" "clo_waits (cl_closers cl ! k) \<longrightarrow> pl_drained (cl_lifecycle cl)"
      using step by (auto split: if_splits)
    then show ?thesis
      using keep ok [of k] pl by (auto simp: closer_ok_def lifecycle_inv_def intro!: list_all_update)
  next
    case (4 k)
    then have "k < length (cl_closers cl)" "cl' = set_closer k CloserReturned cl"
      "clo_phase (cl_closers cl ! k) = CloserCancelled"
      "clo_is_supervisor (cl_closers cl ! k) \<or> \<not> cl_supervised cl \<or> cl_supervisor cl = SupStopped"
      using step by (auto split: if_splits)
    then show ?thesis
      using keep ok [of k] by (auto simp: closer_ok_def intro!: list_all_update)
  qed (use step_closers_frame [OF step] keep in simp_all)
qed

text \<open>Every reachable client satisfies all of them.\<close>

definition client_inv :: "'rep client \<Rightarrow> bool" where
  "client_inv cl \<longleftrightarrow> lifecycle_inv cl \<and> counters_inv cl \<and> list_all published_ok (cl_calls cl) \<and> epoch_inv cl
     \<and> list_all (closer_ok cl) (cl_closers cl)"

lemma client_new_inv: "client_inv (client_new n inbox t supervised)"
  by (simp add: client_inv_def client_new_def lifecycle_inv_def lifecycle_default_def counters_inv_def outcome_total_def
      epoch_inv_def registry_new_inv inbox_matches_def)

lemma client_step_inv: "client_inv cl \<Longrightarrow> client_step uc jd ev cl = Some cl' \<Longrightarrow> client_inv cl'"
  unfolding client_inv_def by (blast intro: lifecycle_step counters_step published_step epoch_step closers_step)

lemma client_run_inv: "client_inv cl \<Longrightarrow> client_run uc jd evs cl = Some cl' \<Longrightarrow> client_inv cl'"
  by (induction evs arbitrary: cl) (auto dest: client_step_inv split: option.splits)

lemma client_run_closers:
  "client_run uc jd evs cl = Some cl' \<Longrightarrow> winds_down cl cl'"
proof (induction evs arbitrary: cl)
  case (Cons ev evs)
  then obtain cl1 where "client_step uc jd ev cl = Some cl1" "winds_down cl1 cl'"
    by (auto split: option.splits)
  then show ?case
    using step_winds_down [of uc jd ev cl cl1] by (auto simp: winds_down_def)
qed (simp add: winds_down_def)

text \<open>The consumer stops on a cancelled token only.\<close>

lemma step_stops:
  assumes "client_step uc jd ev cl = Some cl'" "cl_supervisor cl' = SupStopped"
  shows "cl_supervisor cl = SupStopped \<or> cl_cancelled cl'"
  using assms
  by (cases ev) (auto simp: call_step_defs start_request_def begin_close_def Let_def split: call_step_splits)

lemma client_run_stops:
  "client_run uc jd evs cl = Some cl' \<Longrightarrow> cl_supervisor cl' = SupStopped \<Longrightarrow> cl_supervisor cl = SupStopped \<or> cl_cancelled cl'"
proof (induction evs arbitrary: cl)
  case (Cons ev evs)
  then obtain cl1 where cl1: "client_step uc jd ev cl = Some cl1" "client_run uc jd evs cl1 = Some cl'"
    by (auto split: option.splits)
  then show ?case
    using Cons.IH Cons.prems(2) step_stops [OF cl1(1)] client_run_closers [OF cl1(2)] by (auto simp: winds_down_def)
qed simp

lemma client_run_closed:
  "client_inv cl \<Longrightarrow> client_run uc jd evs cl = Some cl' \<Longrightarrow> rg_closed (cl_registry cl) \<Longrightarrow> rg_closed (cl_registry cl')"
proof (induction evs arbitrary: cl)
  case (Cons ev evs)
  then obtain cl1 where cl1: "client_step uc jd ev cl = Some cl1" "client_run uc jd evs cl1 = Some cl'"
    by (auto split: option.splits)
  then have "rg_closed (cl_registry cl1)"
    using Cons.prems step_registry_grows [OF _ cl1(1)] by (simp add: client_inv_def epoch_inv_def registry_grows_def)
  then show ?case
    using Cons.IH [OF client_step_inv [OF Cons.prems(1) cl1(1)] cl1(2)] by blast
qed simp

lemma waiting_call_returns:
  assumes "i < length (cl_calls cl)" "ca_phase (cl_calls cl ! i) = CallWaiting p"
    and "rg_channels (cl_registry cl) (pr_receiver p) \<noteq> ChWaiting"
  shows "client_step uc jd (StepReply i) cl \<noteq> None"
  using assms by (auto simp: step_reply_def pending_wait_def split: channel.splits)

lemma waiting_receiver:
  assumes "epoch_inv cl" "i < length (cl_calls cl)" "ca_phase (cl_calls cl ! i) = CallWaiting p"
  shows "pr_receiver p < rg_next_channel (cl_registry cl)"
proof -
  have "epoch_ok (cl_registry cl) (cl_supervisor cl) (cl_epoch cl) (cl_calls cl ! i)"
    using assms(1,2) by (simp add: epoch_inv_def list_all_length)
  then show ?thesis using assms(3) by (simp add: epoch_ok_def)
qed

lemma step_length_calls: "client_step uc jd ev cl = Some cl' \<Longrightarrow> length (cl_calls cl) \<le> length (cl_calls cl')"
  by (drule step_call_event) (auto simp: call_event_def start_request_def observation_start_def)

section \<open>Lemmas: the exchange between a caller and a responder\<close>

text \<open>What is assumed of \<open>serde_json\<close>: a value that was encoded is decoded to itself.\<close>

definition serde_round_trip :: "('a \<Rightarrow> (string, byte list) result) \<Rightarrow> (byte list \<Rightarrow> (string, 'a) result) \<Rightarrow> bool" where
  "serde_round_trip ser de \<longleftrightarrow> (\<forall>x b. ser x = Inr b \<longrightarrow> de b = Inr x)"

lemma request_envelope_reads:
  assumes "uuid_codec_ok uc" "request_envelope uc fresh_id now dnow corr rq rid timeout inbox = Inr e"
  shows "env_reply_to e = Some inbox" "parse_request_id uc e = RidPresent rid"
    "read_protocol_version e = Some protocol_version" "env_correlation_id e = corr"
    "env_message_type e = rq_message_type rq" "rq_encoded rq = Inr (env_payload e)"
proof -
  obtain bytes where bytes: "rq_encoded rq = Inr bytes"
    using assms(2) by (cases "rq_encoded rq") (auto simp: request_envelope_def envelope_with_reply_to_def envelope_new_def)
  note e = assms(2) [unfolded request_envelope_def envelope_with_reply_to_def envelope_new_def bytes, symmetric]
  show "env_reply_to e = Some inbox" "env_correlation_id e = corr" "env_message_type e = rq_message_type rq"
    "rq_encoded rq = Inr (env_payload e)"
    using e bytes by (auto simp: Let_def split: option.splits)
  show "parse_request_id uc e = RidPresent rid"
    using e assms(1) by (auto simp: Let_def parse_request_id_def uuid_codec_ok_def split: option.splits)
  show "read_protocol_version e = Some protocol_version"
    using e by (auto simp: Let_def read_protocol_version_def parse_version_one split: option.splits)
qed

text \<open>A guard that answers a current request answers with the category of a malformed request.\<close>

lemma stopped_answers_malformed:
  assumes "admit_request ri rh rp e c = Inl (ended, c', acts)" "PublishReply d r \<in> set acts"
    and "env_reply_to e = Some inbox" "parse_request_id (ri_codec ri) e = RidPresent rid"
    and "read_protocol_version e = Some protocol_version"
  shows "rp_accept rp inbox = Inr d \<and> error_reply ri RemoteMalformed (env_correlation_id e) rid = Inr r
    \<and> acts = [PublishReply d r]"
  using assms
  by (auto simp: admit_request_def Let_def rbind_eq_Inr validated_reply_to_def judge_deadline_def answer_with_error_def deliver_reply_def
      split: option.splits sum.splits deadline_reading.splits if_splits prod.splits)

abbreviation json_dec :: "(byte list \<Rightarrow> (string, remote_error_payload) result) \<Rightarrow> byte list \<Rightarrow> remote_error_payload option" where
  "json_dec jd \<equiv> (\<lambda>b. case jd b of Inl _ \<Rightarrow> None | Inr p \<Rightarrow> Some p)"

text \<open>What a caller that expects \<open>t\<close> makes of a reply to its request \<open>rid\<close>.\<close>

definition reply_read_as ::
  "uuid_codec \<Rightarrow> (byte list \<Rightarrow> (string, remote_error_payload) result) \<Rightarrow> 'rep request_value \<Rightarrow> uuid \<Rightarrow> bus_envelope \<Rightarrow>
   (request_error, 'rep) result \<Rightarrow> bool"
where
  "reply_read_as uc jd rq rid r res \<longleftrightarrow>
     readable_request_id uc r = Some rid \<and> accepts (rq_reply_type rq) r = Inr ()
     \<and> accepts_error_identity (json_dec jd) r rid = Inr ()
     \<and> decode_reply jd (rq_reply_type rq) (rq_decode_reply rq) r rid = res"

lemma answers_call_reads:
  assumes "uuid_codec_ok uc" "answers_call uc rid corr r"
  shows "readable_request_id uc r = Some rid" "read_protocol_version r = Some protocol_version"
  using assms by (simp_all add: answers_call_def readable_request_id_def read_protocol_version_def parse_version_one
      uuid_codec_ok_def)

lemma error_reply_read:
  assumes "uuid_codec_ok (ri_codec ri)" "error_reply ri category corr rid = Inr r"
    and "serde_round_trip (ri_encode_error ri) jd"
  shows "reply_read_as (ri_codec ri) jd rq rid r (Inl (RequestRemote category rid))"
proof -
  note shape = error_reply_shape [OF assms(2)]
  note reads = answers_call_reads [OF assms(1) shape(1)]
  have "jd (env_payload r) = Inr \<lparr>rep_error_type = category, rep_request_id = rid\<rparr>"
    using assms(3) shape(4) by (auto simp: serde_round_trip_def)
  then show ?thesis
    using shape reads
    by (simp add: reply_read_as_def accepts_def accepts_error_identity_def decode_reply_def reply_status_ok_def
        reply_status_error_def)
qed

lemma ok_reply_read:
  assumes "uuid_codec_ok (ri_codec ri)" "encode_ok_reply ri rh corr rid reply = Inr r"
    and "serde_round_trip (ri_encode_error ri) jd"
    and "serde_round_trip (rh_encode_reply rh) (rq_decode_reply rq)" "rh_reply_type rh = rq_reply_type rq"
  shows "reply_read_as (ri_codec ri) jd rq rid r
    (case rh_encode_reply rh reply of Inr _ \<Rightarrow> Inr reply | Inl _ \<Rightarrow> Inl (RequestRemote RemoteInternal rid))"
  using assms(2)
proof (rule encode_ok_reply_cases)
  fix bytes
  assume ok: "rh_encode_reply rh reply = Inr bytes" "answers_call (ri_codec ri) rid corr r"
    "header r reply_status_header = Some reply_status_ok" "env_message_type r = rh_reply_type rh" "env_payload r = bytes"
  moreover have "rq_decode_reply rq bytes = Inr reply"
    using assms(4) ok(1) by (auto simp: serde_round_trip_def)
  ultimately show ?thesis
    using answers_call_reads [OF assms(1) ok(2)] assms(5)
    by (simp add: reply_read_as_def accepts_def accepts_error_identity_def decode_reply_def envelope_decode_def
        reply_status_ok_def reply_status_error_def)
next
  fix err
  assume "rh_encode_reply rh reply = Inl err" "error_reply ri RemoteInternal corr rid = Inr r"
  then show ?thesis using error_reply_read [OF assms(1) _ assms(3)] by simp
qed

lemma read_reply_delivered:
  assumes "reply_read_as uc jd rq rid r res" "map_of (rg_slots g) rid = Some s" "sl_expectation s = rq_reply_type rq"
  shows "rg_channels (resolve uc (json_dec jd) r (Inr auth) g) (sl_sender s) = ChDelivered r auth"
  using assms by (simp add: reply_read_as_def resolve_def)

lemma run_and_reply_read:
  assumes "run_and_reply ri rh rp request rctx corr rid reply_to deadline c = (ended, c', acts)" "PublishReply d r \<in> set acts"
    and "uuid_codec_ok (ri_codec ri)" "serde_round_trip (ri_encode_error ri) jd"
    and "serde_round_trip (rh_encode_reply rh) (rq_decode_reply rq)" "rh_reply_type rh = rq_reply_type rq"
  shows "(\<exists>reply. rh_handle rh request rctx = HandlerOk reply \<and> reply_read_as (ri_codec ri) jd rq rid r
        (case rh_encode_reply rh reply of Inr _ \<Rightarrow> Inr reply | Inl _ \<Rightarrow> Inl (RequestRemote RemoteInternal rid)))
    \<or> (\<exists>err. rh_handle rh request rctx = HandlerErr err \<and> reply_read_as (ri_codec ri) jd rq rid r
        (Inl (RequestRemote (remote_error_from_bus_error (rh_into rh err)) rid)))"
proof (cases "rh_handle rh request rctx")
  case (HandlerOk reply)
  then have "encode_ok_reply ri rh corr rid reply = Inr r"
    using assms(1,2) by (auto simp: run_and_reply_def deliver_reply_def split: sum.splits if_splits)
  from ok_reply_read [OF assms(3) this assms(4-6)] HandlerOk show ?thesis by blast
next
  case (HandlerErr err)
  then have "error_reply ri (remote_error_from_bus_error (rh_into rh err)) corr rid = Inr r"
    using assms(1,2)
    by (auto simp: run_and_reply_def deliver_reply_def encode_handler_error_reply_def split: sum.splits if_splits)
  from error_reply_read [OF assms(3) this assms(4)] HandlerErr show ?thesis by blast
next
  case (HandlerPanic p)
  then show ?thesis using assms(1,2) by (auto simp: run_and_reply_def)
qed

lemma client_run_append:
  "client_run uc jd (evs @ evs') cl =
     (case client_run uc jd evs cl of None \<Rightarrow> None | Some cl' \<Rightarrow> client_run uc jd evs' cl')"
  by (induction evs arbitrary: cl) (auto split: option.splits)

text \<open>A codec of error payloads for the witness: the bytes count the category and the identity.\<close>

fun category_code :: "remote_error_type \<Rightarrow> nat" where
  "category_code RemoteInternal = 0"
| "category_code RemoteMalformed = 1"
| "category_code RemoteUnavailable = 2"
| "category_code RemoteUnsupported = 3"
| "category_code RemoteExpired = 4"

definition counted_error :: "remote_error_payload \<Rightarrow> (string, byte list) result" where
  "counted_error p = Inr (replicate (5 * unat (rep_request_id p) + category_code (rep_error_type p)) 0)"

definition read_counted_error :: "byte list \<Rightarrow> (string, remote_error_payload) result" where
  "read_counted_error b =
     Inr \<lparr>rep_error_type = [RemoteInternal, RemoteMalformed, RemoteUnavailable, RemoteUnsupported, RemoteExpired] ! (length b mod 5),
          rep_request_id = of_nat (length b div 5)\<rparr>"

lemma counted_error_codec: "serde_round_trip counted_error read_counted_error"
proof -
  have parts: "(5 * m + category_code cat) div 5 = m" "(5 * m + category_code cat) mod 5 = category_code cat" for m cat
    by (cases cat; simp only: category_code.simps; presburger)+
  have "read_counted_error (replicate (5 * unat rid + category_code cat) 0) = Inr \<lparr>rep_error_type = cat, rep_request_id = rid\<rparr>" for cat rid
    unfolding read_counted_error_def length_replicate parts by (cases cat) simp_all
  then show ?thesis
    by (auto simp: serde_round_trip_def counted_error_def)
qed

text \<open>A request for the echo responder, and runs of a client that makes it.\<close>

definition sample_request_value :: "byte list request_value" where
  "sample_request_value =
     \<lparr>rq_message_type = ''Ping'', rq_destination = ''ping'', rq_encoded = Inr [7], rq_reply_type = ''Pong'',
      rq_decode_reply = Inr\<rparr>"

abbreviation sample_client :: "nat \<Rightarrow> byte list client" where
  "sample_client n \<equiv> client_new n ''amq.gen-a'' (from_secs 4000) True"

abbreviation sample_call :: "byte list client_event list" where
  "sample_call \<equiv> [StartRequest sample_request_value request_options_new 3 9, StepRegister 0, StepReadInbox 0,
     StepAdmit 0 4 40 40, StepPublished 0 (Inr 4)]"

lemma sample_call_run:
  "\<exists>cl. client_run decimal_codec jd sample_call (sample_client 2) = Some cl
    \<and> cl_calls cl ! 0 = \<lparr>ca_request = sample_request_value, ca_request_id = 3, ca_destination = ''ping'',
        ca_timeout = from_secs 4000, ca_correlation_id = 9,
        ca_observation = \<lparr>ob_admitted = True, ob_finished = False, ob_cause = None\<rparr>,
        ca_phase = CallWaiting \<lparr>pr_request_id = 3, pr_receiver = 0\<rparr>, ca_published = True, ca_epoch = 0\<rparr>
    \<and> length (cl_calls cl) = 1 \<and> map fst (rg_slots (cl_registry cl)) = [3] \<and> cl_supervisor cl = SupRunning
    \<and> \<not> cl_cancelled cl \<and> cl_closers cl = [] \<and> pl_in_flight (cl_lifecycle cl) = 0 \<and> cl_supervised cl
    \<and> rg_channels (cl_registry cl) 0 = ChWaiting"
proof -
  obtain e where "request_envelope decimal_codec 4 40 40 9 sample_request_value 3 (from_secs 4000) ''amq.gen-a'' = Inr e"
    by (simp add: request_envelope_def envelope_with_reply_to_def envelope_new_def sample_request_value_def Let_def
        deadline_within_horizon_def max_deadline_horizon_def from_secs_def)
  moreover have "rq_destination sample_request_value = ''ping''" by (simp add: sample_request_value_def)
  ultimately show ?thesis
    by (simp add: client_new_def start_request_def observation_start_def
        request_options_new_def step_register_def register_def registry_new_def registry_len_def observation_admit_def set_call_def
        step_read_inbox_def step_admit_def lifecycle_admit_def lifecycle_default_def step_published_def permit_drop_def Let_def)
qed

section \<open>Properties\<close>

text \<open>
  C35. A request that the client reports as refused was never handed to the transport: on every
  interleaving of calls, closers, deliveries and reconnections, a call that returned with outcome
  \<open>refused\<close> (at capacity, duplicate identity, closed, or encoding failure) published nothing, so
  the caller may retry it without risking a second execution.
\<close>

theorem refused_never_published:
  assumes "client_run uc jd evs (client_new n inbox t supervised) = Some cl"
    and "i < length (cl_calls cl)" "ca_phase (cl_calls cl ! i) = CallDone res" "outcome_of res = Refused"
  shows "\<not> ca_published (cl_calls cl ! i)"
proof -
  have "published_ok (cl_calls cl ! i)"
    using client_run_inv [OF client_new_inv assms(1)] assms(2) by (simp add: client_inv_def list_all_length)
  then show ?thesis using assms(3,4) by (simp add: published_ok_def)
qed

theorem refused_never_published_witness:
  "\<exists>cl res. client_run decimal_codec read_counted_error [StartRequest sample_request_value request_options_new 3 9, StepRegister 0, StepFinish 0]
      (sample_client 0) = Some cl \<and> ca_phase (cl_calls cl ! 0) = CallDone res \<and> outcome_of res = Refused
    \<and> \<not> ca_published (cl_calls cl ! 0)"
proof -
  let ?evs = "[StartRequest sample_request_value request_options_new 3 9, StepRegister 0, StepFinish 0]"
  obtain cl res where run: "client_run decimal_codec read_counted_error ?evs (sample_client 0) = Some cl" and "length (cl_calls cl) = 1"
    "ca_phase (cl_calls cl ! 0) = CallDone res" "outcome_of res = Refused"
    by (simp add: client_new_def start_request_def observation_start_def request_options_new_def step_register_def
        register_def registry_new_def registry_len_def return_call_def drop_locals_def set_call_def step_finish_def
        observation_finish_def observation_drop_def Let_def)
  then show ?thesis using refused_never_published [OF run, of 0 res] by auto
qed

text \<open>
  Exact accounting of a request client, on every interleaving: the attempts started are the
  ones active plus the ones counted under the eight outcomes (on the wrapping \<open>u64\<close> counters),
  the \<open>in_flight\<close> gauge is the number of admitted calls that have not ended, and every ended
  call emitted exactly one terminal event.
\<close>

theorem call_accounting:
  assumes "client_run uc jd evs (client_new n inbox t supervised) = Some cl"
  shows "cc_started (cl_counters cl) = of_nat (length (cl_calls cl))
    \<and> cc_started (cl_counters cl)
        = outcome_total (cl_counters cl) + of_nat (length (filter (\<lambda>ca. \<not> call_finished ca) (cl_calls cl)))
    \<and> cc_in_flight (cl_counters cl) = of_nat (length (filter call_admitted (cl_calls cl)))
    \<and> length (cl_events cl) = length (filter call_finished (cl_calls cl))"
  using client_run_inv [OF client_new_inv assms] by (auto simp: client_inv_def counters_inv_def)

theorem call_accounting_witness:
  "\<exists>cl. client_run decimal_codec read_counted_error sample_call (sample_client 2) = Some cl
    \<and> cc_in_flight (cl_counters cl) = 1 \<and> cc_started (cl_counters cl) = 1 \<and> outcome_total (cl_counters cl) = 0"
proof -
  obtain cl where run: "client_run decimal_codec read_counted_error sample_call (sample_client 2) = Some cl"
    and len: "length (cl_calls cl) = 1" and ph: "ca_phase (cl_calls cl ! 0) = CallWaiting \<lparr>pr_request_id = 3, pr_receiver = 0\<rparr>"
      "ob_admitted (ca_observation (cl_calls cl ! 0))"
    using sample_call_run [of read_counted_error] by fastforce
  from len obtain ca where ca: "cl_calls cl = [ca]" by (auto simp: length_Suc_conv)
  have "call_admitted ca" "\<not> call_finished ca" using ph ca by (simp_all add: call_admitted_def call_finished_def)
  then show ?thesis using run call_accounting [OF run] ca by auto
qed

text \<open>
  C10. No caller is left waiting on an inbox whose loss the supervisor has observed. A caller whose
  channel still waits advertised the inbox of the current connection, and one of three things holds:
  the consumer runs and that inbox is announced; it is marked lost and the drain is yet to come; or the
  consumer has stopped because its token was cancelled, with the inbox still announced and nobody
  drained (a token cancelled from outside does this; \<open>close\<close> drains first). Once the callers have been
  drained, every caller that was waiting can return at once. In particular a call that read the inbox
  just before the loss is caught, because the mark precedes the drain.
\<close>

theorem no_wait_on_lost_inbox:
  assumes run: "client_run uc jd evs (client_new n inbox t supervised) = Some cl"
    and call: "i < length (cl_calls cl)" "ca_phase (cl_calls cl ! i) = CallWaiting p"
  shows "(rg_channels (cl_registry cl) (pr_receiver p) = ChWaiting \<longrightarrow>
      ca_epoch (cl_calls cl ! i) = cl_epoch cl
      \<and> (case cl_supervisor cl of
           SupRunning \<Rightarrow> cl_inbox cl \<noteq> InboxReconnecting
         | SupMarked \<Rightarrow> cl_inbox cl = InboxReconnecting
         | SupDrained \<Rightarrow> False
         | SupStopped \<Rightarrow> cl_cancelled cl \<and> cl_inbox cl \<noteq> InboxReconnecting))
    \<and> (\<forall>cl'. client_step uc jd (DrainCallers ks) cl = Some cl' \<longrightarrow> client_step uc jd (StepReply i) cl' \<noteq> None)"
proof -
  have inv: "epoch_inv cl"
    using client_run_inv [OF client_new_inv run] by (simp add: client_inv_def)
  then have ok: "epoch_ok (cl_registry cl) (cl_supervisor cl) (cl_epoch cl) (cl_calls cl ! i)"
    and stopped: "cl_supervisor cl = SupStopped \<and> cl_inbox cl = InboxReconnecting \<longrightarrow>
      epoch_ok (cl_registry cl) SupDrained (cl_epoch cl) (cl_calls cl ! i)"
    and matches: "inbox_matches (cl_supervisor cl) (cl_inbox cl)"
    using call(1) by (simp_all add: epoch_inv_def list_all_length)
  have cancelled: "cl_supervisor cl = SupStopped \<longrightarrow> cl_cancelled cl"
    using client_run_stops [OF run] by (simp add: client_new_def)
  have "client_step uc jd (StepReply i) cl' \<noteq> None" if step: "client_step uc jd (DrainCallers ks) cl = Some cl'" for cl'
  proof (rule waiting_call_returns)
    have same: "cl_calls cl' = cl_calls cl" using step by (auto split: if_splits)
    show "i < length (cl_calls cl')" "ca_phase (cl_calls cl' ! i) = CallWaiting p" using call same by simp_all
    then have "pr_receiver p < rg_next_channel (cl_registry cl')"
      using waiting_receiver epoch_step [OF inv step] by blast
    then show "rg_channels (cl_registry cl') (pr_receiver p) \<noteq> ChWaiting"
      using step_drain [OF _ step] inv by (simp add: epoch_inv_def)
  qed
  then show ?thesis
    using ok stopped matches cancelled call(2)
    by (cases "cl_supervisor cl"; cases "cl_inbox cl") (auto simp: epoch_ok_def inbox_matches_def)
qed

theorem no_wait_on_lost_inbox_witness:
  "\<exists>cl cl'. client_run decimal_codec read_counted_error (sample_call @ [ConnectionLost]) (sample_client 2) = Some cl
    \<and> rg_channels (cl_registry cl) 0 = ChWaiting \<and> cl_inbox cl = InboxReconnecting
    \<and> client_step decimal_codec read_counted_error (DrainCallers [3]) cl = Some cl' \<and> client_step decimal_codec read_counted_error (StepReply 0) cl' \<noteq> None"
proof -
  obtain cl where run: "client_run decimal_codec read_counted_error sample_call (sample_client 2) = Some cl"
    and cl: "length (cl_calls cl) = 1" "ca_phase (cl_calls cl ! 0) = CallWaiting \<lparr>pr_request_id = 3, pr_receiver = 0\<rparr>"
      "map fst (rg_slots (cl_registry cl)) = [3]" "cl_supervisor cl = SupRunning" "\<not> cl_cancelled cl"
      "rg_channels (cl_registry cl) 0 = ChWaiting"
    using sample_call_run [of read_counted_error] by fastforce
  let ?cl = "cl\<lparr>cl_inbox := InboxReconnecting, cl_supervisor := SupMarked\<rparr>"
  have lost: "client_run decimal_codec read_counted_error (sample_call @ [ConnectionLost]) (sample_client 2) = Some ?cl"
    unfolding client_run_append run using cl by simp
  have "all_slots [3] (cl_registry cl)"
    using cl(3) by (auto simp: all_slots_def simp flip: set_map)
  then obtain cl' where "client_step decimal_codec read_counted_error (DrainCallers [3]) ?cl = Some cl'" by simp
  then show ?thesis
    using no_wait_on_lost_inbox [OF lost, of 0 _ "[3]"] lost cl by auto
qed

text \<open>
  C11. What \<open>close\<close> guarantees. Once a call of \<open>close\<close> has returned, and whatever happens later:
  no publication is in flight and none can start, the registry refuses every new request, every
  caller still waiting can return at once, and the token is cancelled; if the closer is not the
  consumer task itself, the consumer has ended.
\<close>

theorem close_contract:
  assumes run: "client_run uc jd evs (client_new n inbox t supervised) = Some cl"
    and k: "k < length (cl_closers cl)" "clo_phase (cl_closers cl ! k) = CloserReturned"
    and later: "client_run uc jd evs' cl = Some cl'"
  shows "list_all (\<lambda>ca. \<not> is_publishing (ca_phase ca)) (cl_calls cl')
    \<and> lifecycle_admit (cl_lifecycle cl') = Inl RequestClosed
    \<and> (\<forall>rid ty. register rid ty (cl_registry cl') = (Inl RegistryClosed, cl_registry cl'))
    \<and> (\<forall>i < length (cl_calls cl'). \<forall>p. ca_phase (cl_calls cl' ! i) = CallWaiting p \<longrightarrow>
         client_step uc jd (StepReply i) cl' \<noteq> None)
    \<and> cl_cancelled cl'
    \<and> (cl_supervised cl \<and> \<not> clo_is_supervisor (cl_closers cl ! k) \<longrightarrow> cl_supervisor cl' = SupStopped)"
proof -
  have inv: "client_inv cl" using client_run_inv [OF client_new_inv run] .
  then have ok: "closer_ok cl (cl_closers cl ! k)"
    using k(1) by (simp add: client_inv_def list_all_length)
  have inv': "client_inv cl'" using client_run_inv [OF inv later] .
  have down: "winds_down cl cl'" using client_run_closers [OF later] .
  have closed: "rg_closed (cl_registry cl')"
    using client_run_closed [OF inv later] ok k(2) by (simp add: closer_ok_def)
  have "pl_closing (cl_lifecycle cl')" "pl_in_flight (cl_lifecycle cl') = 0" "cl_cancelled cl'"
    using ok k(2) down by (auto simp: closer_ok_def winds_down_def)
  moreover from this have "list_all (\<lambda>ca. \<not> is_publishing (ca_phase ca)) (cl_calls cl')"
    using inv' by (auto simp: client_inv_def lifecycle_inv_def filter_empty_conv list_all_iff)
  moreover have "cl_supervisor cl' = SupStopped" if "cl_supervised cl" "\<not> clo_is_supervisor (cl_closers cl ! k)"
    using that ok k(2) down by (auto simp: closer_ok_def winds_down_def)
  moreover have "client_step uc jd (StepReply i) cl' \<noteq> None"
    if i: "i < length (cl_calls cl')" "ca_phase (cl_calls cl' ! i) = CallWaiting p" for i p
  proof (rule waiting_call_returns [OF i])
    have "epoch_inv cl'" using inv' by (simp add: client_inv_def)
    then show "rg_channels (cl_registry cl') (pr_receiver p) \<noteq> ChWaiting"
      using no_slot_no_wait waiting_receiver [OF _ i] closed by (auto simp: epoch_inv_def registry_inv_def)
  qed
  ultimately show ?thesis
    using closed by (simp add: lifecycle_admit_def register_def)
qed

theorem close_contract_witness:
  "\<exists>cl. client_run decimal_codec read_counted_error (sample_call @ [CloseBegin False, CloseRegistry 0 [3], CloseCancel 0, ConsumerStops, CloseJoin 0])
      (sample_client 2) = Some cl
    \<and> ca_phase (cl_calls cl ! 0) = CallWaiting \<lparr>pr_request_id = 3, pr_receiver = 0\<rparr>
    \<and> client_step decimal_codec read_counted_error (StepReply 0) cl \<noteq> None \<and> cl_supervisor cl = SupStopped"
proof -
  obtain cl where run: "client_run decimal_codec read_counted_error sample_call (sample_client 2) = Some cl"
    and cl: "length (cl_calls cl) = 1" "ca_phase (cl_calls cl ! 0) = CallWaiting \<lparr>pr_request_id = 3, pr_receiver = 0\<rparr>"
      "map fst (rg_slots (cl_registry cl)) = [3]" "cl_supervisor cl = SupRunning" "cl_closers cl = []"
      "pl_in_flight (cl_lifecycle cl) = 0" "cl_supervised cl"
    using sample_call_run [of read_counted_error] by fastforce
  have "all_slots [3] (cl_registry cl)"
    using cl(3) by (auto simp: all_slots_def simp flip: set_map)
  then obtain cl' where rest: "client_run decimal_codec read_counted_error [CloseBegin False, CloseRegistry 0 [3], CloseCancel 0, ConsumerStops, CloseJoin 0] cl
      = Some cl'" and cl': "length (cl_closers cl') = 1" "clo_phase (cl_closers cl' ! 0) = CloserReturned"
      "\<not> clo_is_supervisor (cl_closers cl' ! 0)" "cl_supervised cl'" "cl_calls cl' = cl_calls cl"
    using cl by (simp add: begin_close_def set_closer_def)
  have all: "client_run decimal_codec read_counted_error (sample_call @ [CloseBegin False, CloseRegistry 0 [3], CloseCancel 0, ConsumerStops, CloseJoin 0])
      (sample_client 2) = Some cl'"
    unfolding client_run_append run using rest by simp
  show ?thesis
    using close_contract [OF all, of 0 "[]" cl'] all cl cl' by auto
qed

text \<open>
  C8. The exchange from end to end. A request that the client built reaches a responder, whose
  reply comes back to the client's registry: the reply was published to the inbox the request
  advertised, on the same causal chain; the registry accepts it and settles the waiting caller
  with it; and the caller is given the handler's reply, or the category of the handler's failure
  under the identity of its own request, or, when a guard answered instead of the handler, the
  category of a malformed request. The only assumptions are that identifiers and JSON values are
  read back as they were written.
\<close>

theorem rpc_end_to_end:
  assumes codecs: "uuid_codec_ok (ri_codec ri)" "serde_round_trip (ri_encode_error ri) jd"
      "serde_round_trip (rh_encode_reply rh) (rq_decode_reply rq)" "rh_reply_type rh = rq_reply_type rq"
    and sent: "request_envelope (ri_codec ri) fresh_id now dnow corr rq rid timeout inbox = Inr e"
    and slot: "map_of (rg_slots g) rid = Some s" "sl_expectation s = rq_reply_type rq"
    and served: "respond ri rh rp e ctx c = (ended, c', acts)" "PublishReply d r \<in> set acts"
  shows "rp_accept rp inbox = Inr d \<and> env_correlation_id r = corr
    \<and> rg_channels (resolve (ri_codec ri) (json_dec jd) r (Inr auth) g) (sl_sender s) = ChDelivered r auth
    \<and> (let got = decode_reply jd (rq_reply_type rq) (rq_decode_reply rq) r rid in
         (acts = [PublishReply d r] \<and> got = Inl (RequestRemote RemoteMalformed rid))
       \<or> (\<exists>request rctx reply. acts = [InvokeHandler request rctx, PublishReply d r] \<and> rqc_request_id rctx = rid
            \<and> rh_handle rh request rctx = HandlerOk reply
            \<and> got = (case rh_encode_reply rh reply of Inr _ \<Rightarrow> Inr reply | Inl _ \<Rightarrow> Inl (RequestRemote RemoteInternal rid)))
       \<or> (\<exists>request rctx err. acts = [InvokeHandler request rctx, PublishReply d r] \<and> rqc_request_id rctx = rid
            \<and> rh_handle rh request rctx = HandlerErr err
            \<and> got = Inl (RequestRemote (remote_error_from_bus_error (rh_into rh err)) rid)))"
proof -
  note e = request_envelope_reads [OF codecs(1) sent]
  have corr: "env_correlation_id r = corr" "rp_accept rp inbox = Inr d"
    using respond_publishes [OF served] e by (auto simp: answers_call_def)
  have deliver: "rg_channels (resolve (ri_codec ri) (json_dec jd) r (Inr auth) g) (sl_sender s) = ChDelivered r auth
      \<and> decode_reply jd (rq_reply_type rq) (rq_decode_reply rq) r rid = res"
    if "reply_read_as (ri_codec ri) jd rq rid r res" for res
    using read_reply_delivered [OF that slot] that by (simp add: reply_read_as_def)
  show ?thesis
  proof (cases "admit_request ri rh rp e c")
    case (Inl stopped)
    then have "admit_request ri rh rp e c = Inl (ended, c', acts)" using served(1) by (simp add: respond_def)
    from stopped_answers_malformed [OF this served(2) e(1-3)]
    have "acts = [PublishReply d r]" "reply_read_as (ri_codec ri) jd rq rid r (Inl (RequestRemote RemoteMalformed rid))"
      using error_reply_read [OF codecs(1) _ codecs(2)] e(4) by auto
    then show ?thesis using deliver corr by (simp add: Let_def)
  next
    case (Inr admitted)
    obtain reply_to rid' deadline request where adm: "admitted = (reply_to, rid', deadline, request)"
      by (cases admitted)
    let ?ctx = "\<lparr>rqc_request_id = rid, rqc_protocol_version = protocol_version, rqc_deadline = deadline, rqc_handler = ctx\<rparr>"
    have "rid' = rid" using admit_request_admitted(2) [OF Inr [unfolded adm]] e(2) by simp
    then have run: "run_and_reply ri rh rp request ?ctx corr rid reply_to deadline c = (ended, c', acts)"
      using served(1) Inr adm e(4)
      by (simp add: respond_def Let_def request_context_new_def context_with_deadline_def split: option.splits)
    then have acts: "acts = [InvokeHandler request ?ctx, PublishReply d r]"
      using run_and_reply_acts [OF run] served(2) by auto
    from run_and_reply_read [OF run served(2) codecs] show ?thesis
    proof (elim disjE exE conjE)
      fix reply
      assume "rh_handle rh request ?ctx = HandlerOk reply"
        "reply_read_as (ri_codec ri) jd rq rid r
          (case rh_encode_reply rh reply of Inr _ \<Rightarrow> Inr reply | Inl _ \<Rightarrow> Inl (RequestRemote RemoteInternal rid))"
      then show ?thesis using acts corr deliver by (auto simp: Let_def)
    next
      fix err
      assume "rh_handle rh request ?ctx = HandlerErr err"
        "reply_read_as (ri_codec ri) jd rq rid r (Inl (RequestRemote (remote_error_from_bus_error (rh_into rh err)) rid))"
      then show ?thesis using acts corr deliver by (auto simp: Let_def)
    qed
  qed
qed

lemma echo_codec: "serde_round_trip (rh_encode_reply echo_handler) (rq_decode_reply sample_request_value)"
  by (simp add: serde_round_trip_def echo_handler_def sample_request_value_def)

theorem rpc_end_to_end_witness:
  "\<exists>e r. request_envelope decimal_codec 4 40 40 9 sample_request_value 3 (from_secs 4000) ''amq.gen-a'' = Inr e
    \<and> respond (sample_responder_inputs\<lparr>ri_encode_error := counted_error\<rparr>) echo_handler sample_publisher e sample_handler_context
        sample_responder_counters
      = (DispatchDone (Inr Replied), sample_responder_counters, [InvokeHandler [7] sample_request_context, PublishReply ''amq.gen-a'' r])
    \<and> decode_reply read_counted_error ''Pong'' Inr r 3 = Inr [7]"
proof -
  let ?ri = "sample_responder_inputs\<lparr>ri_encode_error := counted_error\<rparr>"
  have ri: "ri_codec ?ri = decimal_codec" by (simp add: sample_responder_inputs_def)
  obtain e where e: "request_envelope decimal_codec 4 40 40 9 sample_request_value 3 (from_secs 4000) ''amq.gen-a'' = Inr e"
    and late: "header e deadline_header = None"
    by (simp add: request_envelope_def envelope_with_reply_to_def envelope_new_def sample_request_value_def Let_def
        deadline_within_horizon_def max_deadline_horizon_def from_secs_def header_def insert_protocol_header_def)
  note reads = request_envelope_reads [OF decimal_codec_ok e]
  have "envelope_decode (rh_message_type echo_handler) (rh_decode echo_handler) e = Inr [7]"
    using reads(5,6) by (simp add: envelope_decode_def echo_handler_def sample_request_value_def)
  then have adm: "admit_request ?ri echo_handler sample_publisher e c = Inr (''amq.gen-a'', 3, None, [7])" for c
    using reads late sample_request_parts(1)
    by (simp add: admit_request_def validated_reply_to_def judge_deadline_def read_deadline_def ri sample_publisher_def)
  obtain r where r: "encode_ok_reply ?ri echo_handler 9 3 [7] = Inr r"
    by (simp add: encode_ok_reply_def envelope_new_def echo_handler_def Let_def)
  have "rh_handle echo_handler [7] x = HandlerOk [7]" for x by (simp add: echo_handler_def)
  then have served: "respond ?ri echo_handler sample_publisher e sample_handler_context sample_responder_counters
      = (DispatchDone (Inr Replied), sample_responder_counters, [InvokeHandler [7] sample_request_context, PublishReply ''amq.gen-a'' r])"
    using adm r reads(4)
    by (simp add: respond_def request_context_new_def run_and_reply_def deliver_reply_def sample_request_context_def
        sample_publisher_def)
  let ?g = "snd (register 3 ''Pong'' (registry_new 2))"
  let ?s = "\<lparr>sl_expectation = ''Pong'', sl_sender = 0, sl_last_rejection = None, sl_rejected_deliveries = 0\<rparr>"
  have types: "rq_reply_type sample_request_value = ''Pong''" "rh_reply_type echo_handler = ''Pong''"
    "rq_decode_reply sample_request_value = Inr"
    by (simp_all add: sample_request_value_def echo_handler_def)
  have slot: "map_of (rg_slots ?g) 3 = Some ?s"
    by (simp add: register_def registry_new_def registry_len_def Let_def)
  have "decode_reply read_counted_error ''Pong'' Inr r 3 = Inr [7]"
    using rpc_end_to_end [of ?ri read_counted_error echo_handler sample_request_value 4 40 40 9 3 "from_secs 4000"
        "''amq.gen-a''" e ?g ?s sample_publisher sample_handler_context sample_responder_counters] served e slot types ri
      decimal_codec_ok counted_error_codec echo_codec
    by (auto simp: sample_responder_inputs_def Let_def echo_handler_def)
  then show ?thesis using e served by blast
qed

end
