(* ===== verification/Mediator.thy ===== *)
theory Mediator
  imports Hex_Core
begin

text \<open>
  The in-process mediator (\<open>crates/hexeract-mediator/src/{lib,erased,terminal}.rs\<close>) and the two
  built-in middlewares (\<open>crates/hexeract-middleware/src/{tracing,timeout}.rs\<close>).

  A dispatch runs in the world \<open>bool \<times> 'w\<close>: its own cancellation token, fresh for every dispatch
  and shared by the contexts its middlewares pass on,
  and what it shares with the rest of the process. The handlers' own code is an argument. The state
  of a terminal is its parked payload and, as a ghost, the calls of its handler. The fan-out of a
  notification polls its dispatches together in an unspecified interleaving: what each of them
  observes of the shared world is an argument.
\<close>

section \<open>Type-erased handlers\<close>


type_synonym ('w, 'v) erased_handler =
  "'v boxed \<Rightarrow> handler_context \<Rightarrow> bool \<times> 'w \<Rightarrow> 'v boxed ending \<times> bool \<times> 'w"


section \<open>Terminals\<close>

record 'v parked =
  pk_payload :: "'v boxed option"
  pk_calls :: "('v boxed \<times> handler_context) list"

definition parked_new :: "'v boxed \<Rightarrow> 'v parked" where
  "parked_new payload = \<lparr>pk_payload = Some payload, pk_calls = []\<rparr>"

definition terminal_dispatch ::
  "string \<Rightarrow> ('w, 'v) erased_handler \<Rightarrow> (bool \<times> 'w, 'v parked, 'v) terminal"
where
  "terminal_dispatch kind handler env ctx st =
     (case pk_payload (fst st) of
        None \<Rightarrow> (Ended (Inl (DispatchError (kind @ '' terminal called twice''))), st)
      | Some payload \<Rightarrow>
          (let (r, w) = handler payload ctx (snd st)
           in (r, \<lparr>pk_payload = None, pk_calls = pk_calls (fst st) @ [(payload, ctx)]\<rparr>, w)))"

section \<open>The builder\<close>

datatype mediator_build_error = DuplicateHandler string

record ('w, 'v) mediator_builder =
  mb_command_handlers :: "nat \<rightharpoonup> ('w, 'v) erased_handler"
  mb_query_handlers :: "nat \<rightharpoonup> ('w, 'v) erased_handler"
  mb_notification_handlers :: "nat \<rightharpoonup> (string \<times> ('w, 'v) erased_handler) list"
  mb_registered_command_types :: "string set"
  mb_registered_query_types :: "string set"
  mb_registered_notification_types :: "string set"
  mb_middlewares :: "(bool \<times> 'w, 'v) middleware list"
  mb_errors :: "mediator_build_error list"

definition builder_new :: "('w, 'v) mediator_builder" where
  "builder_new =
     \<lparr>mb_command_handlers = Map.empty, mb_query_handlers = Map.empty, mb_notification_handlers = Map.empty,
      mb_registered_command_types = {}, mb_registered_query_types = {}, mb_registered_notification_types = {},
      mb_middlewares = [], mb_errors = []\<rparr>"

definition register_command_handler ::
  "type_tag \<Rightarrow> ('w, 'v) erased_handler \<Rightarrow> ('w, 'v) mediator_builder \<Rightarrow> ('w, 'v) mediator_builder"
where
  "register_command_handler t h b =
     (case mb_command_handlers b (tt_id t) of
        None \<Rightarrow> b\<lparr>mb_command_handlers := (mb_command_handlers b)(tt_id t \<mapsto> h),
                 mb_registered_command_types := insert (tt_name t) (mb_registered_command_types b)\<rparr>
      | Some _ \<Rightarrow> b\<lparr>mb_errors := mb_errors b @ [DuplicateHandler (tt_name t)]\<rparr>)"

definition register_query_handler ::
  "type_tag \<Rightarrow> ('w, 'v) erased_handler \<Rightarrow> ('w, 'v) mediator_builder \<Rightarrow> ('w, 'v) mediator_builder"
where
  "register_query_handler t h b =
     (case mb_query_handlers b (tt_id t) of
        None \<Rightarrow> b\<lparr>mb_query_handlers := (mb_query_handlers b)(tt_id t \<mapsto> h),
                 mb_registered_query_types := insert (tt_name t) (mb_registered_query_types b)\<rparr>
      | Some _ \<Rightarrow> b\<lparr>mb_errors := mb_errors b @ [DuplicateHandler (tt_name t)]\<rparr>)"

definition register_notification_handler ::
  "type_tag \<Rightarrow> string \<Rightarrow> ('w, 'v) erased_handler \<Rightarrow> ('w, 'v) mediator_builder \<Rightarrow> ('w, 'v) mediator_builder"
where
  "register_notification_handler t handler_name h b =
     b\<lparr>mb_notification_handlers := (mb_notification_handlers b)(tt_id t \<mapsto>
         (case mb_notification_handlers b (tt_id t) of None \<Rightarrow> [] | Some hs \<Rightarrow> hs) @ [(handler_name, h)]),
       mb_registered_notification_types := insert (tt_name t) (mb_registered_notification_types b)\<rparr>"

definition with_middleware ::
  "(bool \<times> 'w, 'v) middleware \<Rightarrow> ('w, 'v) mediator_builder \<Rightarrow> ('w, 'v) mediator_builder"
where
  "with_middleware m b = b\<lparr>mb_middlewares := mb_middlewares b @ [m]\<rparr>"

text \<open>The registrations collected at link time are an argument, in their iteration order.\<close>

definition verify_handlers ::
  "handler_registration list \<Rightarrow> ('w, 'v) mediator_builder \<Rightarrow> (handler_registration list, unit) result"
where
  "verify_handlers inventory b =
     (let missing = filter (\<lambda>reg. hr_message_type_name reg \<notin>
            (case hr_kind reg of
               CommandKind \<Rightarrow> mb_registered_command_types b
             | QueryKind \<Rightarrow> mb_registered_query_types b
             | NotificationKind \<Rightarrow> mb_registered_notification_types b)) inventory
      in if missing = [] then Inr () else Inl missing)"

record ('w, 'v) mediator =
  md_command_handlers :: "nat \<rightharpoonup> ('w, 'v) erased_handler"
  md_query_handlers :: "nat \<rightharpoonup> ('w, 'v) erased_handler"
  md_notification_handlers :: "nat \<rightharpoonup> (string \<times> ('w, 'v) erased_handler) list"
  md_middlewares :: "(bool \<times> 'w, 'v) middleware list"

definition mediator_build :: "('w, 'v) mediator_builder \<Rightarrow> (mediator_build_error, ('w, 'v) mediator) result" where
  "mediator_build b =
     (case mb_errors b of
        err # _ \<Rightarrow> Inl err
      | [] \<Rightarrow> Inr \<lparr>md_command_handlers = mb_command_handlers b, md_query_handlers = mb_query_handlers b,
                   md_notification_handlers = mb_notification_handlers b, md_middlewares = mb_middlewares b\<rparr>)"

section \<open>Dispatch\<close>

text \<open>From the handler to the outcome of the pipeline, with the terminal's final state.\<close>

definition run_pipeline ::
  "(bool \<times> 'w, 'v) middleware list \<Rightarrow> string \<Rightarrow> ('w, 'v) erased_handler \<Rightarrow> type_tag \<Rightarrow> uuid \<Rightarrow> uuid \<Rightarrow> 'v \<Rightarrow> 'w \<Rightarrow>
   'v boxed ending \<times> 'v parked \<times> bool \<times> 'w"
where
  "run_pipeline middlewares kind handler msg_type message_id corr message w =
     next_run (\<lambda>_. fst) middlewares 0 (terminal_dispatch kind handler) (envelope_for (tt_name msg_type) message_id corr)
       (handler_context_new message_id corr) (parked_new (box_as msg_type message), (False, w))"

definition typed_outcome :: "type_tag \<Rightarrow> 'v boxed ending \<Rightarrow> 'v ending" where
  "typed_outcome out_type r =
     (case r of
        Ended (Inr output) \<Rightarrow>
          Ended (ok_or (downcast out_type output) (DowncastFailed (tt_name out_type)))
      | Ended (Inl err) \<Rightarrow> Ended (Inl err)
      | Unwound p \<Rightarrow> Unwound p)"


definition query_with_correlation_id ::
  "('w, 'v) mediator \<Rightarrow> type_tag \<Rightarrow> type_tag \<Rightarrow> uuid \<Rightarrow> 'v \<Rightarrow> uuid \<Rightarrow> 'w \<Rightarrow> 'v ending \<times> 'w"
where
  "query_with_correlation_id m msg_type out_type message_id query corr w =
     (case md_query_handlers m (tt_id msg_type) of
        None \<Rightarrow> (Ended (Inl (HandlerNotFound (tt_name msg_type))), w)
      | Some handler \<Rightarrow>
          (let (r, _, _, w') = run_pipeline (md_middlewares m) ''query'' handler msg_type message_id corr query w
           in (typed_outcome out_type r, w')))"

definition mediator_panic_message :: "panic_payload \<Rightarrow> string" where
  "mediator_panic_message p =
     (case p of PanicStr msg \<Rightarrow> msg | PanicString msg \<Rightarrow> msg | PanicOther \<Rightarrow> ''unknown panic payload'')"

text \<open>One dispatch of a fan-out, with the panic caught around the whole chain.\<close>

definition notify_handler ::
  "('w, 'v) mediator \<Rightarrow> type_tag \<Rightarrow> uuid \<Rightarrow> uuid \<Rightarrow> 'v \<Rightarrow> 'w \<Rightarrow> string \<times> ('w, 'v) erased_handler \<Rightarrow>
   (string \<times> hexeract_error, unit) result"
where
  "notify_handler m msg_type message_id corr notification w handler =
     (case fst (run_pipeline (md_middlewares m) ''notification'' (snd handler) msg_type message_id corr notification w) of
        Ended (Inr _) \<Rightarrow> Inr ()
      | Ended (Inl err) \<Rightarrow> Inl (fst handler, err)
      | Unwound p \<Rightarrow> Inl (fst handler, HandlerPanicked (mediator_panic_message p)))"

fun failures_of :: "('e, unit) result list \<Rightarrow> 'e list" where
  "failures_of [] = []"
| "failures_of (Inr _ # rs) = failures_of rs"
| "failures_of (Inl e # rs) = e # failures_of rs"

definition publish_with_correlation_id ::
  "('w, 'v) mediator \<Rightarrow> type_tag \<Rightarrow> (nat \<Rightarrow> uuid) \<Rightarrow> 'v \<Rightarrow> uuid \<Rightarrow> (nat \<Rightarrow> 'w) \<Rightarrow> (hexeract_error, unit) result"
where
  "publish_with_correlation_id m msg_type message_ids notification corr views =
     (case md_notification_handlers m (tt_id msg_type) of
        None \<Rightarrow> Inr ()
      | Some handlers \<Rightarrow>
          if handlers = [] then Inr ()
          else let failures = failures_of (map (\<lambda>(i, h). notify_handler m msg_type (message_ids i) corr notification (views i) h)
                     (enumerate 0 handlers))
               in if failures = [] then Inr ()
                  else Inl (PublishFailed (tt_name msg_type) (length handlers) failures))"

section \<open>Built-in middlewares\<close>



text \<open>
  \<open>TimeoutMiddleware\<close> over the instants of its inner future: \<open>done\<close> when it would complete if left
  alone, \<open>done_cancelled\<close> when it completes once its token has fired at the deadline. The answer, the
  token, and the last instant at which the inner future is polled.
\<close>

definition default_timeout_grace :: duration where
  "default_timeout_grace = from_secs 1"

definition timeout_execute ::
  "duration \<Rightarrow> duration \<Rightarrow> string \<Rightarrow> nat \<Rightarrow> (hexeract_error, 'a) result \<Rightarrow> nat \<Rightarrow>
   (hexeract_error, 'a) result \<times> bool \<times> nat"
where
  "timeout_execute limit grace type_name done result done_cancelled =
     (if done \<le> limit then (result, False, done)
      else (Inl (DispatchTimedOut type_name limit), True,
            if grace = 0 then limit else min (max limit done_cancelled) (limit + grace)))"

section \<open>Lemmas\<close>

definition parked_inv :: "'v boxed \<Rightarrow> 'v parked \<Rightarrow> bool" where
  "parked_inv payload pk \<longleftrightarrow>
     pk = \<lparr>pk_payload = Some payload, pk_calls = []\<rparr> \<or> (\<exists>ctx. pk = \<lparr>pk_payload = None, pk_calls = [(payload, ctx)]\<rparr>)"

lemma terminal_keeps_parked:
  "terminal_dispatch kind handler env ctx st = (r, st') \<Longrightarrow> parked_inv payload (fst st) \<Longrightarrow> parked_inv payload (fst st')"
  by (auto simp: terminal_dispatch_def parked_inv_def split: option.splits prod.splits)

lemma parked_new_inv: "parked_inv payload (parked_new payload)"
  by (simp add: parked_inv_def parked_new_def)









section \<open>Registrations\<close>

datatype ('w, 'v) registration =
    RegCommand type_tag "('w, 'v) erased_handler"
  | RegQuery type_tag "('w, 'v) erased_handler"
  | RegNotification type_tag string "('w, 'v) erased_handler"
  | RegMiddleware "(bool \<times> 'w, 'v) middleware"

fun register_one :: "('w, 'v) registration \<Rightarrow> ('w, 'v) mediator_builder \<Rightarrow> ('w, 'v) mediator_builder" where
  "register_one (RegCommand t h) = register_command_handler t h"
| "register_one (RegQuery t h) = register_query_handler t h"
| "register_one (RegNotification t name h) = register_notification_handler t name h"
| "register_one (RegMiddleware m) = with_middleware m"

abbreviation builder_of :: "('w, 'v) registration list \<Rightarrow> ('w, 'v) mediator_builder" where
  "builder_of regs \<equiv> fold register_one regs builder_new"

definition commands_of :: "('w, 'v) registration list \<Rightarrow> nat \<Rightarrow> ('w, 'v) erased_handler list" where
  "commands_of regs i = concat (map (\<lambda>r. case r of RegCommand t h \<Rightarrow> if tt_id t = i then [h] else [] | _ \<Rightarrow> []) regs)"

definition queries_of :: "('w, 'v) registration list \<Rightarrow> nat \<Rightarrow> ('w, 'v) erased_handler list" where
  "queries_of regs i = concat (map (\<lambda>r. case r of RegQuery t h \<Rightarrow> if tt_id t = i then [h] else [] | _ \<Rightarrow> []) regs)"

definition notifications_of :: "('w, 'v) registration list \<Rightarrow> nat \<Rightarrow> (string \<times> ('w, 'v) erased_handler) list" where
  "notifications_of regs i =
     concat (map (\<lambda>r. case r of RegNotification t n h \<Rightarrow> if tt_id t = i then [(n, h)] else [] | _ \<Rightarrow> []) regs)"

definition middlewares_of :: "('w, 'v) registration list \<Rightarrow> (bool \<times> 'w, 'v) middleware list" where
  "middlewares_of regs = concat (map (\<lambda>r. case r of RegMiddleware m \<Rightarrow> [m] | _ \<Rightarrow> []) regs)"

lemma builder_of_snoc: "builder_of (regs @ [r]) = register_one r (builder_of regs)"
  by simp

lemma head_snoc: "(case xs @ [y] of [] \<Rightarrow> None | x # _ \<Rightarrow> Some x) = (case xs of [] \<Rightarrow> Some y | x # _ \<Rightarrow> Some x)"
  by (cases xs) auto

lemma builder_tables:
  "mb_command_handlers (builder_of regs) i = (case commands_of regs i of [] \<Rightarrow> None | h # _ \<Rightarrow> Some h)
   \<and> mb_query_handlers (builder_of regs) i = (case queries_of regs i of [] \<Rightarrow> None | h # _ \<Rightarrow> Some h)
   \<and> mb_notification_handlers (builder_of regs) i = (if notifications_of regs i = [] then None else Some (notifications_of regs i))
   \<and> mb_middlewares (builder_of regs) = middlewares_of regs
   \<and> (mb_errors (builder_of regs) = [] \<longleftrightarrow> (\<forall>j. length (commands_of regs j) \<le> 1 \<and> length (queries_of regs j) \<le> 1))"
proof (induction regs arbitrary: i rule: rev_induct)
  case Nil
  then show ?case
    by (simp add: builder_new_def commands_of_def queries_of_def notifications_of_def middlewares_of_def)
next
  case (snoc r regs)
  note IH = snoc [THEN conjunct1] snoc [THEN conjunct2, THEN conjunct1] snoc [THEN conjunct2, THEN conjunct2, THEN conjunct1]
    snoc [THEN conjunct2, THEN conjunct2, THEN conjunct2, THEN conjunct1]
    snoc [THEN conjunct2, THEN conjunct2, THEN conjunct2, THEN conjunct2]
  note defs = commands_of_def queries_of_def notifications_of_def middlewares_of_def
  show ?case
  proof (cases r)
    case (RegNotification t n h)
    have same: "commands_of (regs @ [r]) = commands_of regs" "queries_of (regs @ [r]) = queries_of regs"
      "middlewares_of (regs @ [r]) = middlewares_of regs"
      "notifications_of (regs @ [r]) i = notifications_of regs i @ (if tt_id t = i then [(n, h)] else [])"
      using RegNotification by (auto simp: defs fun_eq_iff)
    show ?thesis
      unfolding builder_of_snoc same using IH RegNotification
      by (auto simp: register_notification_handler_def)
  next
    case (RegMiddleware m)
    have same: "commands_of (regs @ [r]) = commands_of regs" "queries_of (regs @ [r]) = queries_of regs"
      "middlewares_of (regs @ [r]) = middlewares_of regs @ [m]" "notifications_of (regs @ [r]) = notifications_of regs"
      using RegMiddleware by (auto simp: defs fun_eq_iff)
    show ?thesis
      unfolding builder_of_snoc same using IH RegMiddleware by (simp add: with_middleware_def)
  next
    case (RegCommand t h)
    have same: "queries_of (regs @ [r]) = queries_of regs"
      "middlewares_of (regs @ [r]) = middlewares_of regs" "notifications_of (regs @ [r]) = notifications_of regs"
      "commands_of (regs @ [r]) j = commands_of regs j @ (if tt_id t = j then [h] else [])" for j
      using RegCommand by (auto simp: defs fun_eq_iff)
    show ?thesis
    proof (cases "commands_of regs (tt_id t)")
      case Nil
      then have "mb_command_handlers (builder_of regs) (tt_id t) = None" using IH(1) by simp
      then show ?thesis
        unfolding builder_of_snoc same using IH RegCommand Nil by (auto simp: register_command_handler_def)
    next
      case (Cons h' hs)
      then have "mb_command_handlers (builder_of regs) (tt_id t) = Some h'" using IH(1) by simp
      then have b: "builder_of (regs @ [r]) =
          (builder_of regs)\<lparr>mb_errors := mb_errors (builder_of regs) @ [DuplicateHandler (tt_name t)]\<rparr>"
        using RegCommand by (simp add: register_command_handler_def)
      have "length (commands_of (regs @ [r]) (tt_id t)) > 1" using Cons by (simp add: same)
      then have twice: "\<not> (\<forall>j. length (commands_of (regs @ [r]) j) \<le> 1 \<and> length (queries_of (regs @ [r]) j) \<le> 1)"
        by (metis not_le)
      have head: "(case commands_of (regs @ [r]) i of [] \<Rightarrow> None | h # _ \<Rightarrow> Some h)
          = (case commands_of regs i of [] \<Rightarrow> None | h # _ \<Rightarrow> Some h)"
        using Cons by (cases "tt_id t = i") (simp_all add: same)
      show ?thesis
        unfolding head b using IH twice by (simp add: same)
    qed
  next
    case (RegQuery t h)
    have same: "commands_of (regs @ [r]) = commands_of regs"
      "middlewares_of (regs @ [r]) = middlewares_of regs" "notifications_of (regs @ [r]) = notifications_of regs"
      "queries_of (regs @ [r]) j = queries_of regs j @ (if tt_id t = j then [h] else [])" for j
      using RegQuery by (auto simp: defs fun_eq_iff)
    show ?thesis
    proof (cases "queries_of regs (tt_id t)")
      case Nil
      then have "mb_query_handlers (builder_of regs) (tt_id t) = None" using IH(2) by simp
      then show ?thesis
        unfolding builder_of_snoc same using IH RegQuery Nil by (auto simp: register_query_handler_def)
    next
      case (Cons h' hs)
      then have "mb_query_handlers (builder_of regs) (tt_id t) = Some h'" using IH(2) by simp
      then have b: "builder_of (regs @ [r]) =
          (builder_of regs)\<lparr>mb_errors := mb_errors (builder_of regs) @ [DuplicateHandler (tt_name t)]\<rparr>"
        using RegQuery by (simp add: register_query_handler_def)
      have "length (queries_of (regs @ [r]) (tt_id t)) > 1" using Cons by (simp add: same)
      then have twice: "\<not> (\<forall>j. length (commands_of (regs @ [r]) j) \<le> 1 \<and> length (queries_of (regs @ [r]) j) \<le> 1)"
        by (metis not_le)
      have head: "(case queries_of (regs @ [r]) i of [] \<Rightarrow> None | h # _ \<Rightarrow> Some h)
          = (case queries_of regs i of [] \<Rightarrow> None | h # _ \<Rightarrow> Some h)"
        using Cons by (cases "tt_id t = i") (simp_all add: same)
      show ?thesis
        unfolding head b using IH twice by (simp add: same)
    qed
  qed
qed

section \<open>Properties\<close>

text \<open>
  C17. A dispatch calls its handler at most once, with the very message that was sent, whatever the
  middlewares do, including one that runs the rest of the pipeline several times or under another
  context; and without middlewares it calls it exactly once, with the context of the dispatch.
\<close>

theorem handler_called_at_most_once:
  "map fst (pk_calls (fst (snd (run_pipeline middlewares kind h t message_id corr message w))))
      \<in> {[], [box_as t message]}
   \<and> pk_calls (fst (snd (run_pipeline [] kind h t message_id corr message w)))
      = [(box_as t message, handler_context_new message_id corr)]"
proof -
  obtain r pk w' where run: "run_pipeline middlewares kind h t message_id corr message w = (r, pk, w')"
    by (rule prod_cases3)
  then have "parked_inv (box_as t message) pk"
    using next_run_keeps [where I = "parked_inv (box_as t message)",
        OF terminal_keeps_parked run [unfolded run_pipeline_def]] by (simp add: parked_new_inv)
  moreover have "run_pipeline [] kind h t message_id corr message w =
      terminal_dispatch kind h (envelope_for (tt_name t) message_id corr) (handler_context_new message_id corr)
        (parked_new (box_as t message), (False, w))"
    unfolding run_pipeline_def by (subst next_run.simps) simp
  ultimately show ?thesis
    unfolding run by (auto simp: parked_inv_def terminal_dispatch_def parked_new_def split: prod.splits)
qed






text \<open>
  What a built mediator dispatches to. Building succeeds exactly when no command and no query
  type was registered twice; then every command and query type has the one handler that was
  registered for it, the middlewares wrap in registration order, and a published notification reaches
  every handler registered for it: it succeeds when all of them do, and otherwise reports, in
  registration order, each handler that failed or panicked and how many there are in all.
\<close>

theorem built_registry:
  "case mediator_build (builder_of regs) of
     Inl _ \<Rightarrow> \<exists>j. length (commands_of regs j) > 1 \<or> length (queries_of regs j) > 1
   | Inr m \<Rightarrow> (\<forall>j. length (commands_of regs j) \<le> 1 \<and> length (queries_of regs j) \<le> 1
         \<and> md_command_handlers m j = (case commands_of regs j of [] \<Rightarrow> None | h # _ \<Rightarrow> Some h)
         \<and> md_query_handlers m j = (case queries_of regs j of [] \<Rightarrow> None | h # _ \<Rightarrow> Some h))
       \<and> md_middlewares m = middlewares_of regs
       \<and> publish_with_correlation_id m t ids v corr views =
           (let hs = notifications_of regs (tt_id t);
                failed = failures_of (map (\<lambda>(i, h). notify_handler m t (ids i) corr v (views i) h) (enumerate 0 hs))
            in if failed = [] then Inr () else Inl (PublishFailed (tt_name t) (length hs) failed))"
proof (cases "mb_errors (builder_of regs)")
  case Nil
  then show ?thesis
    using builder_tables [of regs] by (simp add: mediator_build_def publish_with_correlation_id_def Let_def)
next
  case (Cons err errs)
  then show ?thesis
    using builder_tables [of regs] by (auto simp: mediator_build_def not_le)
qed

end
