(* ===== verification/Outbox_Worker.thy ===== *)
theory Outbox_Worker
  imports Outbox_Sql
begin

text \<open>
  The outbox worker (\<open>OutboxWorker\<close> in \<open>crates/hexeract-outbox/src/worker.rs\<close>): dispatch under the
  timeout, the claim and settle transactions, a poll cycle and the polling loop, over any store. What
  the storage contract promises is the locale \<open>fenced_outbox_store\<close>; what a settlement then does is
  proved in it once, and the SQL stores of all dialects are an instance.
\<close>

section \<open>Dispatch\<close>

text \<open>
  A dispatch under the timer; \<open>None\<close> when the handler's panic unwinds through the worker. The message
  and correlation ids are the event's, on every attempt.
\<close>

definition outbox_dispatch ::
  "outbox_worker_config \<Rightarrow> (string \<rightharpoonup> 'w outbox_handler) \<Rightarrow> outbox_envelope \<Rightarrow> 'w \<Rightarrow>
   (outbox_error, unit) result option \<times> 'w"
where
  "outbox_dispatch c handlers envelope w =
     (case handlers (oe_event_type envelope) of
        None \<Rightarrow> (Some (Inl (OutboxMissingHandler (oe_event_type envelope))), w)
      | Some handler \<Rightarrow>
          (let ctx = handler_context_new (oe_event_id envelope) (oe_event_id envelope);
               late = Some (Inl (OutboxDispatchTimeout (oe_event_id envelope) (oe_event_type envelope) (owc_dispatch_timeout c)))
           in case handler envelope ctx w of
                (Finishes d r, w') \<Rightarrow> (if d \<le> owc_dispatch_timeout c then Some r else late, w')
              | (Hangs, w') \<Rightarrow> (late, w')
              | (Panics d, w') \<Rightarrow> (if d \<le> owc_dispatch_timeout c then None else late, w')))"

section \<open>The claim transaction\<close>

definition claim_batch ::
  "outbox_worker_config \<Rightarrow> 'db outbox_store \<Rightarrow> tx_fate \<Rightarrow> outbox_envelope list \<Rightarrow> 'db \<Rightarrow>
   (outbox_error, outbox_envelope list) result \<times> 'db"
where
  "claim_batch c store fate batch db =
     (if batch = [] then tx_commit fate db db []
      else let claims = map (\<lambda>e. (oe_event_id e, oe_attempts e)) batch
        in case os_claim store claims (outbox_lease_for c (length claims)) db of
             Inl err \<Rightarrow> (Inl err, db)
           | Inr (obtained, db') \<Rightarrow> tx_commit fate db db' (filter (\<lambda>e. oe_event_id e \<in> set obtained) batch))"

definition claim_phase ::
  "outbox_worker_config \<Rightarrow> 'db outbox_store \<Rightarrow> tx_fate \<Rightarrow> 'db \<Rightarrow> (outbox_error, outbox_envelope list) result \<times> 'db"
where
  "claim_phase c store fate db =
     (case os_poll store (owc_batch_size c) (owc_max_attempts c) db of
        Inl err \<Rightarrow> (Inl err, db)
      | Inr batch \<Rightarrow> claim_batch c store fate batch db)"

section \<open>The settle transaction\<close>

definition settle_delivered ::
  "'db outbox_store \<Rightarrow> tx_fate \<Rightarrow> outbox_envelope \<Rightarrow> 'db \<Rightarrow> (outbox_error, unit) result \<times> 'db"
where
  "settle_delivered store fate envelope db =
     (case os_mark_delivered store (oe_event_id envelope) (oe_attempts envelope + 1) db of
        Inl err \<Rightarrow> (Inl err, db)
      | Inr (applied, db') \<Rightarrow> tx_commit fate db db' ())"

definition settle_failed ::
  "outbox_worker_config \<Rightarrow> 'db outbox_store \<Rightarrow> (outbox_error \<Rightarrow> string) \<Rightarrow> (nat \<Rightarrow> nat) \<Rightarrow> tx_fate \<Rightarrow>
   outbox_envelope \<Rightarrow> outbox_error \<Rightarrow> 'db \<Rightarrow> (outbox_error, unit) result \<times> 'db"
where
  "settle_failed c store display draw fate envelope err db =
     (let event_id = oe_event_id envelope; claimed = oe_attempts envelope + 1; message = display err;
          retry_in = outbox_next_retry_delay draw c (oe_attempts envelope)
      in case os_mark_failed store event_id message retry_in claimed db of
           Inl e \<Rightarrow> (Inl e, db)
         | Inr (recorded, db') \<Rightarrow>
             if recorded \<and> owc_max_attempts c \<le> claimed
             then case os_mark_dead_lettered store event_id message claimed db' of
                    Inl e \<Rightarrow> (Inl e, db)
                  | Inr (moved, db'') \<Rightarrow> tx_commit fate db db'' ()
             else tx_commit fate db db' ())"

definition outbox_settle ::
  "outbox_worker_config \<Rightarrow> 'db outbox_store \<Rightarrow> (outbox_error \<Rightarrow> string) \<Rightarrow> (nat \<Rightarrow> nat) \<Rightarrow> tx_fate \<Rightarrow>
   outbox_envelope \<Rightarrow> (outbox_error, unit) result \<Rightarrow> 'db \<Rightarrow> (outbox_error, unit) result \<times> 'db"
where
  "outbox_settle c store display draw fate envelope outcome db =
     (case outcome of
        Inr _ \<Rightarrow> settle_delivered store fate envelope db
      | Inl err \<Rightarrow> settle_failed c store display draw fate envelope err db)"

definition dispatch_and_settle ::
  "outbox_worker_config \<Rightarrow> 'db outbox_store \<Rightarrow> (outbox_error \<Rightarrow> string) \<Rightarrow> (string \<rightharpoonup> 'w outbox_handler) \<Rightarrow>
   (nat \<Rightarrow> nat) \<times> tx_fate \<Rightarrow> outbox_envelope \<Rightarrow> 'db \<times> 'w \<Rightarrow> (outbox_error, unit) result option \<times> 'db \<times> 'w"
where
  "dispatch_and_settle c store display handlers script envelope st =
     (case outbox_dispatch c handlers envelope (snd st) of
        (None, w) \<Rightarrow> (None, fst st, w)
      | (Some outcome, w) \<Rightarrow>
          (let (r, db) = outbox_settle c store display (fst script) (snd script) envelope outcome (fst st)
           in (Some r, db, w)))"

section \<open>The polling loop\<close>

text \<open>Phase 2: an envelope whose settlement fails does not stop the others; a panic does.\<close>

fun dispatch_all ::
  "outbox_worker_config \<Rightarrow> 'db outbox_store \<Rightarrow> (outbox_error \<Rightarrow> string) \<Rightarrow> (string \<rightharpoonup> 'w outbox_handler) \<Rightarrow>
   (nat \<Rightarrow> (nat \<Rightarrow> nat) \<times> tx_fate) \<Rightarrow> outbox_envelope list \<Rightarrow> 'db \<times> 'w \<Rightarrow> bool \<times> 'db \<times> 'w"
where
  "dispatch_all c store display handlers scripts [] st = (True, st)"
| "dispatch_all c store display handlers scripts (e # es) st =
     (case dispatch_and_settle c store display handlers (scripts 0) e st of
        (None, st') \<Rightarrow> (False, st')
      | (Some _, st') \<Rightarrow> dispatch_all c store display handlers (scripts \<circ> Suc) es st')"

text \<open>\<open>None\<close> when a handler panicked.\<close>

definition outbox_poll_cycle ::
  "outbox_worker_config \<Rightarrow> 'db outbox_store \<Rightarrow> (outbox_error \<Rightarrow> string) \<Rightarrow> (string \<rightharpoonup> 'w outbox_handler) \<Rightarrow>
   tx_fate \<Rightarrow> (nat \<Rightarrow> (nat \<Rightarrow> nat) \<times> tx_fate) \<Rightarrow> 'db \<times> 'w \<Rightarrow> (outbox_error, nat) result option \<times> 'db \<times> 'w"
where
  "outbox_poll_cycle c store display handlers fate scripts st =
     (case claim_phase c store fate (fst st) of
        (Inl err, db) \<Rightarrow> (Some (Inl err), db, snd st)
      | (Inr envelopes, db) \<Rightarrow>
          (let (alive, st') = dispatch_all c store display handlers scripts envelopes (db, snd st)
           in (if alive then Some (Inr (length envelopes)) else None, st')))"

definition outbox_sleep_for :: "outbox_worker_config \<Rightarrow> (outbox_error, nat) result \<Rightarrow> duration option" where
  "outbox_sleep_for c r =
     (case r of
        Inr n \<Rightarrow>
          if n = 0 then Some (owc_poll_interval c)
          else if owc_min_cycle_delay c = 0 then None else Some (owc_min_cycle_delay c)
      | Inl _ \<Rightarrow> Some (owc_poll_interval c))"

text \<open>
  The loop over a list of cycles, each with whether the token is cancelled before the cycle and
  during the sleep that follows it. The sleeps are returned; an empty list is a worker still running.
\<close>

record outbox_cycle =
  oc_cancelled :: bool
  oc_fate :: tx_fate
  oc_scripts :: "nat \<Rightarrow> (nat \<Rightarrow> nat) \<times> tx_fate"
  oc_cancelled_asleep :: bool

datatype worker_end = StillRunning | StoppedOk | StoppedByPanic

fun outbox_run ::
  "outbox_worker_config \<Rightarrow> 'db outbox_store \<Rightarrow> (outbox_error \<Rightarrow> string) \<Rightarrow> (string \<rightharpoonup> 'w outbox_handler) \<Rightarrow>
   outbox_cycle list \<Rightarrow> 'db \<times> 'w \<Rightarrow> worker_end \<times> duration list \<times> 'db \<times> 'w"
where
  "outbox_run c store display handlers [] st = (StillRunning, [], st)"
| "outbox_run c store display handlers (cy # cys) st =
     (if oc_cancelled cy then (StoppedOk, [], st)
      else case outbox_poll_cycle c store display handlers (oc_fate cy) (oc_scripts cy) st of
        (None, st') \<Rightarrow> (StoppedByPanic, [], st')
      | (Some r, st') \<Rightarrow>
          (case outbox_sleep_for c r of
             None \<Rightarrow> outbox_run c store display handlers cys st'
           | Some delay \<Rightarrow>
               if oc_cancelled_asleep cy then (StoppedOk, [], st')
               else let (e, delays, st'') = outbox_run c store display handlers cys st' in (e, delay # delays, st'')))"

section \<open>The builder\<close>

record ('j, 't, 'w) outbox_worker_builder =
  obb_backend :: "('j, 't) sql_backend"
  obb_table_name :: string
  obb_dead_letter_table :: "string option"
  obb_handlers :: "string \<rightharpoonup> 'w outbox_handler"
  obb_config :: outbox_worker_config

definition outbox_builder_new :: "('j, 't) sql_backend \<Rightarrow> ('j, 't, 'w) outbox_worker_builder" where
  "outbox_builder_new b =
     \<lparr>obb_backend = b, obb_table_name = ''audit_outbox'', obb_dead_letter_table = None, obb_handlers = Map.empty,
      obb_config = outbox_worker_config_default\<rparr>"

datatype 'w outbox_setter =
    SetTableName string
  | SetDeadLetterTable string
  | RegisterHandler string "'w outbox_handler"
  | SetOutboxPollInterval duration
  | SetOutboxBatchSize usize
  | SetMaxAttempts u32
  | SetOutboxRetryBaseDelay duration
  | SetOutboxRetryMaxDelay duration
  | SetOutboxJitter bool
  | SetOutboxDispatchTimeout duration

fun outbox_builder_set ::
  "'w outbox_setter \<Rightarrow> ('j, 't, 'w) outbox_worker_builder \<Rightarrow> ('j, 't, 'w) outbox_worker_builder"
where
  "outbox_builder_set (SetTableName v) bld = bld\<lparr>obb_table_name := v\<rparr>"
| "outbox_builder_set (SetDeadLetterTable v) bld = bld\<lparr>obb_dead_letter_table := Some v\<rparr>"
| "outbox_builder_set (RegisterHandler t h) bld = bld\<lparr>obb_handlers := (obb_handlers bld)(t \<mapsto> h)\<rparr>"
| "outbox_builder_set (SetOutboxPollInterval v) bld = bld\<lparr>obb_config := (obb_config bld)\<lparr>owc_poll_interval := v\<rparr>\<rparr>"
| "outbox_builder_set (SetOutboxBatchSize v) bld = bld\<lparr>obb_config := (obb_config bld)\<lparr>owc_batch_size := v\<rparr>\<rparr>"
| "outbox_builder_set (SetMaxAttempts v) bld = bld\<lparr>obb_config := (obb_config bld)\<lparr>owc_max_attempts := v\<rparr>\<rparr>"
| "outbox_builder_set (SetOutboxRetryBaseDelay v) bld = bld\<lparr>obb_config := (obb_config bld)\<lparr>owc_retry_base_delay := v\<rparr>\<rparr>"
| "outbox_builder_set (SetOutboxRetryMaxDelay v) bld = bld\<lparr>obb_config := (obb_config bld)\<lparr>owc_retry_max_delay := v\<rparr>\<rparr>"
| "outbox_builder_set (SetOutboxJitter v) bld = bld\<lparr>obb_config := (obb_config bld)\<lparr>owc_jitter := v\<rparr>\<rparr>"
| "outbox_builder_set (SetOutboxDispatchTimeout v) bld = bld\<lparr>obb_config := (obb_config bld)\<lparr>owc_dispatch_timeout := v\<rparr>\<rparr>"

text \<open>The worker: its store, its handlers and its configuration.\<close>

definition outbox_builder_build ::
  "(string \<Rightarrow> string) \<Rightarrow> ('j, 't, 'w) outbox_worker_builder \<Rightarrow>
   (outbox_error, ('j, 't) sql_backend \<times> (string \<rightharpoonup> 'w outbox_handler) \<times> outbox_worker_config) result"
where
  "outbox_builder_build fc bld =
     rbind (sql_store_new fc (obb_backend bld) (obb_table_name bld)) (\<lambda>store.
       rbind (case obb_dead_letter_table bld of None \<Rightarrow> Inr store | Some dlq \<Rightarrow> sql_with_dead_letter fc dlq store) (\<lambda>store.
         Inr (store, obb_handlers bld, obb_config bld)))"

section \<open>The storage contract\<close>

text \<open>
  What \<open>OutboxStore\<close> promises of a store that takes leases: \<open>stored\<close> is the attempt counter of an
  event and whether it is delivered, over the states a store can be in.
\<close>

locale fenced_outbox_store =
  fixes store :: "'db outbox_store"
    and stored :: "'db \<Rightarrow> uuid \<Rightarrow> (int \<times> bool) option"
    and good :: "'db \<Rightarrow> bool"
  assumes claim_good: "good db \<Longrightarrow> os_claim store claims d db = Inr (ids, db') \<Longrightarrow> good db'"
    and claim_ids: "good db \<Longrightarrow> os_claim store claims d db = Inr (ids, db') \<Longrightarrow>
      i \<in> set ids \<longleftrightarrow> (\<exists>k dv. (i, k) \<in> set claims \<and> stored db i = Some (uint k, dv))"
    and claim_stored: "good db \<Longrightarrow> os_claim store claims d db = Inr (ids, db') \<Longrightarrow>
      stored db' i = (if i \<in> set ids then map_option (apfst (\<lambda>a. a + 1)) (stored db i) else stored db i)"
    and delivered_law: "good db \<Longrightarrow> os_mark_delivered store i k db = Inr (ok, db') \<Longrightarrow>
      good db' \<and> ok = (stored db i = Some (uint k, False))
      \<and> (if ok then stored db' = (stored db)(i \<mapsto> (uint k, True)) else db' = db)"
    and failed_law: "good db \<Longrightarrow> os_mark_failed store i m d k db = Inr (ok, db') \<Longrightarrow>
      good db' \<and> ok = (stored db i = Some (uint k, False)) \<and> (if ok then stored db' = stored db else db' = db)"
    and dead_law: "good db \<Longrightarrow> os_mark_dead_lettered store i m k db = Inr (ok, db') \<Longrightarrow>
      good db' \<and> (if stored db i = Some (uint k, False)
        then ok \<and> (stored db' = stored db \<or> stored db' = (stored db)(i := None)) else db' = db)"
begin

text \<open>A settlement without the lease changes nothing at all.\<close>

lemma settle_lost_changes_nothing:
  assumes "good db" and "stored db (oe_event_id e) \<noteq> Some (uint (oe_attempts e + 1), False)"
  shows "snd (outbox_settle c store display draw fate e outcome db) = db"
proof (cases outcome)
  case (Inr u)
  then show ?thesis
    using delivered_law [OF assms(1), of "oe_event_id e" "oe_attempts e + 1"] assms(2)
    by (auto simp: outbox_settle_def settle_delivered_def tx_commit_def split: sum.splits tx_fate.splits)
next
  case (Inl err)
  then show ?thesis
    using failed_law [OF assms(1), of "oe_event_id e"] assms(2)
    by (fastforce simp: outbox_settle_def settle_failed_def Let_def tx_commit_def split: sum.splits tx_fate.splits)
qed

text \<open>
  A settlement under the lease touches its own event only: a success ends as delivered, a failure
  keeps the event with its attempts, or removes it once its budget is spent.
\<close>

lemma settle_effect:
  assumes good: "good db" and db': "db' = snd (outbox_settle c store display draw fate e outcome db)"
  shows "good db' \<and> (db' = db \<or>
    stored db (oe_event_id e) = Some (uint (oe_attempts e + 1), False)
    \<and> (\<forall>j. j \<noteq> oe_event_id e \<longrightarrow> stored db' j = stored db j)
    \<and> (case outcome of
         Inr _ \<Rightarrow> stored db' (oe_event_id e) = Some (uint (oe_attempts e + 1), True)
       | Inl _ \<Rightarrow> stored db' (oe_event_id e) = Some (uint (oe_attempts e + 1), False)
           \<or> owc_max_attempts c \<le> oe_attempts e + 1 \<and> stored db' (oe_event_id e) = None))"
proof (cases "stored db (oe_event_id e) = Some (uint (oe_attempts e + 1), False)")
  case False
  then show ?thesis using settle_lost_changes_nothing [OF good False] good db' by simp
next
  case held: True
  show ?thesis
  proof (cases outcome)
    case (Inr u)
    show ?thesis
    proof (cases "os_mark_delivered store (oe_event_id e) (oe_attempts e + 1) db")
      case (Inr r)
      then show ?thesis
        using delivered_law [OF good, of "oe_event_id e" "oe_attempts e + 1" "fst r" "snd r"] held good
        by (cases r) (auto simp: db' \<open>outcome = Inr u\<close> outbox_settle_def settle_delivered_def tx_commit_def split: tx_fate.splits)
    qed (auto simp: db' Inr good outbox_settle_def settle_delivered_def)
  next
    case (Inl err)
    let ?k = "oe_attempts e + 1" and ?i = "oe_event_id e"
    let ?mf = "os_mark_failed store ?i (display err) (outbox_next_retry_delay draw c (oe_attempts e)) ?k db"
    show ?thesis
    proof (cases ?mf)
      case (Inr r)
      then obtain db1 where db1: "?mf = Inr (True, db1)" "good db1" "stored db1 = stored db"
        using failed_law [OF good, of ?i "display err" "outbox_next_retry_delay draw c (oe_attempts e)" ?k "fst r" "snd r"] held by (cases r) auto
      show ?thesis
      proof (cases "owc_max_attempts c \<le> ?k")
        case True
        show ?thesis
        proof (cases "os_mark_dead_lettered store ?i (display err) ?k db1")
          case (Inr q)
          then show ?thesis
            using dead_law [OF db1(2), of ?i "display err" ?k "fst q" "snd q"] held good db1 True
            by (cases q) (auto simp: db' \<open>outcome = Inl err\<close> outbox_settle_def settle_failed_def Let_def tx_commit_def
                split: tx_fate.splits)
        qed (use db1 True good in \<open>auto simp: db' \<open>outcome = Inl err\<close> outbox_settle_def settle_failed_def Let_def\<close>)
      next
        case False
        then show ?thesis
          using held good db1 by (auto simp: db' \<open>outcome = Inl err\<close> outbox_settle_def settle_failed_def Let_def tx_commit_def
              split: tx_fate.splits)
      qed
    qed (auto simp: db' Inl good outbox_settle_def settle_failed_def Let_def)
  qed
qed

end

section \<open>The SQL stores keep the contract\<close>

definition row_of :: "('j, 't) outbox_db \<Rightarrow> uuid \<Rightarrow> ('j, 't) outbox_row option" where
  "row_of db i = find (\<lambda>r. ow_event_id r = i) (db_main db)"

definition stored_state :: "('j, 't) outbox_db \<Rightarrow> uuid \<Rightarrow> (int \<times> bool) option" where
  "stored_state db i = map_option (\<lambda>r. (ow_attempts r, ow_delivered_at r \<noteq> None)) (row_of db i)"

lemma row_of_Some: "db_ok db \<Longrightarrow> row_of db i = Some r \<longleftrightarrow> r \<in> set (db_main db) \<and> ow_event_id r = i"
proof -
  have "distinct (map ow_event_id rs) \<Longrightarrow> find (\<lambda>r. ow_event_id r = i) rs = Some r \<longleftrightarrow> r \<in> set rs \<and> ow_event_id r = i" for rs
    by (induction rs) (auto simp: image_iff)
  then show "db_ok db \<Longrightarrow> ?thesis" by (simp add: db_ok_def row_of_def)
qed

lemma row_of_None: "row_of db i = None \<longleftrightarrow> (\<forall>r\<in>set (db_main db). ow_event_id r \<noteq> i)"
  by (auto simp: row_of_def find_None_iff)

lemma row_of_map:
  assumes "\<And>r. ow_event_id (f r) = ow_event_id r"
  shows "row_of (db\<lparr>db_main := map f (db_main db)\<rparr>) i = map_option f (row_of db i)"
proof -
  have "find (\<lambda>r. ow_event_id r = i) (map f rs) = map_option f (find (\<lambda>r. ow_event_id r = i) rs)" for rs
    by (induction rs) (auto simp: assms)
  then show ?thesis by (simp add: row_of_def)
qed

lemma db_ok_map:
  assumes "db_ok db" and "\<And>r. ow_event_id (f r) = ow_event_id r" and "\<And>r. ow_id (f r) = ow_id r"
    and "\<And>r. 0 \<le> ow_attempts r \<Longrightarrow> 0 \<le> ow_attempts (f r)"
  shows "db_ok (db\<lparr>db_main := map f (db_main db)\<rparr>)"
  using assms by (auto simp: db_ok_def comp_def)

lemma sql_claim_db_ok: "db_ok db \<Longrightarrow> sql_claim b claims d db = Inr (ids, db') \<Longrightarrow> db_ok db'"
  by (drule sql_claim_Inr(2)) (auto intro!: db_ok_map)

lemma update_fenced_held:
  assumes "db_ok db" and "\<And>r. ow_event_id (f r) = ow_event_id r" and "update_fenced i k f db = (held, db')"
  shows "held = (stored_state db i = Some (k, False))" and "\<not> held \<Longrightarrow> db' = db"
    and "row_of db' j = (if held \<and> j = i then map_option f (row_of db j) else row_of db j)"
proof -
  have held: "held \<longleftrightarrow> (\<exists>r\<in>set (db_main db). row_fenced i k r)"
    and db': "db' = db\<lparr>db_main := map (\<lambda>r. if row_fenced i k r then f r else r) (db_main db)\<rparr>"
    using assms(3) by (auto simp: update_fenced_def list_ex_iff)
  show state: "held = (stored_state db i = Some (k, False))"
    using row_of_Some [OF assms(1)] by (auto simp: held stored_state_def row_fenced_def)
  show "db' = db" if "\<not> held"
    using that by (auto simp: held db' intro!: outbox_db.equality map_idI)
  have rows: "row_of db' j = map_option (\<lambda>r. if row_fenced i k r then f r else r) (row_of db j)"
    using row_of_map [of "\<lambda>r. if row_fenced i k r then f r else r"] by (simp add: db' assms(2))
  show "row_of db' j = (if held \<and> j = i then map_option f (row_of db j) else row_of db j)"
  proof (cases "row_of db j")
    case (Some r)
    then have "ow_event_id r = j" using row_of_Some [OF assms(1), of j r] by simp
    then show ?thesis
      using Some rows state by (cases "j = i") (simp_all add: row_fenced_def stored_state_def)
  qed (use rows in auto)
qed

lemma update_fenced_db_ok:
  assumes "db_ok db" and "\<And>r. ow_event_id (f r) = ow_event_id r" and "\<And>r. ow_id (f r) = ow_id r"
    and "\<And>r. ow_attempts (f r) = ow_attempts r"
  shows "db_ok (snd (update_fenced i k f db))"
  unfolding update_fenced_def snd_conv by (rule db_ok_map [OF assms(1)]) (simp_all add: assms)

lemma stored_state_cong: "(\<And>j. row_of db' j = row_of db j) \<Longrightarrow> stored_state db' = stored_state db"
  by (simp add: stored_state_def fun_eq_iff)

lemma insert_dead_letter_main: "insert_dead_letter i db = Inr db' \<Longrightarrow> db_main db' = db_main db"
  by (auto simp: insert_dead_letter_def split: list.splits option.splits if_splits)

lemma insert_dead_letter_db_ok: "insert_dead_letter i db = Inr db' \<Longrightarrow> db_ok db \<Longrightarrow> db_ok db'"
  by (auto simp: insert_dead_letter_def db_ok_def dead_row_of_def list_ex_iff filter_eq_Cons_iff
      split: list.splits option.splits if_splits) blast

lemma delete_from_main_row_of:
  assumes "db_ok db" and "row_of db i = Some r" and "row_fenced i k r"
  shows "delete_from_main i k db = (True, db\<lparr>db_main := filter (\<lambda>q. ow_event_id q \<noteq> i) (db_main db)\<rparr>)"
proof -
  have r: "r \<in> set (db_main db)" "ow_event_id r = i" using row_of_Some [OF assms(1)] assms(2) by auto
  have "row_fenced i k q \<longleftrightarrow> ow_event_id q = i" if "q \<in> set (db_main db)" for q
  proof -
    have "ow_event_id q = i \<Longrightarrow> q = r"
      using row_of_Some [OF assms(1)] assms(2) that by (metis option.inject)
    then show ?thesis using assms(3) r by (auto simp: row_fenced_def)
  qed
  then have "filter (\<lambda>q. \<not> row_fenced i k q) (db_main db) = filter (\<lambda>q. ow_event_id q \<noteq> i) (db_main db)"
    by (intro filter_cong) simp_all
  moreover have "list_ex (row_fenced i k) (db_main db)" using r(1) assms(3) by (auto simp: list_ex_iff)
  ultimately show ?thesis by (simp add: delete_from_main_def)
qed

lemma row_of_filter:
  "row_of (db\<lparr>db_main := filter (\<lambda>q. ow_event_id q \<noteq> i) (db_main db)\<rparr>) j = (if j = i then None else row_of db j)"
proof -
  have f: "find (\<lambda>r. ow_event_id r = j) (filter (\<lambda>q. ow_event_id q \<noteq> i) rs)
      = (if j = i then None else find (\<lambda>r. ow_event_id r = j) rs)" for rs
    by (induction rs) auto
  show ?thesis unfolding row_of_def using f [of "db_main db"] by (simp split del: if_split)
qed

lemma db_ok_filter: "db_ok db \<Longrightarrow> db_ok (db\<lparr>db_main := filter P (db_main db)\<rparr>)"
  by (auto simp: db_ok_def distinct_map_filter)

lemma sql_mark_dead_lettered_effect:
  assumes ok: "db_ok db" and mark: "sql_mark_dead_lettered b i m k db = Inr (moved, db')"
  shows "db_ok db' \<and> (if stored_state db i = Some (uint k, False)
      then moved \<and> (stored_state db' = stored_state db \<or> stored_state db' = (stored_state db)(i := None)) else db' = db)"
proof (cases "sb_dead_letter b")
  case False
  then show ?thesis using ok mark by (simp add: sql_mark_dead_lettered_def)
next
  case True
  then obtain copied where copied: "insert_dead_letter i db = Inr copied"
    and db': "(if fst (delete_from_main i (uint k) copied) then Inr (True, snd (delete_from_main i (uint k) copied))
        else Inr (False, db)) = (Inr (moved, db') :: (outbox_error, _) result)"
    using mark by (auto simp: sql_mark_dead_lettered_def result_simps case_prod_beta Let_def)
  have main: "db_main copied = db_main db" and ok': "db_ok copied"
    using insert_dead_letter_main [OF copied] insert_dead_letter_db_ok [OF copied ok] by auto
  then have rows: "row_of copied j = row_of db j" for j by (simp add: row_of_def)
  show ?thesis
  proof (cases "stored_state db i = Some (uint k, False)")
    case held: True
    then obtain r where r: "row_of copied i = Some r" "row_fenced i (uint k) r"
      using row_of_Some [OF ok'] by (auto simp: stored_state_def rows row_fenced_def)
    have "moved" "db' = copied\<lparr>db_main := filter (\<lambda>q. ow_event_id q \<noteq> i) (db_main copied)\<rparr>"
      using db' delete_from_main_row_of [OF ok' r] by (auto split: if_splits)
    then show ?thesis
      using held db_ok_filter [OF ok'] by (auto simp: stored_state_def row_of_filter rows fun_eq_iff)
  next
    case lost: False
    have "\<not> row_fenced i (uint k) r" if "r \<in> set (db_main db)" for r
      using that lost row_of_Some [OF ok, of i r] by (auto simp: row_fenced_def stored_state_def)
    then have "\<not> fst (delete_from_main i (uint k) copied)"
      by (simp add: delete_from_main_def main list_ex_iff)
    then show ?thesis using db' lost ok by simp
  qed
qed

lemma claimed_row_fences:
  "claimed_row (fences claims) r \<longleftrightarrow> (\<exists>k. (ow_event_id r, k) \<in> set claims \<and> ow_attempts r = uint k)"
  by (force simp: claimed_row_def fences_def)

lemma sql_claim_ids:
  assumes ok: "db_ok db" and claim: "sql_claim b claims d db = Inr (ids, db')"
  shows "i \<in> set ids \<longleftrightarrow> (\<exists>k dv. (i, k) \<in> set claims \<and> stored_state db i = Some (uint k, dv))"
    and "stored_state db' i = (if i \<in> set ids then map_option (apfst (\<lambda>a. a + 1)) (stored_state db i) else stored_state db i)"
proof -
  have ids: "i \<in> set ids \<longleftrightarrow> (\<exists>r\<in>set (db_main db). ow_event_id r = i \<and> claimed_row (fences claims) r)"
    using sql_claim_Inr(1) [OF claim] by (force simp: claimed_row_def fences_def)
  also have "\<dots> \<longleftrightarrow> (\<exists>r. row_of db i = Some r \<and> claimed_row (fences claims) r)"
    using row_of_Some [OF ok] by auto
  finally have mem: "i \<in> set ids \<longleftrightarrow> (\<exists>r. row_of db i = Some r \<and> claimed_row (fences claims) r)" .
  show "i \<in> set ids \<longleftrightarrow> (\<exists>k dv. (i, k) \<in> set claims \<and> stored_state db i = Some (uint k, dv))"
    using row_of_Some [OF ok, of i] by (auto simp: mem stored_state_def claimed_row_fences)
  have "row_of db' i = map_option (bump (sb_plus b (db_now db) d) (fences claims)) (row_of db i)"
    using sql_claim_Inr(2) [OF claim] by (simp add: row_of_map)
  then show "stored_state db' i = (if i \<in> set ids then map_option (apfst (\<lambda>a. a + 1)) (stored_state db i) else stored_state db i)"
    using mem by (cases "row_of db i") (auto simp: stored_state_def)
qed

interpretation sql: fenced_outbox_store "sql_store b" stored_state db_ok for b :: "('j, 't::linorder) sql_backend"
proof
  fix db db' :: "('j, 't) outbox_db" and claims d ids
  assume "db_ok db" and "os_claim (sql_store b) claims d db = Inr (ids, db')"
  then have claim: "db_ok db" "sql_claim b claims d db = Inr (ids, db')" by (simp_all add: sql_store_def)
  show "db_ok db'" by (rule sql_claim_db_ok [OF claim])
  show "\<And>i. i \<in> set ids \<longleftrightarrow> (\<exists>k dv. (i, k) \<in> set claims \<and> stored_state db i = Some (uint k, dv))"
    and "\<And>i. stored_state db' i = (if i \<in> set ids then map_option (apfst (\<lambda>a. a + 1)) (stored_state db i) else stored_state db i)"
    by (rule sql_claim_ids [OF claim])+
next
  fix db db' :: "('j, 't) outbox_db" and i k ok
  assume good: "db_ok db" and "os_mark_delivered (sql_store b) i k db = Inr (ok, db')"
  then have u: "update_fenced i (uint k) (\<lambda>r. r\<lparr>ow_delivered_at := Some (db_now db)\<rparr>) db = (ok, db')"
    by (simp add: sql_store_def sql_mark_delivered_def result_simps)
  note effect = update_fenced_held [OF good _ u]
  have "stored_state db' = (stored_state db)(i \<mapsto> (uint k, True))" if ok
    using that effect by (auto simp: stored_state_def fun_eq_iff)
  then show "db_ok db' \<and> ok = (stored_state db i = Some (uint k, False))
      \<and> (if ok then stored_state db' = (stored_state db)(i \<mapsto> (uint k, True)) else db' = db)"
    using effect(1,2) update_fenced_db_ok [OF good, of "\<lambda>r. r\<lparr>ow_delivered_at := Some (db_now db)\<rparr>" i "uint k"] u by simp
next
  fix db db' :: "('j, 't) outbox_db" and i m d k ok
  let ?f = "\<lambda>r :: ('j, 't) outbox_row. r\<lparr>ow_last_error := Some m, ow_next_retry_at := Some (sb_plus b (db_now db) d)\<rparr>"
  assume good: "db_ok db" and "os_mark_failed (sql_store b) i m d k db = Inr (ok, db')"
  then have u: "update_fenced i (uint k) ?f db = (ok, db')"
    by (simp add: sql_store_def sql_mark_failed_def result_simps)
  note effect = update_fenced_held [OF good _ u]
  have "stored_state db' = stored_state db"
    using effect(3) by (simp add: stored_state_def fun_eq_iff option.map_comp comp_def)
  then show "db_ok db' \<and> ok = (stored_state db i = Some (uint k, False)) \<and> (if ok then stored_state db' = stored_state db else db' = db)"
    using effect(1,2) update_fenced_db_ok [OF good, of ?f i "uint k"] u by simp
next
  fix db db' :: "('j, 't) outbox_db" and i m k ok
  assume good: "db_ok db" and "os_mark_dead_lettered (sql_store b) i m k db = Inr (ok, db')"
  then have dead: "sql_mark_dead_lettered b i m k db = Inr (ok, db')" by (simp add: sql_store_def)
  show "db_ok db' \<and> (if stored_state db i = Some (uint k, False)
        then ok \<and> (stored_state db' = stored_state db \<or> stored_state db' = (stored_state db)(i := None)) else db' = db)"
    by (rule sql_mark_dead_lettered_effect [OF good dead])
qed

end
