(* ===== verification/Outbox_System.thy ===== *)
theory Outbox_System
  imports Outbox_Worker
begin

text \<open>
  Publishers and any number of outbox workers on one database, as interleaved steps of
  \<open>crates/hexeract-outbox/src/worker.rs\<close> over the SQL stores: a worker polls, claims what it polled,
  dispatches and settles one envelope after the other, and may die at any point. Between the poll and
  the claim of one worker the others go on, which the row locks of PostgreSQL and MySQL would rule
  out and SQLite does not. The clock of the database moves freely and the locked rows are arbitrary.

  Ghost state records what was inserted, in the order of the row ids, which worker claimed which
  attempt of which row, and which attempts a handler completed.
\<close>

section \<open>The system\<close>

datatype worker_phase =
    WorkerIdle
  | WorkerPolled "outbox_envelope list"
  | WorkerWorking "outbox_envelope list"
  | WorkerSettling outbox_envelope "(outbox_error, unit) result" "outbox_envelope list"

record ('j, 't, 'w) outbox_sys =
  sy_db :: "('j, 't) outbox_db"
  sy_world :: 'w
  sy_phase :: "nat \<Rightarrow> worker_phase"
  sy_inserted :: "(uuid \<times> string \<times> 'j \<times> uuid option) list"
  sy_claims :: "(nat \<times> nat \<times> int) list"
  sy_handled :: "(uuid \<times> u32) list"

datatype ('j, 't, 'w) outbox_event =
    WorkerPoll nat
  | WorkerClaim nat tx_fate
  | WorkerDispatch nat "string \<rightharpoonup> 'w outbox_handler"
  | WorkerSettle nat "nat \<Rightarrow> nat" tx_fate
  | WorkerCrash nat
  | PublishEvent uuid string 'j "uuid option"
  | EnqueueEvent uuid string 'j
  | ClockTo 't
  | LocksTo "nat list"

definition sys_init :: "'t \<Rightarrow> 'w \<Rightarrow> ('j, 't, 'w) outbox_sys" where
  "sys_init now w =
     \<lparr>sy_db = \<lparr>db_main = [], db_dead = [], db_next_id = 0, db_next_dead = 0, db_now = now, db_locked = []\<rparr>,
      sy_world = w, sy_phase = (\<lambda>_. WorkerIdle), sy_inserted = [], sy_claims = [], sy_handled = []\<rparr>"

text \<open>The claims a worker's transaction made: the rows whose counter it moved.\<close>

definition claims_between ::
  "nat \<Rightarrow> ('j, 't) outbox_row list \<Rightarrow> ('j, 't) outbox_row list \<Rightarrow> (nat \<times> nat \<times> int) list"
where
  "claims_between w rs rs' =
     map (\<lambda>(_, r). (w, ow_id r, ow_attempts r)) (filter (\<lambda>(r, r'). ow_attempts r' \<noteq> ow_attempts r) (zip rs rs'))"

definition step_poll ::
  "outbox_worker_config \<Rightarrow> ('j, 't::linorder) sql_backend \<Rightarrow> nat \<Rightarrow> ('j, 't, 'w) outbox_sys \<Rightarrow> ('j, 't, 'w) outbox_sys option"
where
  "step_poll c b w s =
     (case sy_phase s w of
        WorkerIdle \<Rightarrow>
          (case os_poll (sql_store b) (owc_batch_size c) (owc_max_attempts c) (sy_db s) of
             Inl _ \<Rightarrow> Some s
           | Inr batch \<Rightarrow> Some (s\<lparr>sy_phase := (sy_phase s)(w := WorkerPolled batch)\<rparr>))
      | _ \<Rightarrow> None)"

definition step_claim ::
  "outbox_worker_config \<Rightarrow> ('j, 't::linorder) sql_backend \<Rightarrow> nat \<Rightarrow> tx_fate \<Rightarrow> ('j, 't, 'w) outbox_sys \<Rightarrow>
   ('j, 't, 'w) outbox_sys option"
where
  "step_claim c b w fate s =
     (case sy_phase s w of
        WorkerPolled batch \<Rightarrow>
          (let (r, db) = claim_batch c (sql_store b) fate batch (sy_db s)
           in Some (s\<lparr>sy_db := db,
                sy_phase := (sy_phase s)(w := (case r of Inl _ \<Rightarrow> WorkerIdle | Inr envelopes \<Rightarrow> WorkerWorking envelopes)),
                sy_claims := sy_claims s @ claims_between w (db_main (sy_db s)) (db_main db)\<rparr>))
      | _ \<Rightarrow> None)"

text \<open>The handler of the event, run on the envelope, returns success within the timeout.\<close>

definition handler_succeeds ::
  "outbox_worker_config \<Rightarrow> (string \<rightharpoonup> 'w outbox_handler) \<Rightarrow> outbox_envelope \<Rightarrow> 'w \<Rightarrow> bool"
where
  "handler_succeeds c handlers e w =
     (case handlers (oe_event_type e) of
        None \<Rightarrow> False
      | Some handler \<Rightarrow>
          (case fst (handler e (handler_context_new (oe_event_id e) (oe_event_id e)) w) of
             Finishes d (Inr _) \<Rightarrow> d \<le> owc_dispatch_timeout c
           | _ \<Rightarrow> False))"

definition step_dispatch ::
  "outbox_worker_config \<Rightarrow> nat \<Rightarrow> (string \<rightharpoonup> 'w outbox_handler) \<Rightarrow> ('j, 't, 'w) outbox_sys \<Rightarrow> ('j, 't, 'w) outbox_sys option"
where
  "step_dispatch c w handlers s =
     (case sy_phase s w of
        WorkerWorking [] \<Rightarrow> Some (s\<lparr>sy_phase := (sy_phase s)(w := WorkerIdle)\<rparr>)
      | WorkerWorking (e # es) \<Rightarrow>
          (case outbox_dispatch c handlers e (sy_world s) of
             (None, world) \<Rightarrow> Some (s\<lparr>sy_world := world, sy_phase := (sy_phase s)(w := WorkerIdle)\<rparr>)
           | (Some r, world) \<Rightarrow>
               Some (s\<lparr>sy_world := world, sy_phase := (sy_phase s)(w := WorkerSettling e r es),
                 sy_handled := sy_handled s @
                   (if handler_succeeds c handlers e (sy_world s) then [(oe_event_id e, oe_attempts e + 1)] else [])\<rparr>))
      | _ \<Rightarrow> None)"

definition step_settle ::
  "outbox_worker_config \<Rightarrow> ('j, 't::linorder) sql_backend \<Rightarrow> (outbox_error \<Rightarrow> string) \<Rightarrow> nat \<Rightarrow> (nat \<Rightarrow> nat) \<Rightarrow> tx_fate \<Rightarrow>
   ('j, 't, 'w) outbox_sys \<Rightarrow> ('j, 't, 'w) outbox_sys option"
where
  "step_settle c b display w draw fate s =
     (case sy_phase s w of
        WorkerSettling e r es \<Rightarrow>
          Some (s\<lparr>sy_db := snd (outbox_settle c (sql_store b) display draw fate e r (sy_db s)),
                  sy_phase := (sy_phase s)(w := WorkerWorking es)\<rparr>)
      | _ \<Rightarrow> None)"

definition step_insert ::
  "uuid \<Rightarrow> string \<Rightarrow> 'j \<Rightarrow> uuid option \<Rightarrow> ('j, 't, 'w) outbox_sys \<Rightarrow> ('j, 't, 'w) outbox_sys option"
where
  "step_insert event_id event_type payload subject_id s =
     (case insert_row event_id event_type payload subject_id (sy_db s) of
        Inl _ \<Rightarrow> Some s
      | Inr db \<Rightarrow> Some (s\<lparr>sy_db := db,
          sy_inserted := sy_inserted s @ [(event_id, event_type, payload, subject_id)]\<rparr>))"

fun sys_step ::
  "outbox_worker_config \<Rightarrow> ('j, 't::linorder) sql_backend \<Rightarrow> (outbox_error \<Rightarrow> string) \<Rightarrow> ('j, 't, 'w) outbox_event \<Rightarrow>
   ('j, 't, 'w) outbox_sys \<Rightarrow> ('j, 't, 'w) outbox_sys option"
where
  "sys_step c b display (WorkerPoll w) s = step_poll c b w s"
| "sys_step c b display (WorkerClaim w fate) s = step_claim c b w fate s"
| "sys_step c b display (WorkerDispatch w handlers) s = step_dispatch c w handlers s"
| "sys_step c b display (WorkerSettle w draw fate) s = step_settle c b display w draw fate s"
| "sys_step c b display (WorkerCrash w) s = Some (s\<lparr>sy_phase := (sy_phase s)(w := WorkerIdle)\<rparr>)"
| "sys_step c b display (PublishEvent i t j sub) s = step_insert i t j sub s"
| "sys_step c b display (EnqueueEvent i t j) s =
     (case insert_idempotent i t j (sy_db s) of
        Inr (True, _) \<Rightarrow> step_insert i t j None s
      | _ \<Rightarrow> Some s)"
| "sys_step c b display (ClockTo now) s = Some (s\<lparr>sy_db := (sy_db s)\<lparr>db_now := now\<rparr>\<rparr>)"
| "sys_step c b display (LocksTo ids) s = Some (s\<lparr>sy_db := (sy_db s)\<lparr>db_locked := ids\<rparr>\<rparr>)"

fun sys_run ::
  "outbox_worker_config \<Rightarrow> ('j, 't::linorder) sql_backend \<Rightarrow> (outbox_error \<Rightarrow> string) \<Rightarrow> ('j, 't, 'w) outbox_event list \<Rightarrow>
   ('j, 't, 'w) outbox_sys \<Rightarrow> ('j, 't, 'w) outbox_sys option"
where
  "sys_run c b display [] s = Some s"
| "sys_run c b display (ev # evs) s = Option.bind (sys_step c b display ev s) (sys_run c b display evs)"

section \<open>The invariant\<close>

definition row_content :: "('j, 't) outbox_row \<Rightarrow> uuid \<times> string \<times> 'j \<times> uuid option" where
  "row_content r = (ow_event_id r, ow_event_type r, ow_payload r, ow_subject_id r)"

definition dead_content :: "('j, 't) dead_row \<Rightarrow> uuid \<times> string \<times> 'j \<times> uuid option" where
  "dead_content d = (dl_event_id d, dl_event_type d, dl_payload d, dl_subject_id d)"

definition claims_of :: "nat \<Rightarrow> (nat \<times> nat \<times> int) list \<Rightarrow> int list" where
  "claims_of i claims = map (snd \<circ> snd) (filter (\<lambda>t. fst (snd t) = i) claims)"

fun held_envelopes :: "worker_phase \<Rightarrow> outbox_envelope list" where
  "held_envelopes WorkerIdle = []"
| "held_envelopes (WorkerPolled _) = []"
| "held_envelopes (WorkerWorking es) = es"
| "held_envelopes (WorkerSettling e _ es) = e # es"

fun seen_envelopes :: "worker_phase \<Rightarrow> outbox_envelope list" where
  "seen_envelopes (WorkerPolled es) = es"
| "seen_envelopes ph = held_envelopes ph"

text \<open>Each inserted event is in one of the two tables, with what was inserted.\<close>

definition inv_content :: "('j, 't, 'w) outbox_sys \<Rightarrow> bool" where
  "inv_content s \<longleftrightarrow> db_ok (sy_db s) \<and> length (sy_inserted s) = db_next_id (sy_db s)
     \<and> (\<forall>r\<in>set (db_main (sy_db s)). sy_inserted s ! ow_id r = row_content r)
     \<and> mset (map row_content (db_main (sy_db s))) + mset (map dead_content (db_dead (sy_db s))) = mset (sy_inserted s)"

text \<open>The attempts claimed of a row are 1, 2, and so on up to its counter, each once.\<close>

definition inv_claims :: "u32 \<Rightarrow> ('j, 't, 'w) outbox_sys \<Rightarrow> bool" where
  "inv_claims bound s \<longleftrightarrow>
     (\<forall>r\<in>set (db_main (sy_db s)). claims_of (ow_id r) (sy_claims s) = [1..ow_attempts r])
     \<and> (\<forall>i. \<exists>n. claims_of i (sy_claims s) = [1..n])
     \<and> (\<forall>(w, i, k)\<in>set (sy_claims s). i < db_next_id (sy_db s) \<and> k \<le> uint bound)"

text \<open>A worker works on attempts that it claimed, within the budget.\<close>

definition inv_held :: "u32 \<Rightarrow> ('j, 't, 'w) outbox_sys \<Rightarrow> bool" where
  "inv_held bound s \<longleftrightarrow>
     (\<forall>w. \<forall>e\<in>set (seen_envelopes (sy_phase s w)). oe_attempts e < bound)
     \<and> (\<forall>w es. sy_phase s w = WorkerPolled es \<longrightarrow> distinct (map oe_event_id es))
     \<and> (\<forall>w. \<forall>e\<in>set (held_envelopes (sy_phase s w)). \<exists>i<length (sy_inserted s).
          fst (sy_inserted s ! i) = oe_event_id e \<and> (w, i, uint (oe_attempts e) + 1) \<in> set (sy_claims s))"

text \<open>What is marked delivered was handled, in an attempt of its own.\<close>

definition inv_delivered :: "('j, 't, 'w) outbox_sys \<Rightarrow> bool" where
  "inv_delivered s \<longleftrightarrow>
     (\<forall>w e r es. sy_phase s w = WorkerSettling e (Inr r) es \<longrightarrow> (oe_event_id e, oe_attempts e + 1) \<in> set (sy_handled s))
     \<and> (\<forall>r\<in>set (db_main (sy_db s)). ow_delivered_at r \<noteq> None \<longrightarrow>
          (\<exists>k. (ow_event_id r, k) \<in> set (sy_handled s) \<and> uint k \<le> ow_attempts r))"

lemma inv_held_bound: "inv_held bound s \<Longrightarrow> e \<in> set (seen_envelopes (sy_phase s w)) \<Longrightarrow> oe_attempts e < bound"
  by (simp add: inv_held_def)

lemma inv_held_claim:
  "inv_held bound s \<Longrightarrow> e \<in> set (held_envelopes (sy_phase s w)) \<Longrightarrow>
   \<exists>i<length (sy_inserted s). fst (sy_inserted s ! i) = oe_event_id e \<and> (w, i, uint (oe_attempts e) + 1) \<in> set (sy_claims s)"
  by (simp add: inv_held_def)

lemma inv_settling_handled:
  "inv_delivered s \<Longrightarrow> sy_phase s w = WorkerSettling e (Inr u) es \<Longrightarrow> (oe_event_id e, oe_attempts e + 1) \<in> set (sy_handled s)"
  by (auto simp: inv_delivered_def)

lemma inv_delivered_row:
  "inv_delivered s \<Longrightarrow> r \<in> set (db_main (sy_db s)) \<Longrightarrow> ow_delivered_at r \<noteq> None \<Longrightarrow>
   \<exists>k. (ow_event_id r, k) \<in> set (sy_handled s) \<and> uint k \<le> ow_attempts r"
  by (simp add: inv_delivered_def)

lemma held_seen: "set (held_envelopes ph) \<subseteq> set (seen_envelopes ph)"
  by (cases ph) auto

section \<open>Settlements on the tables\<close>

definition same_event :: "('j, 't) outbox_row \<Rightarrow> ('j, 't) outbox_row \<Rightarrow> bool" where
  "same_event r r' \<longleftrightarrow> ow_id r' = ow_id r \<and> row_content r' = row_content r \<and> ow_attempts r' = ow_attempts r"

lemma same_event_event_id: "same_event r r' \<Longrightarrow> ow_event_id r' = ow_event_id r"
  by (simp add: same_event_def row_content_def)

lemma fenced_event: "row_fenced i k r \<Longrightarrow> ow_event_id r = i"
  by (simp add: row_fenced_def)

lemma dead_content_dead_row_of [simp]: "dead_content (dead_row_of n t err r) = row_content r"
  by (simp add: dead_content_def dead_row_of_def row_content_def)

text \<open>A dead-lettering that went through, on a table where the failure has been recorded.\<close>

lemma dead_lettered_tables:
  assumes ok: "db_ok db" and db1: "db1 = db\<lparr>db_main := map (\<lambda>r. if row_fenced i k r then f r else r) (db_main db)\<rparr>"
    and f: "\<And>r. same_event r (f r)" "\<And>r. ow_delivered_at (f r) = ow_delivered_at r"
    and held: "stored_state db i = Some (k, False)" and kk: "k = uint kw"
    and mark: "sql_mark_dead_lettered b i m kw db1 = Inr (moved, db')"
  shows "db' = db1 \<or> (\<exists>r d. r \<in> set (db_main db) \<and> row_fenced i k r \<and> dead_content d = row_content r
    \<and> i \<notin> dl_event_id ` set (db_dead db)
    \<and> db' = db\<lparr>db_main := filter (\<lambda>q. ow_event_id q \<noteq> i) (db_main db), db_dead := db_dead db @ [d],
        db_next_dead := Suc (db_next_dead db)\<rparr>)"
proof (cases "sb_dead_letter b")
  case False
  then show ?thesis using mark by (simp add: sql_mark_dead_lettered_def)
next
  case True
  let ?g = "\<lambda>r. if row_fenced i k r then f r else r"
  have ev: "ow_event_id (?g r) = ow_event_id r" for r using f(1) by (simp add: same_event_event_id)
  obtain r where r: "row_of db i = Some r" "row_fenced i k r"
    using held row_of_Some [OF ok] by (auto simp: stored_state_def row_fenced_def)
  then have mem: "r \<in> set (db_main db)" using row_of_Some [OF ok] by simp
  have ok1: "db_ok db1"
    unfolding db1 by (rule db_ok_map [OF ok]) (use f(1) in \<open>auto simp: same_event_def row_content_def\<close>)
  have row1: "row_of db1 i = Some (f r)" using r by (simp add: db1 row_of_map [of ?g, OF ev])
  have fenced1: "row_fenced i k (f r)" using r(2) f by (simp add: row_fenced_def same_event_def row_content_def)
  have "f r \<in> set (db_main db1)" using row_of_Some [OF ok1] row1 by simp
  obtain copied where copied: "insert_dead_letter i db1 = Inr copied"
    and db': "(if fst (delete_from_main i k copied) then Inr (True, snd (delete_from_main i k copied))
        else Inr (False, db1)) = (Inr (moved, db') :: (outbox_error, _) result)"
    using True mark kk by (auto simp: sql_mark_dead_lettered_def result_simps case_prod_beta Let_def)
  obtain q qs where q: "filter (\<lambda>r. ow_event_id r = i) (db_main db1) = q # qs"
    using \<open>f r \<in> set (db_main db1)\<close> fenced_event [OF fenced1]
    by (cases "filter (\<lambda>r. ow_event_id r = i) (db_main db1)") (auto simp: filter_empty_conv)
  have "q \<in> set (filter (\<lambda>r. ow_event_id r = i) (db_main db1))" unfolding q by simp
  then have "q = f r" using row_of_Some [OF ok1, of i q] row1 by simp
  then obtain err where c0: "copied = db1\<lparr>db_dead := db_dead db1 @ [dead_row_of (db_next_dead db1) (db_now db1) err (f r)],
        db_next_dead := Suc (db_next_dead db1)\<rparr>" and none: "i \<notin> dl_event_id ` set (db_dead db1)"
    using copied q by (auto simp: insert_dead_letter_def list_ex_iff image_iff split: option.splits if_splits)
  define d where "d = dead_row_of (db_next_dead db1) (db_now db1) err (f r)"
  have d: "dead_content d = row_content (f r)" "i \<notin> dl_event_id ` set (db_dead db1)"
    and c: "copied = db1\<lparr>db_dead := db_dead db1 @ [d], db_next_dead := Suc (db_next_dead db1)\<rparr>"
    using none c0 by (simp_all add: d_def)
  have "db_ok copied" by (rule insert_dead_letter_db_ok [OF copied ok1])
  moreover have "row_of copied i = Some (f r)" using row1 by (simp add: c row_of_def)
  ultimately have "db' = copied\<lparr>db_main := filter (\<lambda>q. ow_event_id q \<noteq> i) (db_main copied)\<rparr>"
    using db' delete_from_main_row_of [OF _ _ fenced1] by (auto split: if_splits)
  moreover have "filter (\<lambda>q. ow_event_id q \<noteq> i) (map ?g rs) = filter (\<lambda>q. ow_event_id q \<noteq> i) rs" for rs
    by (induction rs) (simp_all add: row_fenced_def same_event_event_id [OF f(1)])
  ultimately have "db' = db\<lparr>db_main := filter (\<lambda>q. ow_event_id q \<noteq> i) (db_main db), db_dead := db_dead db @ [d],
      db_next_dead := Suc (db_next_dead db)\<rparr>"
    by (simp add: c db1)
  moreover have "dead_content d = row_content r" using d(1) f(1) [of r] by (simp add: same_event_def)
  moreover have "i \<notin> dl_event_id ` set (db_dead db)" using d(2) by (simp add: db1)
  ultimately show ?thesis using mem r(2) by blast
qed

text \<open>What a settlement can do to the tables: nothing, an update of the claimed row, or its removal.\<close>

definition settled_row_update ::
  "uuid \<Rightarrow> int \<Rightarrow> bool \<Rightarrow> ('j, 't) outbox_db \<Rightarrow> ('j, 't) outbox_db \<Rightarrow> bool"
where
  "settled_row_update i k success db db' \<longleftrightarrow>
     (\<exists>f. (\<forall>r. same_event r (f r)) \<and> (\<forall>r. success \<or> ow_delivered_at (f r) = ow_delivered_at r)
        \<and> db' = db\<lparr>db_main := map (\<lambda>r. if row_fenced i k r then f r else r) (db_main db)\<rparr>)"

definition settled_dead_letter ::
  "uuid \<Rightarrow> int \<Rightarrow> ('j, 't) outbox_db \<Rightarrow> ('j, 't) outbox_db \<Rightarrow> bool"
where
  "settled_dead_letter i k db db' \<longleftrightarrow>
     (\<exists>r d. r \<in> set (db_main db) \<and> row_fenced i k r \<and> dead_content d = row_content r
        \<and> i \<notin> dl_event_id ` set (db_dead db)
        \<and> db' = db\<lparr>db_main := filter (\<lambda>q. ow_event_id q \<noteq> i) (db_main db), db_dead := db_dead db @ [d],
            db_next_dead := Suc (db_next_dead db)\<rparr>)"

lemma settled_nothing: "settled_row_update i k success db db"
  by (auto simp: settled_row_update_def same_event_def intro!: exI [of _ "\<lambda>r. r"])

lemma settle_tables:
  assumes ok: "db_ok db"
    and db': "db' = snd (outbox_settle c (sql_store b) display draw fate e outcome db)"
  shows "settled_row_update (oe_event_id e) (uint (oe_attempts e + 1)) (outcome = Inr ()) db db'
    \<or> owc_max_attempts c \<le> oe_attempts e + 1 \<and> settled_dead_letter (oe_event_id e) (uint (oe_attempts e + 1)) db db'"
    (is "?update \<or> ?dead")
proof (cases outcome)
  case (Inr u)
  let ?k = "uint (oe_attempts e + 1)"
  let ?db = "db\<lparr>db_main := map (\<lambda>r. if row_fenced (oe_event_id e) ?k r then r\<lparr>ow_delivered_at := Some (db_now db)\<rparr> else r)
      (db_main db)\<rparr>"
  have "db' = db \<or> db' = ?db"
    by (auto simp: db' Inr outbox_settle_def settle_delivered_def sql_store_def sql_mark_delivered_def tx_commit_def
        update_fenced_def fence_value_def split: tx_fate.splits)
  moreover have "settled_row_update (oe_event_id e) ?k True db ?db"
    by (auto simp: settled_row_update_def same_event_def row_content_def
        intro!: exI [of _ "\<lambda>r. r\<lparr>ow_delivered_at := Some (db_now db)\<rparr>"])
  ultimately show ?thesis using Inr by (auto simp: settled_nothing)
next
  case (Inl err)
  let ?i = "oe_event_id e" and ?k = "oe_attempts e + 1"
  define f where "f = (\<lambda>r :: ('a, 'b) outbox_row. r\<lparr>ow_last_error := Some (display err),
      ow_next_retry_at := Some (sb_plus b (db_now db) (outbox_next_retry_delay draw c (oe_attempts e)))\<rparr>)"
  have f: "same_event r (f r)" "ow_delivered_at (f r) = ow_delivered_at r" for r
    by (simp_all add: f_def same_event_def row_content_def)
  define db1 where "db1 = db\<lparr>db_main := map (\<lambda>r. if row_fenced ?i (uint ?k) r then f r else r) (db_main db)\<rparr>"
  have update: "settled_row_update ?i (uint ?k) success db db1" for success
    using f by (auto simp: settled_row_update_def db1_def)
  consider "db' = db" | "db' = db1" | moved where "owc_max_attempts c \<le> ?k" "stored_state db ?i = Some (uint ?k, False)"
      "sql_mark_dead_lettered b ?i (display err) ?k db1 = Inr (moved, db')"
  proof (cases "fence_value ?k")
    case (Inr fence)
    then have mf: "sql_mark_failed b ?i (display err) (outbox_next_retry_delay draw c (oe_attempts e)) ?k db
        = Inr (list_ex (row_fenced ?i (uint ?k)) (db_main db), db1)"
      unfolding sql_mark_failed_def db1_def f_def update_fenced_def by (simp add: fence_value_def split: if_splits)
    have held: "stored_state db ?i = Some (uint ?k, False)" if "list_ex (row_fenced ?i (uint ?k)) (db_main db)"
      using that row_of_Some [OF ok, of ?i] by (auto simp: list_ex_iff stored_state_def row_fenced_def)
    have settle: "outbox_settle c (sql_store b) display draw fate e outcome db =
        (if list_ex (row_fenced ?i (uint ?k)) (db_main db) \<and> owc_max_attempts c \<le> ?k
         then case sql_mark_dead_lettered b ?i (display err) ?k db1 of
                Inl err' \<Rightarrow> (Inl err', db) | Inr (moved, db'') \<Rightarrow> tx_commit fate db db'' ()
         else tx_commit fate db db1 ())"
      by (simp add: Inl outbox_settle_def settle_failed_def sql_store_def mf Let_def)
    have commit: "snd (tx_commit fate db x ()) = db \<or> snd (tx_commit fate db x ()) = x" for x
      by (simp add: tx_commit_def split: tx_fate.split)
    show ?thesis
    proof (cases "list_ex (row_fenced ?i (uint ?k)) (db_main db) \<and> owc_max_attempts c \<le> ?k")
      case True
      show ?thesis
      proof (cases "sql_mark_dead_lettered b ?i (display err) ?k db1")
        case (Inl err')
        then show ?thesis using that(1) True by (simp add: db' settle)
      next
        case (Inr q)
        obtain moved db'' where q: "q = (moved, db'')" by (rule prod.exhaust)
        then have "db' = db \<or> db' = db''" using commit [of db''] True Inr by (simp add: db' settle)
        then show ?thesis
        proof
          assume "db' = db''"
          then show ?thesis using that(3) [of moved] held True Inr q by simp
        qed (rule that(1))
      qed
    next
      case False
      then show ?thesis using that(1,2) commit [of db1] by (auto simp: db' settle)
    qed
  qed (auto simp: db' Inl outbox_settle_def settle_failed_def sql_store_def sql_mark_failed_def Let_def)
  then show ?thesis
  proof cases
    case 3
    then show ?thesis
      using dead_lettered_tables [OF ok db1_def f 3(2) refl 3(3)] update by (auto simp: settled_dead_letter_def)
  qed (simp_all add: settled_nothing update)
qed

section \<open>Claims on the tables\<close>

definition batch_fences :: "outbox_envelope list \<Rightarrow> (uuid \<times> int) list" where
  "batch_fences batch = fences (map (\<lambda>e. (oe_event_id e, oe_attempts e)) batch)"

definition bump_main :: "'t \<Rightarrow> (uuid \<times> int) list \<Rightarrow> ('j, 't) outbox_db \<Rightarrow> ('j, 't) outbox_db" where
  "bump_main lease pairs db = db\<lparr>db_main := map (bump lease pairs) (db_main db)\<rparr>"

lemma claim_batch_tables:
  assumes "claim_batch c (sql_store b) fate batch db = (r, db')"
  shows "(db' = db \<and> (\<forall>es. r = Inr es \<longrightarrow> es = [])) \<or>
    (\<exists>lease. db' = bump_main lease (batch_fences batch) db
      \<and> (\<forall>es. r = Inr es \<longrightarrow> es = filter (\<lambda>e. \<exists>q\<in>set (db_main db). ow_event_id q = oe_event_id e \<and> claimed_row (batch_fences batch) q) batch))"
proof (cases "batch = []")
  case True
  then show ?thesis using assms by (auto simp: claim_batch_def tx_commit_def split: tx_fate.splits)
next
  case False
  let ?claims = "map (\<lambda>e. (oe_event_id e, oe_attempts e)) batch"
  let ?lease = "sb_plus b (db_now db) (outbox_lease_for c (length ?claims))"
  show ?thesis
  proof (cases "sql_claim b ?claims (outbox_lease_for c (length ?claims)) db")
    case (Inl err)
    then show ?thesis using assms False by (auto simp: claim_batch_def sql_store_def)
  next
    case (Inr q)
    obtain ids db1 where q: "q = (ids, db1)" by (rule prod.exhaust)
    note claim = sql_claim_Inr [OF Inr [unfolded q]]
    have db1: "db1 = bump_main ?lease (batch_fences batch) db"
      using claim(2) by (simp add: bump_main_def batch_fences_def)
    have "filter (\<lambda>e. oe_event_id e \<in> set ids) batch
        = filter (\<lambda>e. \<exists>q\<in>set (db_main db). ow_event_id q = oe_event_id e \<and> claimed_row (batch_fences batch) q) batch"
      by (rule filter_cong) (auto simp: claim(1) batch_fences_def)
    moreover have "(r, db') = tx_commit fate db db1 (filter (\<lambda>e. oe_event_id e \<in> set ids) batch)"
      using assms False Inr q by (simp add: claim_batch_def sql_store_def)
    ultimately show ?thesis using db1 by (auto simp: tx_commit_def split: tx_fate.splits)
  qed
qed

lemma claims_between_same [simp]: "claims_between w rs rs = []"
  by (auto simp: claims_between_def filter_empty_conv zip_same)

lemma claims_between_bump:
  "claims_between w rs (map (bump lease ps) rs) = map (\<lambda>r. (w, ow_id r, ow_attempts r + 1)) (filter (claimed_row ps) rs)"
  by (induction rs) (simp_all add: claims_between_def)

lemma claims_of_append [simp]: "claims_of i (xs @ ys) = claims_of i xs @ claims_of i ys"
  by (simp add: claims_of_def)

lemma claims_of_bump:
  "distinct (map ow_id rs) \<Longrightarrow> r \<in> set rs \<Longrightarrow>
   claims_of (ow_id r) (map (\<lambda>r. (w, ow_id r, ow_attempts r + 1)) (filter (claimed_row ps) rs))
     = (if claimed_row ps r then [ow_attempts r + 1] else [])"
proof (induction rs)
  case (Cons q rs)
  have "claims_of i (map (\<lambda>r. (w, ow_id r, ow_attempts r + 1)) (filter (claimed_row ps) rs)) = []"
    if "i \<notin> ow_id ` set rs" for i
    using that by (auto simp: claims_of_def filter_empty_conv)
  then show ?case using Cons by (auto simp: claims_of_def image_iff)
qed simp

lemma claims_of_bump_other:
  "i \<notin> ow_id ` set rs \<Longrightarrow> claims_of i (map (\<lambda>r. (w, ow_id r, ow_attempts r + 1)) (filter (claimed_row ps) rs)) = []"
  by (auto simp: claims_of_def filter_empty_conv)

lemma upto_snoc: "0 \<le> n \<Longrightarrow> [1..n] @ [n + 1] = [1..n + 1 :: int]"
  by (simp add: upto_rec2)

section \<open>Preservation\<close>

lemma inv_content_same:
  assumes "inv_content s" and "\<And>r. ow_id (f r) = ow_id r \<and> row_content (f r) = row_content r"
    and "\<And>r. 0 \<le> ow_attempts r \<Longrightarrow> 0 \<le> ow_attempts (f r)"
    and "sy_db s' = (sy_db s)\<lparr>db_main := map f (db_main (sy_db s))\<rparr>" and "sy_inserted s' = sy_inserted s"
  shows "inv_content s'"
proof -
  have ev: "ow_event_id (f r) = ow_event_id r" for r using assms(2) [of r] by (simp add: row_content_def)
  have "db_ok (sy_db s')"
    unfolding assms(4) by (rule db_ok_map) (use assms ev in \<open>auto simp: inv_content_def\<close>)
  moreover have "row_content \<circ> f = row_content" using assms(2) by (simp add: fun_eq_iff)
  ultimately show ?thesis using assms by (simp add: inv_content_def)
qed

lemma decoded_distinct:
  "distinct (map ow_event_id rs) \<Longrightarrow>
   distinct (map oe_event_id (concat (map (\<lambda>r. case decode_row b r of Inr envelope \<Rightarrow> [envelope] | Inl _ \<Rightarrow> []) rs)))"
proof -
  have ev: "decode_row b r = Inr e \<Longrightarrow> oe_event_id e = ow_event_id r" for r e
    by (auto simp: decode_row_def result_simps assemble_envelope_def)
  have sub: "oe_event_id ` set (concat (map (\<lambda>r. case decode_row b r of Inr envelope \<Rightarrow> [envelope] | Inl _ \<Rightarrow> []) rs))
      \<subseteq> ow_event_id ` set rs" for rs
    by (auto dest!: ev [OF sym] split: sum.splits)
  show "distinct (map ow_event_id rs) \<Longrightarrow> ?thesis"
  proof (induction rs)
    case (Cons r rs)
    then show ?case using sub [of rs] ev [of r] by (cases "decode_row b r") auto
  qed simp
qed

lemma step_poll_inv:
  assumes "step_poll c b w s = Some s'" and "inv_content s"
  shows "sy_db s' = sy_db s" "sy_inserted s' = sy_inserted s" "sy_claims s' = sy_claims s" "sy_handled s' = sy_handled s"
    and "inv_held (owc_max_attempts c) s \<Longrightarrow> inv_held (owc_max_attempts c) s'"
    and "inv_delivered s \<Longrightarrow> inv_delivered s'"
proof -
  let ?env = "\<lambda>r. case decode_row b r of Inr envelope \<Rightarrow> [envelope] | Inl _ \<Rightarrow> []"
  let ?rows = "poll_rows (sb_dialect b) (owc_batch_size c) (owc_max_attempts c) (sy_db s)"
  have s': "sy_phase s w = WorkerIdle" "s' = s\<lparr>sy_phase := (sy_phase s)(w := WorkerPolled (concat (map ?env ?rows)))\<rparr>"
    using assms(1) by (simp_all add: step_poll_def sql_store_def sql_poll_def split: worker_phase.splits)
  then show "sy_db s' = sy_db s" "sy_inserted s' = sy_inserted s" "sy_claims s' = sy_claims s" "sy_handled s' = sy_handled s"
    by simp_all
  have "oe_attempts e < owc_max_attempts c" if mem: "e \<in> set (concat (map ?env ?rows))" for e
  proof -
    obtain r where "r \<in> set ?rows" "e \<in> set (?env r)" using mem unfolding set_concat set_map by blast
    then have "decode_row b r = Inr e" by (simp split: sum.splits)
    with \<open>r \<in> set ?rows\<close> have "oe_attempts e = attempts_of_column (ow_attempts r)" "r \<in> set (db_main (sy_db s))"
      "ow_attempts r < uint (owc_max_attempts c)"
      by (auto simp: decode_row_def result_simps assemble_envelope_def poll_rows_def row_pollable_def bind_max_attempts_def
          dest!: in_set_takeD split: dialect.splits)
    moreover from this have "0 \<le> ow_attempts r" using assms(2) by (simp add: inv_content_def db_ok_def)
    moreover have "uint (owc_max_attempts c) < 2 ^ 32" using uint_lt2p [of "owc_max_attempts c"] by simp
    ultimately show ?thesis
      by (simp add: attempts_of_column_def word_less_def uint_word_of_int max_def)
  qed
  moreover have "distinct (map oe_event_id (concat (map ?env ?rows)))"
    by (rule decoded_distinct) (use assms(2) in \<open>simp add: inv_content_def db_ok_def poll_rows_def take_map [symmetric] distinct_map_filter\<close>)
  ultimately show "inv_held (owc_max_attempts c) s \<Longrightarrow> inv_held (owc_max_attempts c) s'"
    by (auto simp: inv_held_def s')
  show "inv_delivered s \<Longrightarrow> inv_delivered s'" by (auto simp: inv_delivered_def s')
qed

lemma bump_same_content: "ow_id (bump l ps r) = ow_id r \<and> row_content (bump l ps r) = row_content r"
  by (simp add: row_content_def)

lemma claimed_batch_row:
  "claimed_row (batch_fences batch) r \<longleftrightarrow> (\<exists>e\<in>set batch. oe_event_id e = ow_event_id r \<and> uint (oe_attempts e) = ow_attempts r)"
  by (force simp: claimed_row_fences batch_fences_def)

lemma step_claim_cases:
  assumes "step_claim c b w fate s = Some s'"
  obtains (unchanged) batch where "sy_phase s w = WorkerPolled batch" "sy_db s' = sy_db s" "sy_claims s' = sy_claims s"
      "held_envelopes (sy_phase s' w) = []" "seen_envelopes (sy_phase s' w) = []" "\<And>es. sy_phase s' w \<noteq> WorkerPolled es"
      "\<And>w'. w' \<noteq> w \<Longrightarrow> sy_phase s' w' = sy_phase s w'" "sy_inserted s' = sy_inserted s" "sy_handled s' = sy_handled s"
  | (claimed) batch lease where "sy_phase s w = WorkerPolled batch"
      "sy_db s' = bump_main lease (batch_fences batch) (sy_db s)"
      "sy_claims s' = sy_claims s @ map (\<lambda>r. (w, ow_id r, ow_attempts r + 1))
          (filter (claimed_row (batch_fences batch)) (db_main (sy_db s)))"
      "\<And>e. e \<in> set (held_envelopes (sy_phase s' w)) \<Longrightarrow> e \<in> set batch
          \<and> (\<exists>q\<in>set (db_main (sy_db s)). ow_event_id q = oe_event_id e \<and> claimed_row (batch_fences batch) q)"
      "seen_envelopes (sy_phase s' w) = held_envelopes (sy_phase s' w)"
      "\<And>e r es. sy_phase s' w \<noteq> WorkerSettling e r es" "\<And>es. sy_phase s' w \<noteq> WorkerPolled es"
      "\<And>w'. w' \<noteq> w \<Longrightarrow> sy_phase s' w' = sy_phase s w'" "sy_inserted s' = sy_inserted s" "sy_handled s' = sy_handled s"
proof -
  obtain batch where batch: "sy_phase s w = WorkerPolled batch"
    using assms by (auto simp: step_claim_def split: worker_phase.splits)
  obtain r db where cb: "claim_batch c (sql_store b) fate batch (sy_db s) = (r, db)" by (rule prod.exhaust)
  have s': "s' = s\<lparr>sy_db := db,
      sy_phase := (sy_phase s)(w := (case r of Inl _ \<Rightarrow> WorkerIdle | Inr envelopes \<Rightarrow> WorkerWorking envelopes)),
      sy_claims := sy_claims s @ claims_between w (db_main (sy_db s)) (db_main db)\<rparr>"
    using assms batch cb by (simp add: step_claim_def)
  from claim_batch_tables [OF cb] show ?thesis
  proof
    assume "db = sy_db s \<and> (\<forall>es. r = Inr es \<longrightarrow> es = [])"
    then have db: "db = sy_db s" and es: "\<forall>es. r = Inr es \<longrightarrow> es = []" by auto
    show ?thesis by (rule unchanged [OF batch]) (use es in \<open>auto simp: s' db split: sum.splits\<close>)
  next
    assume "\<exists>lease. db = bump_main lease (batch_fences batch) (sy_db s) \<and> (\<forall>es. r = Inr es \<longrightarrow> es =
      filter (\<lambda>e. \<exists>q\<in>set (db_main (sy_db s)). ow_event_id q = oe_event_id e \<and> claimed_row (batch_fences batch) q) batch)"
    then obtain lease where db: "db = bump_main lease (batch_fences batch) (sy_db s)" and es: "\<forall>es. r = Inr es \<longrightarrow> es =
      filter (\<lambda>e. \<exists>q\<in>set (db_main (sy_db s)). ow_event_id q = oe_event_id e \<and> claimed_row (batch_fences batch) q) batch" by blast
    show ?thesis
      by (rule claimed [OF batch]) (use es in \<open>auto simp: s' db bump_main_def claims_between_bump split: sum.splits\<close>)
  qed
qed

lemma step_claim_inv:
  assumes step: "step_claim c b w fate s = Some s'" and inv: "inv_content s" "inv_claims (owc_max_attempts c) s"
    "inv_held (owc_max_attempts c) s" "inv_delivered s"
  shows "inv_content s' \<and> inv_claims (owc_max_attempts c) s' \<and> inv_held (owc_max_attempts c) s' \<and> inv_delivered s'"
  using step
proof (cases rule: step_claim_cases)
  case (unchanged batch)
  have "held_envelopes (sy_phase s' w') = (if w' = w then [] else held_envelopes (sy_phase s w'))"
    "seen_envelopes (sy_phase s' w') = (if w' = w then [] else seen_envelopes (sy_phase s w'))" for w'
    using unchanged by auto
  then show ?thesis
    using inv unchanged by (auto simp: inv_content_def inv_claims_def inv_held_def inv_delivered_def) (metis held_envelopes.simps(4) list.distinct(1))+
next
  case (claimed batch lease)
  let ?rs = "db_main (sy_db s)" and ?ps = "batch_fences batch"
  have main: "db_main (sy_db s') = map (bump lease ?ps) ?rs" "db_next_id (sy_db s') = db_next_id (sy_db s)"
    using claimed(2) by (simp_all add: bump_main_def)
  have content: "inv_content s'"
    by (rule inv_content_same [OF inv(1) bump_same_content]) (use claimed in \<open>auto simp: bump_main_def\<close>)
  have attempts: "0 \<le> ow_attempts r" "ow_id r < db_next_id (sy_db s)" "ow_id r < length (sy_inserted s)"
    "fst (sy_inserted s ! ow_id r) = ow_event_id r" if "r \<in> set ?rs" for r
    using inv(1) that by (auto simp: inv_content_def db_ok_def row_content_def)
  have ids: "distinct (map ow_id ?rs)" using inv(1) by (simp add: inv_content_def db_ok_def)
  have row: "claims_of (ow_id r) (sy_claims s') = [1..ow_attempts (bump lease ?ps r)]" if "r \<in> set ?rs" for r
    using that inv(2) attempts(1) [OF that] claims_of_bump [OF ids that]
    by (simp add: claimed(3) inv_claims_def upto_snoc)
  have some: "\<exists>n. claims_of i (sy_claims s') = [1..n]" for i
  proof (cases "i \<in> ow_id ` set ?rs")
    case True
    then show ?thesis using row by auto
  next
    case False
    then show ?thesis using inv(2) claims_of_bump_other [OF False] by (simp add: claimed(3) inv_claims_def)
  qed
  have seen: "oe_attempts e < owc_max_attempts c" if "e \<in> set batch" for e
    using inv_held_bound [OF inv(3), of e w] claimed(1) that by simp
  have new: "i < db_next_id (sy_db s') \<and> k \<le> uint (owc_max_attempts c)"
    if mem: "(v, i, k) \<in> set (map (\<lambda>r. (w, ow_id r, ow_attempts r + 1)) (filter (claimed_row ?ps) ?rs))" for v i k
  proof -
    obtain r where r: "r \<in> set ?rs" "claimed_row ?ps r" "i = ow_id r" "k = ow_attempts r + 1" using mem by auto
    then obtain e where "e \<in> set batch" "uint (oe_attempts e) = ow_attempts r" by (auto simp: claimed_batch_row)
    then show ?thesis using seen [of e] r attempts(2) [of r] by (simp add: main word_less_def)
  qed
  have claims: "inv_claims (owc_max_attempts c) s'"
    unfolding inv_claims_def
  proof (intro conjI allI ballI)
    show "claims_of (ow_id r) (sy_claims s') = [1..ow_attempts r]" if "r \<in> set (db_main (sy_db s'))" for r
      using that row by (auto simp only: main(1) set_map image_iff bump_simps(1))
    show "case t of (w, i, k) \<Rightarrow> i < db_next_id (sy_db s') \<and> k \<le> uint (owc_max_attempts c)" if "t \<in> set (sy_claims s')" for t
    proof -
      obtain v i k where t: "t = (v, i, k)" by (rule prod_cases3)
      then show ?thesis using that new [of v i k] inv(2) by (auto simp only: claimed(3) set_append Un_iff inv_claims_def main(2) split: prod.splits)
    qed
  qed (rule some)
  have own: "\<exists>i<length (sy_inserted s'). fst (sy_inserted s' ! i) = oe_event_id e \<and> (w, i, uint (oe_attempts e) + 1) \<in> set (sy_claims s')"
    if mem: "e \<in> set (held_envelopes (sy_phase s' w))" for e
  proof -
    obtain q where q: "q \<in> set ?rs" "ow_event_id q = oe_event_id e" "claimed_row ?ps q" and e: "e \<in> set batch"
      using claimed(4) [OF mem] by blast
    then obtain e' where "e' \<in> set batch" "oe_event_id e' = oe_event_id e" "uint (oe_attempts e') = ow_attempts q"
      by (auto simp: claimed_batch_row)
    moreover have "distinct (map oe_event_id batch)" using inv(3) claimed(1) by (simp add: inv_held_def)
    ultimately have "uint (oe_attempts e) = ow_attempts q" using e by (auto simp: distinct_map inj_on_def)
    then have "(w, ow_id q, uint (oe_attempts e) + 1) \<in> set (sy_claims s')" using q by (auto simp: claimed(3))
    then show ?thesis using attempts(3,4) [OF q(1)] q(2) by (auto simp: claimed(9))
  qed
  have "inv_held (owc_max_attempts c) s'"
    unfolding inv_held_def
  proof (intro conjI allI ballI impI)
    fix w' e
    show "oe_attempts e < owc_max_attempts c" if "e \<in> set (seen_envelopes (sy_phase s' w'))"
      using that seen claimed(4,5) claimed(8) [of w'] inv(3) by (cases "w' = w") (auto simp: inv_held_def)
    show "\<exists>i<length (sy_inserted s'). fst (sy_inserted s' ! i) = oe_event_id e \<and> (w', i, uint (oe_attempts e) + 1) \<in> set (sy_claims s')"
      if "e \<in> set (held_envelopes (sy_phase s' w'))"
    proof (cases "w' = w")
      case True
      then show ?thesis using own that by simp
    next
      case False
      then have "e \<in> set (held_envelopes (sy_phase s w'))" using that claimed(8) by simp
      from inv_held_claim [OF inv(3) this] show ?thesis unfolding claimed(3,9) set_append by blast
    qed
  next
    fix w' es assume "sy_phase s' w' = WorkerPolled es"
    then show "distinct (map oe_event_id es)"
      using claimed(7) claimed(8) [of w'] inv(3) by (cases "w' = w") (auto simp: inv_held_def)
  qed
  moreover have "inv_delivered s'"
    unfolding inv_delivered_def
  proof (intro conjI allI impI ballI)
    show "(oe_event_id e, oe_attempts e + 1) \<in> set (sy_handled s')" if "sy_phase s' w' = WorkerSettling e (Inr u) es" for w' e u es
      using that inv_settling_handled [OF inv(4), of w' e u es] claimed(6,10) claimed(8) [of w'] by (cases "w' = w") auto
    show "\<exists>k. (ow_event_id r', k) \<in> set (sy_handled s') \<and> uint k \<le> ow_attempts r'"
      if mem: "r' \<in> set (db_main (sy_db s'))" "ow_delivered_at r' \<noteq> None" for r'
    proof -
      obtain r where r: "r \<in> set ?rs" "r' = bump lease ?ps r" using mem(1) by (auto simp: main)
      then obtain k where "(ow_event_id r, k) \<in> set (sy_handled s)" "uint k \<le> ow_attempts r"
        using inv_delivered_row [OF inv(4), of r] mem(2) by auto
      then show ?thesis using r(2) by (auto simp: claimed(10) intro!: exI [of _ k])
    qed
  qed
  ultimately show ?thesis using content claims by blast
qed

definition sys_inv :: "u32 \<Rightarrow> ('j, 't, 'w) outbox_sys \<Rightarrow> bool" where
  "sys_inv bound s \<longleftrightarrow> inv_content s \<and> inv_claims bound s \<and> inv_held bound s \<and> inv_delivered s"

lemma inv_heldI:
  assumes "inv_held bound s"
    and "\<And>w. set (seen_envelopes (sy_phase s' w)) \<subseteq> set (seen_envelopes (sy_phase s w))"
    and "\<And>w. set (held_envelopes (sy_phase s' w)) \<subseteq> set (held_envelopes (sy_phase s w))"
    and "\<And>w es. sy_phase s' w = WorkerPolled es \<Longrightarrow> sy_phase s w = WorkerPolled es"
    and "sy_claims s' = sy_claims s" and "\<exists>more. sy_inserted s' = sy_inserted s @ more"
  shows "inv_held bound s'"
  unfolding inv_held_def
proof (intro conjI allI ballI impI)
  show "oe_attempts e < bound" if "e \<in> set (seen_envelopes (sy_phase s' w))" for w e
    using that assms(1,2) inv_held_bound by blast
  show "distinct (map oe_event_id es)" if "sy_phase s' w = WorkerPolled es" for w es
    using assms(4) [OF that] assms(1) by (simp add: inv_held_def)
  show "\<exists>i<length (sy_inserted s'). fst (sy_inserted s' ! i) = oe_event_id e \<and> (w, i, uint (oe_attempts e) + 1) \<in> set (sy_claims s')"
    if "e \<in> set (held_envelopes (sy_phase s' w))" for w e
  proof -
    have "e \<in> set (held_envelopes (sy_phase s w))" using that assms(3) by blast
    from inv_held_claim [OF assms(1) this] show ?thesis using assms(5,6) by (auto simp: nth_append)
  qed
qed

lemma dispatch_succeeds:
  "outbox_dispatch c handlers e w = (Some (Inr u), w') \<Longrightarrow> handler_succeeds c handlers e w"
  by (auto simp: outbox_dispatch_def handler_succeeds_def Let_def
      split: option.splits prod.splits handling.splits if_splits)

lemma step_dispatch_inv:
  assumes "step_dispatch c w handlers s = Some s'" and inv: "sys_inv bound s"
  shows "sys_inv bound s'"
proof -
  obtain es where phase: "sy_phase s w = WorkerWorking es"
    using assms(1) by (auto simp: step_dispatch_def split: worker_phase.splits)
  have same: "sy_db s' = sy_db s" "sy_inserted s' = sy_inserted s" "sy_claims s' = sy_claims s"
    "\<And>w'. w' \<noteq> w \<Longrightarrow> sy_phase s' w' = sy_phase s w'" "set (sy_handled s) \<subseteq> set (sy_handled s')"
    and own: "sy_phase s' w = WorkerIdle \<or> (\<exists>e es' r. es = e # es' \<and> sy_phase s' w = WorkerSettling e r es'
        \<and> (\<forall>u. r = Inr u \<longrightarrow> (oe_event_id e, oe_attempts e + 1) \<in> set (sy_handled s')))"
    using assms(1) phase by (auto simp: step_dispatch_def dest: dispatch_succeeds split: list.splits prod.splits option.splits)
  have "inv_held bound s'"
  proof (rule inv_heldI)
    show "inv_held bound s" using inv by (simp add: sys_inv_def)
    fix w'
    show "set (seen_envelopes (sy_phase s' w')) \<subseteq> set (seen_envelopes (sy_phase s w'))"
      "set (held_envelopes (sy_phase s' w')) \<subseteq> set (held_envelopes (sy_phase s w'))"
      using own phase same(4) [of w'] by (cases "w' = w"; auto)+
    show "sy_phase s w' = WorkerPolled es'" if "sy_phase s' w' = WorkerPolled es'" for es'
      using that own same(4) [of w'] by (cases "w' = w") auto
  qed (use same in simp_all)
  moreover have "inv_delivered s'"
    unfolding inv_delivered_def
  proof (intro conjI allI impI ballI)
    show "(oe_event_id e, oe_attempts e + 1) \<in> set (sy_handled s')" if "sy_phase s' w' = WorkerSettling e (Inr u) es'" for w' e u es'
      using that own same(4,5) inv_settling_handled [of s w' e u es'] inv by (cases "w' = w") (auto simp: sys_inv_def)
    show "\<exists>k. (ow_event_id r, k) \<in> set (sy_handled s') \<and> uint k \<le> ow_attempts r"
      if "r \<in> set (db_main (sy_db s'))" "ow_delivered_at r \<noteq> None" for r
      using inv_delivered_row [of s r] inv that same by (fastforce simp: sys_inv_def)
  qed
  ultimately show ?thesis using inv same by (simp add: sys_inv_def inv_content_def inv_claims_def)
qed

lemma dead_letter_content:
  assumes ok: "db_ok db" and r: "r \<in> set (db_main db)" "ow_event_id r = i"
  shows "add_mset (row_content r) (mset (map row_content (filter (\<lambda>q. ow_event_id q \<noteq> i) (db_main db)))) = mset (map row_content (db_main db))"
proof -
  have "distinct (map ow_event_id rs) \<Longrightarrow> r \<in> set rs \<Longrightarrow>
      add_mset (row_content r) (mset (map row_content (filter (\<lambda>q. ow_event_id q \<noteq> i) rs))) = mset (map row_content rs)" for rs
  proof (induction rs)
    case (Cons q rs)
    show ?case
    proof (cases "q = r")
      case True
      then have "\<forall>p\<in>set rs. ow_event_id p \<noteq> i" using Cons.prems(1) r(2) by (auto simp: image_iff)
      then have "filter (\<lambda>q. ow_event_id q \<noteq> i) rs = rs" by simp
      then show ?thesis using True r(2) by simp
    next
      case False
      then have "ow_event_id q \<noteq> i" using Cons.prems r(2) by auto
      then show ?thesis using False Cons by simp
    qed
  qed simp
  then show ?thesis using ok r(1) by (simp add: db_ok_def)
qed

lemma row_update_inv:
  assumes inv: "sys_inv bound s" and update: "settled_row_update i k success (sy_db s) (sy_db s')"
    and handled: "success \<Longrightarrow> \<exists>kw. k = uint kw \<and> (i, kw) \<in> set (sy_handled s')"
    and same: "sy_inserted s' = sy_inserted s" "sy_claims s' = sy_claims s" "sy_handled s' = sy_handled s"
  shows "inv_content s' \<and> inv_claims bound s'
    \<and> (\<forall>r\<in>set (db_main (sy_db s')). ow_delivered_at r \<noteq> None \<longrightarrow>
        (\<exists>k. (ow_event_id r, k) \<in> set (sy_handled s') \<and> uint k \<le> ow_attempts r))"
proof (intro conjI ballI impI)
  obtain f where f: "\<And>r. same_event r (f r)" "\<And>r. success \<or> ow_delivered_at (f r) = ow_delivered_at r"
    and db: "sy_db s' = (sy_db s)\<lparr>db_main := map (\<lambda>r. if row_fenced i k r then f r else r) (db_main (sy_db s))\<rparr>"
    using update by (auto simp: settled_row_update_def)
  let ?g = "\<lambda>r. if row_fenced i k r then f r else r"
  have g: "ow_id (?g r) = ow_id r" "row_content (?g r) = row_content r" "ow_attempts (?g r) = ow_attempts r" for r
    using f(1) [of r] by (simp_all add: same_event_def)
  show "inv_content s'"
    by (rule inv_content_same [OF _ _ _ db same(1)]) (use inv g in \<open>simp_all add: sys_inv_def\<close>)
  show "inv_claims bound s'"
    using inv f(1) same(2) by (auto simp: sys_inv_def inv_claims_def db same_event_def)
  fix r' assume r': "r' \<in> set (db_main (sy_db s'))" "ow_delivered_at r' \<noteq> None"
  then obtain r where r: "r \<in> set (db_main (sy_db s))" "r' = ?g r" by (auto simp: db)
  have ev: "ow_event_id r' = ow_event_id r" using g(2) [of r] r(2) by (simp add: row_content_def)
  show "\<exists>k. (ow_event_id r', k) \<in> set (sy_handled s') \<and> uint k \<le> ow_attempts r'"
  proof (cases "ow_delivered_at r = None")
    case True
    then have "row_fenced i k r" "success" using r' r(2) f(2) [of r] by (auto split: if_splits)
    then show ?thesis using handled g(3) [of r] ev r(2) by (auto simp: row_fenced_def)
  next
    case False
    then show ?thesis using inv_delivered_row [of s r] inv r g(3) [of r] ev same(3) by (auto simp: sys_inv_def)
  qed
qed

lemma dead_letter_inv:
  assumes inv: "sys_inv bound s" and dead: "settled_dead_letter i k (sy_db s) (sy_db s')"
    and same: "sy_inserted s' = sy_inserted s" "sy_claims s' = sy_claims s" "sy_handled s' = sy_handled s"
  shows "inv_content s' \<and> inv_claims bound s'
    \<and> (\<forall>r\<in>set (db_main (sy_db s')). ow_delivered_at r \<noteq> None \<longrightarrow>
        (\<exists>k. (ow_event_id r, k) \<in> set (sy_handled s') \<and> uint k \<le> ow_attempts r))"
proof -
  obtain r d where r: "r \<in> set (db_main (sy_db s))" "row_fenced i k r" and d: "dead_content d = row_content r"
    "i \<notin> dl_event_id ` set (db_dead (sy_db s))"
    and db: "sy_db s' = (sy_db s)\<lparr>db_main := filter (\<lambda>q. ow_event_id q \<noteq> i) (db_main (sy_db s)),
        db_dead := db_dead (sy_db s) @ [d], db_next_dead := Suc (db_next_dead (sy_db s))\<rparr>"
    using dead by (auto simp: settled_dead_letter_def)
  have content: "inv_content s" and ok: "db_ok (sy_db s)" using inv by (auto simp: sys_inv_def inv_content_def)
  have "dl_event_id d = i" using d(1) r(2) by (simp add: dead_content_def row_content_def row_fenced_def)
  then have "db_ok (sy_db s')" using ok d(2) by (auto simp: db db_ok_def distinct_map_filter)
  moreover have "mset (map row_content (db_main (sy_db s'))) + mset (map dead_content (db_dead (sy_db s'))) = mset (sy_inserted s')"
  proof -
    have "mset (map row_content (db_main (sy_db s'))) + mset (map dead_content (db_dead (sy_db s')))
        = add_mset (row_content r) (mset (map row_content (filter (\<lambda>q. ow_event_id q \<noteq> i) (db_main (sy_db s)))))
          + mset (map dead_content (db_dead (sy_db s)))"
      by (simp add: db d(1))
    also have "\<dots> = mset (sy_inserted s')"
      unfolding dead_letter_content [OF ok r(1) fenced_event [OF r(2)]] using content by (simp add: inv_content_def same(1))
    finally show ?thesis .
  qed
  ultimately have "inv_content s'" using content by (simp add: inv_content_def db same(1))
  moreover have "inv_claims bound s'" using inv by (simp add: sys_inv_def inv_claims_def db same(2))
  ultimately show ?thesis using inv_delivered_row [of s] inv by (simp add: sys_inv_def db same(3))
qed

lemma step_settle_inv:
  assumes step: "step_settle c b display w draw fate s = Some s'" and inv: "sys_inv (owc_max_attempts c) s"
  shows "sys_inv (owc_max_attempts c) s'"
proof -
  obtain e outcome es where phase: "sy_phase s w = WorkerSettling e outcome es"
    using step by (auto simp: step_settle_def split: worker_phase.splits)
  then have s': "s' = s\<lparr>sy_db := snd (outbox_settle c (sql_store b) display draw fate e outcome (sy_db s)),
      sy_phase := (sy_phase s)(w := WorkerWorking es)\<rparr>"
    using step by (simp add: step_settle_def)
  have ok: "db_ok (sy_db s)" using inv by (simp add: sys_inv_def inv_content_def)
  have handled: "outcome = Inr () \<Longrightarrow> (oe_event_id e, oe_attempts e + 1) \<in> set (sy_handled s)"
    using inv_settling_handled [of s w e] inv phase by (simp add: sys_inv_def)
  from settle_tables [OF ok, of "sy_db s'" c b display draw fate e outcome]
  have tables: "inv_content s' \<and> inv_claims (owc_max_attempts c) s' \<and> (\<forall>r\<in>set (db_main (sy_db s')).
      ow_delivered_at r \<noteq> None \<longrightarrow> (\<exists>k. (ow_event_id r, k) \<in> set (sy_handled s') \<and> uint k \<le> ow_attempts r))"
  proof (rule disjE)
    assume "settled_row_update (oe_event_id e) (uint (oe_attempts e + 1)) (outcome = Inr ()) (sy_db s) (sy_db s')"
    then show ?thesis by (rule row_update_inv [OF inv]) (use handled in \<open>auto simp: s'\<close>)
  next
    assume "owc_max_attempts c \<le> oe_attempts e + 1 \<and> settled_dead_letter (oe_event_id e) (uint (oe_attempts e + 1)) (sy_db s) (sy_db s')"
    then show ?thesis by (intro dead_letter_inv [OF inv]) (auto simp: s')
  qed (simp add: s')
  have "inv_held (owc_max_attempts c) s'"
    by (rule inv_heldI [of _ s]) (use inv phase in \<open>auto simp: sys_inv_def s' split: if_splits\<close>)
  moreover have "inv_delivered s'"
    unfolding inv_delivered_def
  proof (intro conjI allI impI)
    show "(oe_event_id e', oe_attempts e' + 1) \<in> set (sy_handled s')"
      if "sy_phase s' w' = WorkerSettling e' (Inr u) es'" for w' e' u es'
      using that inv_settling_handled [of s w' e' u es'] inv by (auto simp: s' sys_inv_def split: if_splits)
  qed (use tables in simp)
  ultimately show ?thesis using tables by (simp add: sys_inv_def)
qed

lemma step_insert_inv:
  assumes step: "step_insert i t j sub s = Some s'" and inv: "sys_inv bound s"
  shows "sys_inv bound s'"
proof (cases "has_event i (sy_db s)")
  case True
  then show ?thesis using step inv by (simp add: step_insert_def insert_row_def)
next
  case False
  let ?row = "fresh_row i t j sub (sy_db s)" and ?n = "db_next_id (sy_db s)"
  have s': "s' = s\<lparr>sy_db := (sy_db s)\<lparr>db_main := db_main (sy_db s) @ [?row], db_next_id := Suc ?n\<rparr>,
      sy_inserted := sy_inserted s @ [(i, t, j, sub)]\<rparr>"
    using step False by (simp add: step_insert_def insert_row_def)
  have row: "ow_id ?row = ?n" "ow_event_id ?row = i" "ow_attempts ?row = 0" "ow_delivered_at ?row = None"
    "row_content ?row = (i, t, j, sub)"
    by (simp_all add: fresh_row_def row_content_def)
  have content: "inv_content s" "length (sy_inserted s) = ?n" using inv by (simp_all add: sys_inv_def inv_content_def)
  have "i \<notin> ow_event_id ` set (db_main (sy_db s))" using False by (auto simp: has_event_def list_ex_iff)
  then have "inv_content s'"
    using content by (auto simp: inv_content_def s' db_ok_def row nth_append)
  moreover have "claims_of ?n (sy_claims s) = []"
    using inv by (auto simp: sys_inv_def inv_claims_def claims_of_def filter_empty_conv)
  then have "inv_claims bound s'"
    using inv by (auto simp: sys_inv_def inv_claims_def s' row less_SucI)
  moreover have "inv_held bound s'"
    by (rule inv_heldI [of _ s]) (use inv in \<open>simp_all add: sys_inv_def s'\<close>)
  moreover have "inv_delivered s'" using inv by (simp add: sys_inv_def inv_delivered_def s' row)
  ultimately show ?thesis by (simp add: sys_inv_def)
qed

lemma sys_inv_db_env:
  assumes inv: "sys_inv bound s"
    and same: "db_main db = db_main (sy_db s)" "db_dead db = db_dead (sy_db s)" "db_next_id db = db_next_id (sy_db s)"
  shows "sys_inv bound (s\<lparr>sy_db := db\<rparr>)"
proof -
  have "inv_held bound (s\<lparr>sy_db := db\<rparr>)"
    by (rule inv_heldI [of _ s]) (use inv in \<open>simp_all add: sys_inv_def\<close>)
  then show ?thesis
    using inv by (simp add: sys_inv_def inv_content_def inv_claims_def inv_delivered_def db_ok_def same)
qed

lemma step_crash_inv:
  assumes "sys_inv bound s"
  shows "sys_inv bound (s\<lparr>sy_phase := (sy_phase s)(w := WorkerIdle)\<rparr>)"
proof -
  let ?s = "s\<lparr>sy_phase := (sy_phase s)(w := WorkerIdle)\<rparr>"
  have "inv_held bound ?s"
    by (rule inv_heldI [of _ s]) (use assms in \<open>auto simp: sys_inv_def split: if_splits\<close>)
  then show ?thesis using assms by (auto simp: sys_inv_def inv_content_def inv_claims_def inv_delivered_def)
qed

lemma sys_step_inv:
  assumes "sys_step c b display ev s = Some s'" and "sys_inv (owc_max_attempts c) s"
  shows "sys_inv (owc_max_attempts c) s'"
proof (cases ev)
  case (WorkerPoll w)
  then have step: "step_poll c b w s = Some s'" and content: "inv_content s" using assms by (simp_all add: sys_inv_def)
  note poll = step_poll_inv [OF step content]
  show ?thesis
    using assms(2) poll(5,6) by (simp add: sys_inv_def inv_content_def inv_claims_def poll(1-4))
next
  case (WorkerClaim w fate)
  then show ?thesis using step_claim_inv [of c b w fate s s'] assms by (simp add: sys_inv_def)
next
  case (EnqueueEvent i t j)
  then have "s' = s \<or> step_insert i t j None s = Some s'"
    using assms(1) by (auto split: sum.splits bool.splits)
  then show ?thesis using assms(2) by (auto intro: step_insert_inv)
qed (use assms step_dispatch_inv step_settle_inv step_insert_inv step_crash_inv in \<open>auto intro!: sys_inv_db_env\<close>)

lemma sys_run_inv:
  "sys_run c b display evs s = Some s' \<Longrightarrow> sys_inv (owc_max_attempts c) s \<Longrightarrow> sys_inv (owc_max_attempts c) s'"
  by (induction evs arbitrary: s) (auto split: bind_splits dest: sys_step_inv)

lemma sys_init_inv: "sys_inv bound (sys_init now w)"
  by (simp add: sys_inv_def sys_init_def inv_content_def inv_claims_def inv_held_def inv_delivered_def db_ok_def claims_of_def
      exI [of _ "0::int"])

lemmas reachable_inv = sys_run_inv [OF _ sys_init_inv]

section \<open>Rows that no longer change\<close>

lemma settled_keeps_row:
  assumes ok: "db_ok db" and r: "r \<in> set (db_main db)" and lost: "\<not> row_fenced i k r"
    and settled: "settled_row_update i k success db db' \<or> settled_dead_letter i k db db'"
  shows "r \<in> set (db_main db')"
  using settled
proof
  assume "settled_row_update i k success db db'"
  then show ?thesis using r lost by (force simp: settled_row_update_def)
next
  assume "settled_dead_letter i k db db'"
  then obtain q where q: "q \<in> set (db_main db)" "row_fenced i k q"
    and main: "db_main db' = filter (\<lambda>q. ow_event_id q \<noteq> i) (db_main db)"
    by (auto simp: settled_dead_letter_def)
  have "ow_event_id r \<noteq> i"
    using row_of_Some [OF ok, of i q] row_of_Some [OF ok, of i r] q r lost fenced_event [OF q(2)] by auto
  then show ?thesis using r main by simp
qed

lemma step_settle_keeps_row:
  assumes step: "step_settle c b display w draw fate s = Some s'" and ok: "db_ok (sy_db s)"
    and r: "r \<in> set (db_main (sy_db s))"
    and lost: "\<And>e outcome es. sy_phase s w = WorkerSettling e outcome es \<Longrightarrow> \<not> row_fenced (oe_event_id e) (uint (oe_attempts e + 1)) r"
  shows "r \<in> set (db_main (sy_db s'))"
proof -
  obtain e outcome es where phase: "sy_phase s w = WorkerSettling e outcome es"
    and db: "sy_db s' = snd (outbox_settle c (sql_store b) display draw fate e outcome (sy_db s))"
    using step by (auto simp: step_settle_def split: worker_phase.splits)
  show ?thesis
    using settled_keeps_row [OF ok r lost [OF phase]] settle_tables [OF ok db] by blast
qed

lemma step_insert_keeps_row:
  "step_insert i t j sub s = Some s' \<Longrightarrow> r \<in> set (db_main (sy_db s)) \<Longrightarrow> r \<in> set (db_main (sy_db s'))"
  by (auto simp: step_insert_def insert_row_def split: if_splits)

lemma enqueue_step:
  "sys_step c b display (EnqueueEvent i t j) s = Some s' \<Longrightarrow> s' = s \<or> step_insert i t j None s = Some s'"
  by (auto split: sum.splits bool.splits)

lemma step_delivered_row:
  assumes step: "sys_step c b display ev s = Some s'" and ok: "db_ok (sy_db s)"
    and r: "r \<in> set (db_main (sy_db s))" "ow_delivered_at r \<noteq> None"
  shows "\<exists>r'\<in>set (db_main (sy_db s')). ow_id r' = ow_id r \<and> row_content r' = row_content r \<and> ow_delivered_at r' = ow_delivered_at r"
proof (cases ev)
  case (WorkerClaim w fate)
  then have "step_claim c b w fate s = Some s'" using step by simp
  then show ?thesis
  proof (cases rule: step_claim_cases)
    case (unchanged batch)
    then show ?thesis using r by auto
  next
    case (claimed batch lease)
    then have "bump lease (batch_fences batch) r \<in> set (db_main (sy_db s'))" using r by (simp add: bump_main_def)
    then show ?thesis using bump_same_content by (metis bump_simps(8))
  qed
next
  case (WorkerSettle w draw fate)
  then have "step_settle c b display w draw fate s = Some s'" using step by simp
  then have "r \<in> set (db_main (sy_db s'))"
    by (rule step_settle_keeps_row [OF _ ok r(1)]) (use r(2) in \<open>simp add: row_fenced_def\<close>)
  then show ?thesis by auto
next
  case (EnqueueEvent i t j)
  then have "s' = s \<or> step_insert i t j None s = Some s'" using step enqueue_step [of c b display i t j s s'] by simp
  then have "r \<in> set (db_main (sy_db s'))" using r(1) by (auto intro: step_insert_keeps_row)
  then show ?thesis by auto
next
  case (PublishEvent i t j sub)
  then show ?thesis using step r(1) step_insert_keeps_row [of i t j sub s s' r] by auto
next
  case (WorkerPoll w)
  then have "sy_db s' = sy_db s" using step by (auto simp: step_poll_def split: worker_phase.splits sum.splits)
  then show ?thesis using r(1) by auto
next
  case (WorkerDispatch w handlers)
  then have "sy_db s' = sy_db s"
    using step by (auto simp: step_dispatch_def split: worker_phase.splits list.splits prod.splits option.splits)
  then show ?thesis using r(1) by auto
qed (use step r(1) in auto)

text \<open>A row whose attempts are spent and whose last attempt nobody holds any more.\<close>

definition stranded_row :: "u32 \<Rightarrow> ('j, 't) outbox_row \<Rightarrow> ('j, 't, 'w) outbox_sys \<Rightarrow> bool" where
  "stranded_row bound r s \<longleftrightarrow> r \<in> set (db_main (sy_db s)) \<and> ow_delivered_at r = None \<and> uint bound \<le> ow_attempts r
     \<and> (\<forall>w. \<forall>e\<in>set (held_envelopes (sy_phase s w)). oe_event_id e = ow_event_id r \<longrightarrow> uint (oe_attempts e) + 1 \<noteq> ow_attempts r)"

lemma stranded_rowI:
  assumes "stranded_row bound r s" and "r \<in> set (db_main (sy_db s'))"
    and "\<And>w e. e \<in> set (held_envelopes (sy_phase s' w)) \<Longrightarrow> oe_event_id e = ow_event_id r \<Longrightarrow> e \<in> set (held_envelopes (sy_phase s w))"
  shows "stranded_row bound r s'"
  using assms unfolding stranded_row_def by blast

lemma stranded_claim:
  assumes step: "step_claim c b w fate s = Some s'" and inv: "sys_inv (owc_max_attempts c) s"
    and r: "stranded_row (owc_max_attempts c) r s"
  shows "stranded_row (owc_max_attempts c) r s'"
  using step
proof (cases rule: step_claim_cases)
  case (unchanged batch)
  show ?thesis
  proof (rule stranded_rowI [OF r])
    show "r \<in> set (db_main (sy_db s'))" using r unchanged(2) by (simp add: stranded_row_def)
    show "e \<in> set (held_envelopes (sy_phase s w'))" if "e \<in> set (held_envelopes (sy_phase s' w'))" for w' e
      using that unchanged(4) unchanged(7) [of w'] by (cases "w' = w") auto
  qed
next
  case (claimed batch lease)
  have ok: "db_ok (sy_db s)" using inv by (simp add: sys_inv_def inv_content_def)
  have mem: "r \<in> set (db_main (sy_db s))" using r by (simp add: stranded_row_def)
  have free: "\<not> claimed_row (batch_fences batch) r"
  proof
    assume "claimed_row (batch_fences batch) r"
    then obtain e where e: "e \<in> set batch" "uint (oe_attempts e) = ow_attempts r" by (auto simp: claimed_batch_row)
    then have "oe_attempts e < owc_max_attempts c"
      using inv_held_bound [of "owc_max_attempts c" s e w] inv claimed(1) by (simp add: sys_inv_def)
    then show False using e(2) r by (simp add: stranded_row_def word_less_def)
  qed
  then have "bump lease (batch_fences batch) r = r" by (simp add: bump_def)
  then have "r \<in> set (db_main (sy_db s'))" using mem by (force simp: claimed(2) bump_main_def)
  moreover have "oe_event_id e \<noteq> ow_event_id r" if "e \<in> set (held_envelopes (sy_phase s' w))" for e
  proof
    assume "oe_event_id e = ow_event_id r"
    with claimed(4) [OF that] obtain q where "q \<in> set (db_main (sy_db s))" "ow_event_id q = ow_event_id r" "claimed_row (batch_fences batch) q"
      by auto
    then have "q = r" using row_of_Some [OF ok, of "ow_event_id r" q] row_of_Some [OF ok, of "ow_event_id r" r] mem by simp
    then show False using free \<open>claimed_row (batch_fences batch) q\<close> by simp
  qed
  ultimately show ?thesis
    by (intro stranded_rowI [OF r]) (metis claimed(8))+
qed

lemma held_step_poll:
  "step_poll c b w s = Some s' \<Longrightarrow> set (held_envelopes (sy_phase s' w')) \<subseteq> set (held_envelopes (sy_phase s w')) \<and> sy_db s' = sy_db s"
  by (cases "w' = w") (auto simp: step_poll_def split: worker_phase.splits sum.splits)

lemma held_step_dispatch:
  "step_dispatch c w handlers s = Some s' \<Longrightarrow>
   set (held_envelopes (sy_phase s' w')) \<subseteq> set (held_envelopes (sy_phase s w')) \<and> sy_db s' = sy_db s"
  by (cases "w' = w") (auto simp: step_dispatch_def split: worker_phase.splits list.splits prod.splits option.splits)

lemma held_step_settle:
  "step_settle c b display w draw fate s = Some s' \<Longrightarrow> set (held_envelopes (sy_phase s' w')) \<subseteq> set (held_envelopes (sy_phase s w'))"
  by (cases "w' = w") (auto simp: step_settle_def split: worker_phase.splits)

lemma held_step_insert: "step_insert i t j sub s = Some s' \<Longrightarrow> sy_phase s' = sy_phase s"
  by (auto simp: step_insert_def split: sum.splits)

lemma held_step:
  assumes "sys_step c b display ev s = Some s'" and "\<And>w fate. ev \<noteq> WorkerClaim w fate"
  shows "set (held_envelopes (sy_phase s' w')) \<subseteq> set (held_envelopes (sy_phase s w'))"
proof (cases ev)
  case (WorkerPoll w)
  then show ?thesis using assms(1) held_step_poll [of c b w s s' w'] by simp
next
  case (WorkerDispatch w handlers)
  then show ?thesis using assms(1) held_step_dispatch [of c w handlers s s' w'] by simp
next
  case (WorkerSettle w draw fate)
  then show ?thesis using assms(1) held_step_settle [of c b display w draw fate s s' w'] by simp
next
  case (PublishEvent i t j sub)
  then show ?thesis using assms(1) held_step_insert [of i t j sub s s'] by simp
next
  case (EnqueueEvent i t j)
  then show ?thesis using assms(1) enqueue_step [of c b display i t j s s'] held_step_insert [of i t j None s s'] by auto
qed (use assms in \<open>auto split: if_splits\<close>)

lemma u32_inc_uint: "(a :: u32) < b \<Longrightarrow> uint (a + 1) = uint a + 1"
  by (simp only: uint_nat u32_inc_no_wrap of_nat_add of_nat_1)

lemma stranded_step:
  assumes step: "sys_step c b display ev s = Some s'" and inv: "sys_inv (owc_max_attempts c) s"
    and r: "stranded_row (owc_max_attempts c) r s"
  shows "stranded_row (owc_max_attempts c) r s'"
proof (cases "\<exists>w fate. ev = WorkerClaim w fate")
  case True
  then obtain w fate where "step_claim c b w fate s = Some s'" using step by auto
  then show ?thesis by (rule stranded_claim [OF _ inv r])
next
  case False
  have mem: "r \<in> set (db_main (sy_db s))" and ok: "db_ok (sy_db s)"
    using r inv by (auto simp: stranded_row_def sys_inv_def inv_content_def)
  have held: "set (held_envelopes (sy_phase s' w')) \<subseteq> set (held_envelopes (sy_phase s w'))" for w'
    by (rule held_step [OF step]) (use False in blast)
  have mem': "r \<in> set (db_main (sy_db s'))"
  proof (cases ev)
    case (WorkerSettle w draw fate)
    then have "step_settle c b display w draw fate s = Some s'" using step by simp
    then show ?thesis
    proof (rule step_settle_keeps_row [OF _ ok mem])
      fix e outcome es assume phase: "sy_phase s w = WorkerSettling e outcome es"
      then have e: "e \<in> set (held_envelopes (sy_phase s w))" "e \<in> set (seen_envelopes (sy_phase s w))" by simp_all
      then have "oe_attempts e < owc_max_attempts c" using inv_held_bound [of "owc_max_attempts c" s e w] inv by (simp add: sys_inv_def)
      then have "uint (oe_attempts e + 1) = uint (oe_attempts e) + 1" by (rule u32_inc_uint)
      then show "\<not> row_fenced (oe_event_id e) (uint (oe_attempts e + 1)) r"
        using r e(1) unfolding stranded_row_def row_fenced_def by metis
    qed
  next
    case (EnqueueEvent i t j)
    then have "s' = s \<or> step_insert i t j None s = Some s'" using step enqueue_step [of c b display i t j s s'] by simp
    then show ?thesis using mem by (auto intro: step_insert_keeps_row)
  next
    case (WorkerPoll w)
    then show ?thesis using step mem held_step_poll [of c b w s s'] by simp
  next
    case (WorkerDispatch w handlers)
    then show ?thesis using step mem held_step_dispatch [of c w handlers s s'] by simp
  next
    case (PublishEvent i t j sub)
    then show ?thesis using step mem step_insert_keeps_row [of i t j sub s s' r] by simp
  qed (use step False mem in auto)
  show ?thesis by (rule stranded_rowI [OF r mem']) (use held in blast)
qed

lemma stranded_run:
  "sys_run c b display evs s = Some s' \<Longrightarrow> sys_inv (owc_max_attempts c) s \<Longrightarrow> stranded_row (owc_max_attempts c) r s \<Longrightarrow>
   stranded_row (owc_max_attempts c) r s'"
  by (induction evs arbitrary: s) (auto split: bind_splits dest: sys_step_inv stranded_step)

lemma delivered_run:
  "sys_run c b display evs s = Some s' \<Longrightarrow> sys_inv (owc_max_attempts c) s \<Longrightarrow> r \<in> set (db_main (sy_db s)) \<Longrightarrow>
   ow_delivered_at r \<noteq> None \<Longrightarrow>
   \<exists>r'\<in>set (db_main (sy_db s')). ow_id r' = ow_id r \<and> row_content r' = row_content r \<and> ow_delivered_at r' = ow_delivered_at r"
proof (induction evs arbitrary: s r)
  case (Cons ev evs)
  obtain s1 where s1: "sys_step c b display ev s = Some s1" "sys_run c b display evs s1 = Some s'"
    using Cons.prems(1) by (auto split: bind_splits)
  have "db_ok (sy_db s)" using Cons.prems(2) by (simp add: sys_inv_def inv_content_def)
  from step_delivered_row [OF s1(1) this Cons.prems(3,4)] obtain r1 where r1: "r1 \<in> set (db_main (sy_db s1))"
    "ow_id r1 = ow_id r" "row_content r1 = row_content r" "ow_delivered_at r1 = ow_delivered_at r" by blast
  then show ?case using Cons.IH [OF s1(2) sys_step_inv [OF s1(1) Cons.prems(2)] r1(1)] Cons.prems(4) by simp
qed auto

section \<open>Properties\<close>

lemma distinct_claims: "(\<And>i. distinct (claims_of i xs)) \<Longrightarrow> distinct (map snd xs)"
proof (induction xs)
  case (Cons t xs)
  obtain w i k where t: "t = (w, i, k)" by (rule prod_cases3)
  have "distinct (claims_of j xs)" for j
    using Cons.prems [of j] by (auto simp: claims_of_def split: if_splits)
  moreover have "k \<notin> set (claims_of i xs)" using Cons.prems [of i] by (simp add: claims_of_def t)
  then have "(i, k) \<notin> snd ` set xs" by (force simp: claims_of_def)
  ultimately show ?case using Cons.IH by (simp add: t)
qed simp

lemma claims_bounded:
  assumes "inv_claims bound s" and "claims_of i (sy_claims s) = [1..n]"
  shows "n \<le> uint bound"
proof (cases "1 \<le> n")
  case True
  then have "n \<in> set (claims_of i (sy_claims s))" using assms(2) by simp
  then show ?thesis using assms(1) by (auto simp: inv_claims_def claims_of_def)
next
  case False
  then show ?thesis using uint_ge_0 [of bound] by linarith
qed

text \<open>
  C18. Each attempt on each row is claimed once. However workers interleave, crash and lose their
  transactions, the claims of a row are exactly its attempts 1, 2, and so on up to its counter, in that
  order and each by one worker, and no row is claimed more often than the configured number of
  attempts.
\<close>

theorem outbox_claims_unique:
  assumes "sys_run c b display evs (sys_init now w0) = Some s"
  shows "distinct (map snd (sy_claims s))
    \<and> (\<forall>i. \<exists>n \<le> uint (owc_max_attempts c). claims_of i (sy_claims s) = [1..n])
    \<and> (\<forall>r\<in>set (db_main (sy_db s)). claims_of (ow_id r) (sy_claims s) = [1..ow_attempts r]
        \<and> ow_attempts r \<le> uint (owc_max_attempts c))"
proof -
  have inv: "inv_claims (owc_max_attempts c) s" using reachable_inv [OF assms] by (simp add: sys_inv_def)
  then have seq: "\<exists>n. claims_of i (sy_claims s) = [1..n]" for i by (simp add: inv_claims_def)
  have "distinct (map snd (sy_claims s))" by (rule distinct_claims) (metis seq distinct_upto)
  moreover have "\<exists>n \<le> uint (owc_max_attempts c). claims_of i (sy_claims s) = [1..n]" for i
    using seq claims_bounded [OF inv] by blast
  moreover have "claims_of (ow_id r) (sy_claims s) = [1..ow_attempts r]" if "r \<in> set (db_main (sy_db s))" for r
    using inv that by (simp add: inv_claims_def)
  ultimately show ?thesis using claims_bounded [OF inv] by blast
qed

definition sample_config :: outbox_worker_config where
  "sample_config = outbox_worker_config_default\<lparr>owc_max_attempts := 1, owc_jitter := False\<rparr>"

lemma sample_config_max [simp]: "owc_max_attempts sample_config = 1"
  by (simp add: sample_config_def)

definition sample_backend :: "(nat, int) sql_backend" where
  "sample_backend = \<lparr>sb_dialect = Sqlite, sb_dead_letter = True, sb_plus = (\<lambda>t d. t + int d),
     sb_to_vec = (\<lambda>_. Inr []), sb_read_time = Inr\<rparr>"

definition sample_handler :: "unit outbox_handler" where
  "sample_handler e ctx w = (Finishes 0 (Inr ()), w)"

definition sample_claim_events :: "(nat, int, unit) outbox_event list" where
  "sample_claim_events = [PublishEvent 7 ''users.registered'' 42 None, WorkerPoll 0, WorkerClaim 0 TxCommitted]"

lemmas sample_defs = sample_config_def sample_backend_def sample_handler_def outbox_worker_config_default_def
  sys_init_def step_insert_def insert_row_def has_event_def fresh_row_def step_poll_def sql_store_def sql_poll_def
  poll_rows_def bind_limit_def row_pollable_def bind_max_attempts_def supports_skip_locked_def decode_row_def
  assemble_envelope_def attempts_of_column_def step_claim_def claim_batch_def sql_claim_def fence_value_def i32_max_def
  claim_returning_def claim_update_def claimed_row_def in_claim_order_def tx_commit_def claims_between_def

lemma sample_claimed:
  "sys_run sample_config sample_backend (\<lambda>_. []) sample_claim_events (sys_init 0 ()) = Some
     \<lparr>sy_db = \<lparr>db_main = [\<lparr>ow_id = 0, ow_event_id = 7, ow_event_type = ''users.registered'', ow_payload = 42,
           ow_subject_id = None, ow_created_at = 0, ow_attempts = 1, ow_last_error = None,
           ow_next_retry_at = Some (int (outbox_lease_for sample_config 1)), ow_delivered_at = None\<rparr>],
         db_dead = [], db_next_id = 1, db_next_dead = 0, db_now = 0, db_locked = []\<rparr>,
       sy_world = (), sy_phase = (\<lambda>_. WorkerIdle)(0 := WorkerWorking [\<lparr>oe_event_id = 7, oe_event_type = ''users.registered'', oe_payload = [],
           oe_subject_id = None, oe_created_at = 0, oe_attempts = 0, oe_last_error = None, oe_next_retry_at = None,
           oe_delivered_at = None\<rparr>]),
       sy_inserted = [(7, ''users.registered'', 42, None)], sy_claims = [(0, 0, 1)], sy_handled = []\<rparr>"
  by (simp add: sample_claim_events_def sample_defs)

theorem outbox_claims_unique_witness:
  "\<exists>s. sys_run sample_config sample_backend (\<lambda>_. []) sample_claim_events (sys_init 0 ()) = Some s
     \<and> sy_claims s = [(0, 0, 1)] \<and> distinct (map snd (sy_claims s))
     \<and> (\<forall>r\<in>set (db_main (sy_db s)). ow_attempts r \<le> 1)"
  using outbox_claims_unique [OF sample_claimed] by (simp add: sample_claimed)

lemma sys_run_append: "sys_run c b display (xs @ ys) s = Option.bind (sys_run c b display xs s) (sys_run c b display ys)"
  by (induction xs arbitrary: s) (auto split: bind_split)

lemma latest_claim:
  assumes "map (snd \<circ> snd) ts = [1..n]" and "t \<in> set ts" and "snd (snd t) = n"
  shows "last ts = t"
proof -
  have "ts \<noteq> []" using assms(2) by auto
  have "1 \<le> n" using assms by (metis (no_types, lifting) atLeastAtMost_iff comp_apply image_eqI list.set_map set_upto)
  then have "snd (snd (last ts)) = n"
    using assms(1) last_map [OF \<open>ts \<noteq> []\<close>, of "snd \<circ> snd"] by (simp add: upto_rec2)
  moreover have "inj_on (snd \<circ> snd) (set ts)" using assms(1) distinct_map distinct_upto by metis
  ultimately show ?thesis
    using assms(2,3) last_in_set [OF \<open>ts \<noteq> []\<close>] by (auto simp: inj_on_def)
qed

text \<open>
  C19. Only the latest claimant settles. When no event id is inserted twice, a settlement that changes
  the tables comes from the worker that made the newest claim of the event's row, and the row was not
  delivered; the outcome of a worker whose lease was taken over is dropped, whatever it was.
\<close>

theorem settlement_by_latest_claimant:
  assumes run: "sys_run c b display evs (sys_init now w0) = Some s"
    and fresh: "distinct (map fst (sy_inserted s))"
    and step: "sys_step c b display (WorkerSettle w draw fate) s = Some s'" and changed: "sy_db s' \<noteq> sy_db s"
  shows "\<exists>e outcome es r. sy_phase s w = WorkerSettling e outcome es \<and> r \<in> set (db_main (sy_db s))
    \<and> ow_event_id r = oe_event_id e \<and> ow_delivered_at r = None
    \<and> last (filter (\<lambda>t. fst (snd t) = ow_id r) (sy_claims s)) = (w, ow_id r, ow_attempts r)"
proof -
  have inv: "sys_inv (owc_max_attempts c) s" by (rule reachable_inv [OF run])
  then have ok: "db_ok (sy_db s)" and content: "inv_content s" by (auto simp: sys_inv_def inv_content_def)
  obtain e outcome es where phase: "sy_phase s w = WorkerSettling e outcome es"
    and db: "sy_db s' = snd (outbox_settle c (sql_store b) display draw fate e outcome (sy_db s))"
    using step by (auto simp: step_settle_def split: worker_phase.splits)
  have "stored_state (sy_db s) (oe_event_id e) = Some (uint (oe_attempts e + 1), False)"
    using sql.settle_lost_changes_nothing [OF ok] changed db by metis
  then obtain r where r: "r \<in> set (db_main (sy_db s))" "ow_event_id r = oe_event_id e"
    "ow_attempts r = uint (oe_attempts e + 1)" "ow_delivered_at r = None"
    using row_of_Some [OF ok] by (auto simp: stored_state_def)
  have held: "e \<in> set (held_envelopes (sy_phase s w))" "e \<in> set (seen_envelopes (sy_phase s w))" by (simp_all add: phase)
  then have "oe_attempts e < owc_max_attempts c" using inv_held_bound [of "owc_max_attempts c" s e w] inv by (simp add: sys_inv_def)
  then have inc: "uint (oe_attempts e + 1) = uint (oe_attempts e) + 1" by (rule u32_inc_uint)
  obtain i where i: "i < length (sy_inserted s)" "fst (sy_inserted s ! i) = oe_event_id e"
    "(w, i, uint (oe_attempts e) + 1) \<in> set (sy_claims s)"
    using inv_held_claim [of "owc_max_attempts c" s e w] held(1) inv by (auto simp: sys_inv_def)
  have "ow_id r < length (sy_inserted s)" "fst (sy_inserted s ! ow_id r) = oe_event_id e"
    using content r by (auto simp: inv_content_def db_ok_def row_content_def)
  then have "i = ow_id r" using nth_eq_iff_index_eq [OF fresh, of i "ow_id r"] i(1,2) by simp
  then have "(w, ow_id r, ow_attempts r) \<in> set (filter (\<lambda>t. fst (snd t) = ow_id r) (sy_claims s))"
    using i(3) r(3) inc by simp
  moreover have "map (snd \<circ> snd) (filter (\<lambda>t. fst (snd t) = ow_id r) (sy_claims s)) = [1..ow_attempts r]"
    using inv r(1) by (simp add: sys_inv_def inv_claims_def claims_of_def)
  ultimately have "last (filter (\<lambda>t. fst (snd t) = ow_id r) (sy_claims s)) = (w, ow_id r, ow_attempts r)"
    by (intro latest_claim) simp_all
  then show ?thesis using phase r by blast
qed

definition sample_handle_events :: "(nat, int, unit) outbox_event list" where
  "sample_handle_events = sample_claim_events @ [WorkerDispatch 0 [''users.registered'' \<mapsto> sample_handler]]"

lemma sample_handled:
  "\<exists>s. sys_run sample_config sample_backend (\<lambda>_. []) sample_handle_events (sys_init 0 ()) = Some s
     \<and> map fst (sy_inserted s) = [7] \<and> sy_claims s = [(0, 0, 1)] \<and> sy_handled s = [(7, 1)]
     \<and> map ow_delivered_at (db_main (sy_db s)) = [None]
     \<and> (\<exists>s'. sys_step sample_config sample_backend (\<lambda>_. []) (WorkerSettle 0 id TxCommitted) s = Some s'
          \<and> map ow_delivered_at (db_main (sy_db s')) = [Some 0])"
  by (simp add: sample_handle_events_def sys_run_append sample_claimed step_dispatch_def outbox_dispatch_def handler_succeeds_def sample_handler_def
      step_settle_def outbox_settle_def settle_delivered_def sql_store_def sql_mark_delivered_def fence_value_def i32_max_def
      update_fenced_def row_fenced_def tx_commit_def)

theorem settlement_by_latest_claimant_witness:
  "\<exists>s s' e outcome es r. sys_run sample_config sample_backend (\<lambda>_. []) sample_handle_events (sys_init 0 ()) = Some s
     \<and> sys_step sample_config sample_backend (\<lambda>_. []) (WorkerSettle 0 id TxCommitted) s = Some s'
     \<and> sy_phase s 0 = WorkerSettling e outcome es \<and> r \<in> set (db_main (sy_db s)) \<and> ow_event_id r = oe_event_id e
     \<and> last (filter (\<lambda>t. fst (snd t) = ow_id r) (sy_claims s)) = (0, ow_id r, ow_attempts r)"
proof -
  obtain s s' where run: "sys_run sample_config sample_backend (\<lambda>_. []) sample_handle_events (sys_init 0 ()) = Some s"
    and fresh: "map fst (sy_inserted s) = [7]"
    and step: "sys_step sample_config sample_backend (\<lambda>_. []) (WorkerSettle 0 id TxCommitted) s = Some s'"
    and rows: "map ow_delivered_at (db_main (sy_db s)) = [None]" "map ow_delivered_at (db_main (sy_db s')) = [Some 0]"
    using sample_handled by (elim exE conjE) (rule that)
  have "sy_db s' \<noteq> sy_db s" using rows by auto
  then show ?thesis using settlement_by_latest_claimant [OF run _ step] fresh run step by fastforce
qed

text \<open>
  C20. No event is lost, duplicated or altered by the workers. In every reachable state the rows of the
  main and of the dead-letter table are together exactly the inserted events, each once, with the id,
  type, payload and subject it was inserted with; and a row marked delivered stays in the main table
  with its delivery mark, whatever happens later.
\<close>

theorem outbox_conserves_events:
  assumes run: "sys_run c b display evs (sys_init now w0) = Some s"
    and later: "sys_run c b display evs' s = Some s'"
  shows "mset (map row_content (db_main (sy_db s))) + mset (map dead_content (db_dead (sy_db s))) = mset (sy_inserted s)
    \<and> (\<forall>r\<in>set (db_main (sy_db s)). ow_delivered_at r \<noteq> None \<longrightarrow>
        (\<exists>r'\<in>set (db_main (sy_db s')). ow_id r' = ow_id r \<and> row_content r' = row_content r \<and> ow_delivered_at r' = ow_delivered_at r))"
proof -
  have inv: "sys_inv (owc_max_attempts c) s" by (rule reachable_inv [OF run])
  then show ?thesis using delivered_run [OF later inv] by (simp add: sys_inv_def inv_content_def)
qed

theorem outbox_conserves_events_witness:
  "\<exists>s s'. sys_run sample_config sample_backend (\<lambda>_. []) sample_handle_events (sys_init 0 ()) = Some s
     \<and> sys_run sample_config sample_backend (\<lambda>_. []) [WorkerSettle 0 id TxCommitted] s = Some s'
     \<and> mset (map row_content (db_main (sy_db s))) + mset (map dead_content (db_dead (sy_db s))) = mset (sy_inserted s)"
proof -
  obtain s s' where run: "sys_run sample_config sample_backend (\<lambda>_. []) sample_handle_events (sys_init 0 ()) = Some s"
    and step: "sys_step sample_config sample_backend (\<lambda>_. []) (WorkerSettle 0 id TxCommitted) s = Some s'"
    using sample_handled by (elim exE conjE) (rule that)
  have later: "sys_run sample_config sample_backend (\<lambda>_. []) [WorkerSettle 0 id TxCommitted] s = Some s'"
    using step by simp
  from outbox_conserves_events [OF run later] run later show ?thesis by fast
qed





text \<open>
  C28. An event whose last attempt died with its worker is stranded. A row that is not delivered, whose
  attempts are spent and whose last attempt no worker holds any more stays as it is in the main table
  for ever: no poll returns it, no worker settles it, and it is never moved to the dead-letter table.
\<close>

theorem spent_row_stranded:
  assumes run: "sys_run c b display evs (sys_init now w0) = Some s"
    and r: "stranded_row (owc_max_attempts c) r s"
    and later: "sys_run c b display evs' s = Some s'"
  shows "r \<in> set (db_main (sy_db s')) \<and> r \<notin> set (poll_rows d n (owc_max_attempts c) (sy_db s'))
    \<and> stranded_row (owc_max_attempts c) r s'"
proof -
  have "stranded_row (owc_max_attempts c) r s'" by (rule stranded_run [OF later reachable_inv [OF run] r])
  moreover from this have "r \<notin> set (poll_rows d n (owc_max_attempts c) (sy_db s'))"
    by (auto simp: stranded_row_def poll_rows_def row_pollable_def bind_max_attempts_def dest!: in_set_takeD split: dialect.splits)
  ultimately show ?thesis by (simp add: stranded_row_def)
qed

text \<open>A worker that dies between its claim and its settlement, on the only attempt there is.\<close>

theorem spent_row_stranded_witness:
  "\<exists>s s' r. sys_run sample_config sample_backend (\<lambda>_. []) (sample_claim_events @ [WorkerCrash 0]) (sys_init 0 ()) = Some s
     \<and> ow_event_id r = 7 \<and> ow_delivered_at r = None
     \<and> sys_run sample_config sample_backend (\<lambda>_. []) [ClockTo (10 ^ 30), WorkerPoll 1] s = Some s'
     \<and> r \<in> set (db_main (sy_db s')) \<and> db_dead (sy_db s') = [] \<and> sy_phase s' 1 = WorkerPolled []"
proof -
  obtain s where run: "sys_run sample_config sample_backend (\<lambda>_. []) (sample_claim_events @ [WorkerCrash 0]) (sys_init 0 ()) = Some s"
    and idle: "sy_phase s = (\<lambda>_. WorkerIdle)" and dead: "db_dead (sy_db s) = []"
    and main: "map (\<lambda>r. (ow_event_id r, ow_attempts r, ow_delivered_at r)) (db_main (sy_db s)) = [(7, 1, None)]"
    by (simp add: sys_run_append sample_claimed fun_eq_iff)
  obtain r where rs: "db_main (sy_db s) = [r]" and r: "ow_event_id r = 7" "ow_attempts r = 1" "ow_delivered_at r = None"
    using main by (auto simp: map_eq_Cons_conv)
  obtain s' where later: "sys_run sample_config sample_backend (\<lambda>_. []) [ClockTo (10 ^ 30), WorkerPoll 1] s = Some s'"
    and s': "db_dead (sy_db s') = []" "sy_phase s' 1 = WorkerPolled []"
    by (simp add: step_poll_def idle sql_store_def sql_poll_def poll_rows_def rs row_pollable_def r bind_max_attempts_def
        sample_backend_def dead)
  have "stranded_row (owc_max_attempts sample_config) r s" by (simp add: stranded_row_def rs r idle)
  from spent_row_stranded [OF run this later] show ?thesis using run later s' r by blast
qed

end
