(* ===== verification/Spec2Isabelle.thy ===== *)
theory Spec2Isabelle
  imports Sched_Worker Sched_Sql_Refines Rpc_Client_Safety Mediator Outbox_System
begin

text \<open>
  Verification of the hexeract messaging framework (Rust, \<open>src/crates/\<close>).

  \<^bold>\<open>The program.\<close> Hexeract dispatches typed messages inside a process (mediator and middlewares), carries
  them between processes over RabbitMQ (bus, envelope security, consumer, request-reply), stores them
  for delivery after a database commit (outbox), and delivers them at a later time (scheduler). The
  scheduler hands a due occurrence to the mediator, the bus or the outbox; the outbox hands an event
  to a handler; request-reply is built from the bus transport, the consumer and a registry in which
  callers wait.

  \<^bold>\<open>Conventions.\<close> A component's state is a record, its enumerations are datatypes, an operation is one
  function from its arguments and the state to a result and the new state; errors are the left side of
  \<open>result\<close>. Clock reads, fresh identifiers, random draws, iteration orders of hash maps, and the
  answers of brokers and databases are arguments. Third-party code is a record of functions
  (\<open>cron_engine\<close>, \<open>crypto\<close>, \<open>uuid_codec\<close>, \<open>sql_backend\<close>, \<open>sched_backend\<close>) with what the code relies on
  as a named predicate (\<open>cron_engine_ok\<close>, \<open>crypto_ok\<close>, \<open>unforged\<close>, \<open>uuid_codec_ok\<close>, \<open>columns_ok\<close>). Concurrency is a
  sequence of steps, one per critical section, transaction or stretch between two suspension points,
  so a theorem about every sequence holds for every interleaving.

  \<^bold>\<open>Shared theories.\<close>
  \<^item> \<open>Hex_Prelude\<close>: machine integers, results, durations and instants, number and byte encodings of the
    standard library, and the generic lemmas.
  \<^item> \<open>Hex_Core\<close> (\<open>hexeract-core\<close>): handler context, errors, and the middleware pipeline \<open>Next\<close>.

  \<^bold>\<open>Mediator\<close> (\<open>hexeract-mediator\<close>, \<open>hexeract-middleware\<close>). \<open>Mediator\<close> models the builder, the type-erased
  adapters and terminals, \<open>send\<close>, \<open>query\<close>, \<open>publish\<close> and the tracing and timeout middlewares. Shown: no
  dispatch of a registered type fails in a downcast, a handler is called at most once and with the
  message sent whatever the middlewares do, and what a built registry holds.

  \<^bold>\<open>Bus\<close> (\<open>hexeract-bus\<close>, \<open>hexeract-bus-rabbitmq\<close>).
  \<^item> \<open>Bus_Core\<close>: envelopes, reserved headers, errors (\<open>envelope.rs\<close>, \<open>error.rs\<close>, \<open>rpc_protocol.rs\<close>).
  \<^item> \<open>Env_Security\<close> (\<open>envelope_security/\<close>): policies, key sources, canonical bytes, signer, verifier. Shown:
    the canonical bytes determine everything that is signed, and an accepted envelope, unless its
    signature is forged, is one that the holder of an unrevoked key signed for this destination. The contract of a key source is the locale
    \<open>key_source_laws\<close>, interpreted for \<open>StaticKeySource\<close>.
  \<^item> \<open>Amqp_Metadata\<close> (\<open>metadata.rs\<close>): the bounded header codec. Shown: its round trip, and that the stack
    walk over nested values ends and computes the recursive size.
  \<^item> \<open>Amqp_Delivery\<close> (\<open>transport.rs\<close>, \<open>confirm.rs\<close>, \<open>envelope_security.rs\<close>): publication with confirms and
    recovery, decoding of deliveries. Shown: what a signing transport publishes verifies where it
    arrives; a publication reported as successful was confirmed.
  \<^item> \<open>Amqp_Worker\<close> (\<open>worker.rs\<close>): the consumer. Shown: one settlement per delivery, no acknowledgement
    before the handler's success or a confirmed copy, no handler run on an unverified envelope,
    quarantine of rejected deliveries, and the bound on deliveries in flight.

  \<^bold>\<open>Request-reply\<close> (same crates).
  \<^item> \<open>Rpc_Protocol\<close>: deadlines, reply acceptance and destinations, remote errors; caller and responder
    agree on a deadline.
  \<^item> \<open>Rpc_Registry\<close> (\<open>request_registry.rs\<close>, \<open>slot_retirement.rs\<close>): an invariant, finality of the first
    outcome, and refinement of an abstract rendezvous without tables and counters.
  \<^item> \<open>Rpc_Responder\<close> (\<open>replied_handler.rs\<close>, \<open>reply_publisher.rs\<close>): the guards and outcomes of a request, and
    that the responder cannot be used as a relay.
  \<^item> \<open>Rpc_Inbox\<close> (\<open>reply_inbox.rs\<close>): only decoded and verified replies reach a caller.
  \<^item> \<open>Rpc_Client\<close>, \<open>Rpc_Client_Safety\<close> (\<open>request_client.rs\<close>, \<open>request_client_supervisor.rs\<close>,
    \<open>call_observation.rs\<close>): calls, closers and the consumer as interleaved events. Shown: exact
    accounting, refused calls were never published, no wait on an inbox whose loss was observed, the
    contract of \<open>close\<close>, and the exchange from caller through responder and back.

  \<^bold>\<open>Outbox\<close> (\<open>hexeract-outbox\<close>, \<open>hexeract-outbox-sql\<close>).
  \<^item> \<open>Outbox_Core\<close>: envelopes, configuration, backoff, typed handlers, and the storage traits as records.
  \<^item> \<open>Outbox_Sql\<close>: what each statement does to the two tables, and the stores and publishers of the three
    dialects. Shown: the claims of the dialects agree.
  \<^item> \<open>Outbox_Worker\<close>: dispatch, claim and settle transactions, poll cycle and loop. The locale
    \<open>fenced_outbox_store\<close> states what a settlement may rely on; the SQL stores are its instance.
  \<^item> \<open>Outbox_System\<close>: any number of workers and publishers, crashes included. Shown: every attempt has one
    claimant, only the newest claimant settles, no event is lost, doubled or altered, a delivered event
    was handled; and that a worker dying in the last attempt leaves its event stranded.

  \<^bold>\<open>Scheduler\<close> (\<open>hexeract-scheduler\<close>, \<open>hexeract-scheduler-sql\<close>).
  \<^item> \<open>Sched_Core\<close>: targets, triggers, cron adapter, messages, occurrence identities.
  \<^item> \<open>Sched_Store\<close>: the store traits as a record, their contract as the locale \<open>schedule_store_laws\<close>, and
    the in-memory store, its instance.
  \<^item> \<open>Sched_Lifecycle\<close>: any sequence of calls on that store. Shown: the row invariant, exclusion by leases,
    fencing of stale leases, the bound on claims of a poison occurrence, and that nothing pending is stuck.
  \<^item> \<open>Sched_Worker\<close>: configuration, polling worker, sinks, control handle; what a poll cycle leaves in
    any store that keeps the contract (\<open>reliable_schedule_store\<close>), and the bounds of the backoff.
  \<^item> \<open>Sched_Sql\<close>: the SQL stores, with what each statement does to the table. Shown: the table invariant
    over any calls, what a claim takes and when it fails, and that a pause and a resume release a lease.
  \<^item> \<open>Sched_Sql_Refines\<close>: a table read as a map is the in-memory store after the same calls, with the same
    results; the calls on which the backends differ are listed in \<open>comparable\<close>.

  \<^bold>\<open>Termination.\<close> No definition uses fuel. Recursion that is not structural (\<open>next_run\<close>, \<open>measure_loop\<close>,
  \<open>publish_with_recovery\<close>, the trimming of strings) has a termination proof. A service loop runs over the
  list of what happens to it, or is a step relation.

  \<^bold>\<open>Not modelled.\<close> Connections, channel pool and topology declaration around the broker client
  (\<open>connection.rs\<close>, \<open>pool.rs\<close>, \<open>topology.rs\<close>); the text of SQL statements and of the schemas, the
  timestamp formats and the engines below the level of rows; tracing output; the wiring of tasks in the
  runtime and mutex poisoning; the marker traits of the core; the procedural macros; the command line;
  re-exports and tests.
\<close>

end
